(* ===== verification/Dipper_Prelude.thy ===== *)
theory Dipper_Prelude
  imports Main "HOL-Library.Word" "HOL-Library.List_Lexorder" "HOL-Library.Option_ord"
begin

text \<open>
  Shared vocabulary of the development: the machine types of the Rust sources, the casts
  between them, time, and the generic facts about lists that the table and queue models use.

  \<^item> An unsigned Rust integer is a word of its width; a Postgres \<open>BIGINT\<close> or \<open>INTEGER\<close>
    column and a Rust \<open>i64\<close> or \<open>i32\<close> are an \<^typ>\<open>int\<close> in the column's range.
  \<^item> A timestamp (\<open>OffsetDateTime\<close>, \<open>TIMESTAMPTZ\<close>) is a number of microseconds since the
    Unix epoch, Postgres' own resolution. The database session runs in UTC, so that
    \<open>timezone('UTC', now())\<close> is the statement's time, an explicit argument \<open>now\<close>.
  \<^item> An address and an indexer id are 160-bit words, a deployment id is a 256-bit word,
    a UUID a 128-bit word.
\<close>

section \<open>Machine types and casts\<close>

type_synonym u8 = "8 word"
type_synonym u16 = "16 word"
type_synonym u32 = "32 word"
type_synonym u64 = "64 word"
type_synonym u256 = "256 word"
type_synonym address = "160 word"
type_synonym indexer_id = "160 word"
type_synonym deployment_id = "256 word"
type_synonym chain_id = "64 word"
type_synonym uuid = "128 word"
type_synonym request_id = "128 word"
type_synonym timestamp = int

named_theorems keeps_rows \<open>transactions that keep the invariant of the registry\<close>

text \<open>Rust's \<open>x as i64\<close> on a \<open>u64\<close> reinterprets the bits, and so does \<open>x as u64\<close> back.\<close>

definition as_i64 :: "u64 \<Rightarrow> int" where
  "as_i64 x = sint x"

definition as_u64 :: "int \<Rightarrow> u64" where
  "as_u64 i = word_of_int i"

definition i32_max :: int where
  "i32_max = 2147483647"

definition i64_max :: int where
  "i64_max = 9223372036854775807"

lemma as_u64_as_i64 [simp]: "as_u64 (as_i64 x) = x"
  by (simp add: as_u64_def as_i64_def)

lemma as_i64_range: "- (2 ^ 63) \<le> as_i64 x" "as_i64 x < 2 ^ 63"
  using sint_greater_eq [of x] sint_less [of x] by (simp_all add: as_i64_def)

lemma as_i64_small: "uint x < 2 ^ 63 \<Longrightarrow> as_i64 x = uint x"
  by (simp add: as_i64_def sint_uint signed_take_bit_int_eq_self_iff order_trans [OF _ uint_ge_0])

lemma as_i64_le_uint: "as_i64 x \<le> uint x"
  using as_i64_small [of x] as_i64_range(2) [of x] by linarith

lemma as_i64_inject [simp]: "as_i64 x = as_i64 y \<longleftrightarrow> x = y"
  by (metis as_u64_as_i64)

text \<open>Saturating arithmetic of unsigned words (\<open>saturating_sub\<close>, \<open>saturating_add\<close>).\<close>

definition saturating_sub :: "'a::len word \<Rightarrow> 'a word \<Rightarrow> 'a word" where
  "saturating_sub x y = (if x < y then 0 else x - y)"

definition saturating_add :: "'a::len word \<Rightarrow> 'a word \<Rightarrow> 'a word" where
  "saturating_add x y = (if uint x + uint y < 2 ^ LENGTH('a) then x + y else - 1)"

lemma uint_saturating_sub: "uint (saturating_sub x y) = max 0 (uint x - uint y)"
  by (auto simp: saturating_sub_def word_less_def uint_sub_if' not_less word_le_def)

lemma uint_saturating_add:
  fixes x :: "'a::len word"
  shows "uint (saturating_add x y) = min (2 ^ LENGTH('a) - 1) (uint x + uint y)"
  by (auto simp: saturating_add_def uint_word_ariths zmod_minus1)

section \<open>Time\<close>

definition secs :: "int \<Rightarrow> timestamp" where
  "secs n = n * 1000000"

definition mins :: "int \<Rightarrow> timestamp" where
  "mins n = secs (60 * n)"

definition hours :: "int \<Rightarrow> timestamp" where
  "hours n = mins (60 * n)"

definition days :: "int \<Rightarrow> timestamp" where
  "days n = hours (24 * n)"

lemmas time_defs = secs_def mins_def hours_def days_def

text \<open>\<open>OffsetDateTime::unix_timestamp\<close> reads whole seconds, rounding down.\<close>

definition unix_secs :: "timestamp \<Rightarrow> int" where
  "unix_secs t = t div 1000000"

section \<open>Lists\<close>

lemma distinct_map_filterI: "distinct (map f xs) \<Longrightarrow> distinct (map f (filter P xs))"
  by (induction xs) auto

lemma map_key_map_if:
  "(\<And>x. P x \<Longrightarrow> key (f x) = key x) \<Longrightarrow> map key (map (\<lambda>x. if P x then f x else x) xs) = map key xs"
  by (induction xs) auto

lemma distinct_map_keyD:
  "\<lbrakk>distinct (map key xs); x \<in> set xs; y \<in> set xs; key x = key y\<rbrakk> \<Longrightarrow> x = y"
  by (auto simp: distinct_map inj_on_def)

lemma sort_key_take_le:
  assumes "x \<in> set (take n (sort_key k xs))" and "y \<in> set xs"
    and "y \<notin> set (take n (sort_key k xs))"
  shows "k x \<le> k y"
proof -
  let ?s = "sort_key k xs"
  have "y \<in> set (drop n ?s)"
    using assms(2,3) by (metis Un_iff append_take_drop_id set_append set_sort)
  moreover have "sorted (map k (take n ?s) @ map k (drop n ?s))"
    using sorted_sort_key [of k xs] by (simp flip: map_append)
  ultimately show ?thesis
    using assms(1) by (auto simp: sorted_append)
qed

lemma filter_eq_singleton:
  assumes "distinct (map key xs)" and "x \<in> set xs" and "P x"
    and unique: "\<And>y. P y \<Longrightarrow> key y = key x"
  shows "filter P xs = [x]"
proof -
  have "set (filter P xs) = {x}"
    using assms distinct_map_keyD [OF assms(1)] by auto
  moreover have "distinct (filter P xs)"
    using assms(1) by (simp add: distinct_map)
  ultimately have "length (filter P xs) = 1"
    by (simp flip: distinct_card)
  with \<open>set (filter P xs) = {x}\<close> show ?thesis
    by (auto simp: length_Suc_conv simp del: set_filter)
qed

section \<open>Systems of steps\<close>

text \<open>
  \<open>invariant_system\<close> is the contract of a state machine whose steps keep an invariant;
  \<open>monotone_system\<close> adds a relation that every step respects. The registry and the job queue
  interpret them.
\<close>

locale invariant_system =
  fixes init :: "'s \<Rightarrow> bool" and step :: "'s \<Rightarrow> 's \<Rightarrow> bool" and inv :: "'s \<Rightarrow> bool"
  assumes init_inv: "init s \<Longrightarrow> inv s"
    and step_inv: "inv s \<Longrightarrow> step s s' \<Longrightarrow> inv s'"
begin

lemma steps_inv: "step\<^sup>*\<^sup>* s s' \<Longrightarrow> inv s \<Longrightarrow> inv s'"
  by (induction rule: rtranclp_induct) (auto intro: step_inv)

lemma reachable_inv: "init s \<Longrightarrow> step\<^sup>*\<^sup>* s s' \<Longrightarrow> inv s'"
  by (blast intro: steps_inv init_inv)

end

locale monotone_system = invariant_system +
  fixes grows :: "'s \<Rightarrow> 's \<Rightarrow> bool"
  assumes grows_refl: "grows s s"
    and grows_trans: "grows s s' \<Longrightarrow> grows s' s'' \<Longrightarrow> grows s s''"
    and step_grows: "inv s \<Longrightarrow> step s s' \<Longrightarrow> grows s s'"
begin

lemma steps_grow: "step\<^sup>*\<^sup>* s s' \<Longrightarrow> inv s \<Longrightarrow> grows s s'"
proof (induction rule: rtranclp_induct)
  case (step t u)
  moreover from step.hyps(1) step.prems have "inv t" by (rule steps_inv)
  ultimately show ?case
    by (blast intro: grows_trans step_grows)
qed (rule grows_refl)

end

end
