(* ===== verification/Ids.thy ===== *)
theory Ids
  imports Dipper_Prelude
begin

unbundle bit_operations_syntax

text \<open>
  \<open>dipper-core/src/ids.rs\<close>: the on-chain agreement id, its text form (\<open>0x\<close> and 32 lowercase hex
  digits) and the parser of that form. Ids are ordered bytewise, as the derived \<open>Ord\<close> does and
  as Postgres orders \<open>BYTEA\<close>.
\<close>

section \<open>The id, its text form and its parser\<close>

datatype agreement_id = AgreementId (id_bytes: "u8 list")

datatype parse_agreement_id_error =
    ExpectedHexChars nat
  | InvalidHexChar char
  | ChunkOutOfBounds

definition agreement_id_from_bytes :: "u8 list \<Rightarrow> agreement_id option" where
  "agreement_id_from_bytes bs = (if length bs = 16 then Some (AgreementId bs) else None)"

definition hex_digit :: "u8 \<Rightarrow> char" where
  "hex_digit n = ''0123456789abcdef'' ! unat n"

definition byte_hex :: "u8 \<Rightarrow> string" where
  "byte_hex b = [hex_digit (drop_bit 4 b), hex_digit (b AND 15)]"

definition agreement_id_display :: "agreement_id \<Rightarrow> string" where
  "agreement_id_display i = ''0x'' @ concat (map byte_hex (id_bytes i))"

definition hex_nibble :: "char \<Rightarrow> u8 option" where
  "hex_nibble ch =
     (let c = (of_char ch :: u8) in
      if 48 \<le> c \<and> c \<le> 57 then Some (c - 48)
      else if 97 \<le> c \<and> c \<le> 102 then Some (c - 97 + 10)
      else if 65 \<le> c \<and> c \<le> 70 then Some (c - 65 + 10)
      else None)"

definition strip_0x :: "string \<Rightarrow> string" where
  "strip_0x s = (if take 2 s = ''0x'' then drop 2 s else s)"

text \<open>
  The loop over \<open>hex.as_bytes().chunks(2)\<close>. A last chunk of one byte would panic on \<open>chunk[1]\<close>,
  which is \<^const>\<open>ChunkOutOfBounds\<close>; the length check before the loop rules it out.
\<close>

fun parse_hex_chunks :: "string \<Rightarrow> parse_agreement_id_error + u8 list" where
  "parse_hex_chunks [] = Inr []"
| "parse_hex_chunks [c] =
     (case hex_nibble c of None \<Rightarrow> Inl (InvalidHexChar c) | Some _ \<Rightarrow> Inl ChunkOutOfBounds)"
| "parse_hex_chunks (c # d # cs) =
     (case hex_nibble c of
        None \<Rightarrow> Inl (InvalidHexChar c)
      | Some hi \<Rightarrow>
          (case hex_nibble d of
             None \<Rightarrow> Inl (InvalidHexChar d)
           | Some lo \<Rightarrow>
               (case parse_hex_chunks cs of
                  Inl e \<Rightarrow> Inl e
                | Inr bs \<Rightarrow> Inr ((push_bit 4 hi OR lo) # bs))))"

definition agreement_id_from_str :: "string \<Rightarrow> parse_agreement_id_error + agreement_id" where
  "agreement_id_from_str s =
     (let hex = strip_0x s in
      if length hex \<noteq> 32 then Inl (ExpectedHexChars (length hex))
      else (case parse_hex_chunks hex of Inl e \<Rightarrow> Inl e | Inr bs \<Rightarrow> Inr (AgreementId bs)))"

section \<open>Order\<close>

instantiation agreement_id :: linorder
begin

definition less_eq_agreement_id :: "agreement_id \<Rightarrow> agreement_id \<Rightarrow> bool" where
  "less_eq_agreement_id a b \<longleftrightarrow> id_bytes a \<le> id_bytes b"

definition less_agreement_id :: "agreement_id \<Rightarrow> agreement_id \<Rightarrow> bool" where
  "less_agreement_id a b \<longleftrightarrow> id_bytes a < id_bytes b"

instance
  by standard
    (auto simp: less_eq_agreement_id_def less_agreement_id_def agreement_id.expand)

end

section \<open>Facts\<close>

lemma hex_nibble_digit:
  assumes "unat n < 16"
  shows "hex_nibble (hex_digit n) = Some n"
proof -
  have "list_all (\<lambda>k. hex_nibble (hex_digit (word_of_nat k)) = Some (word_of_nat k)) [0..<16]"
    by code_simp
  then have "\<forall>k \<in> set [0..<16]. hex_nibble (hex_digit (word_of_nat k)) = Some (word_of_nat k)"
    by (simp only: list_all_iff)
  moreover have "unat n \<in> set [0..<16]"
    using assms by simp
  ultimately have "hex_nibble (hex_digit (word_of_nat (unat n))) = Some (word_of_nat (unat n))"
    by (rule bspec)
  then show ?thesis by simp
qed

lemma low_nibble_small: "unat (b AND 15 :: u8) < 16"
proof -
  have "b AND 15 = take_bit 4 b"
    by (simp add: take_bit_eq_mask mask_eq_exp_minus_1)
  then show ?thesis
    using take_bit_nat_less_exp [of 4 "unat b"] by (simp add: unsigned_take_bit_eq)
qed

lemma high_nibble_small: "unat (drop_bit 4 b :: u8) < 16"
  using unsigned_less [of b, where ?'a = nat] by (simp add: unat_drop_bit_eq drop_bit_eq_div unat_div)

lemma nibbles_join: "push_bit 4 (drop_bit 4 b) OR (b AND 15) = (b :: u8)"
proof -
  have "b AND 15 = take_bit 4 b"
    by (simp add: take_bit_eq_mask mask_eq_exp_minus_1)
  then show ?thesis
    by (auto intro!: bit_word_eqI simp: bit_or_iff bit_push_bit_iff bit_drop_bit_eq bit_take_bit_iff)
qed

lemma parse_hex_chunks_byte_hex: "parse_hex_chunks (concat (map byte_hex bs)) = Inr bs"
  by (induction bs)
    (simp_all add: byte_hex_def hex_nibble_digit low_nibble_small high_nibble_small nibbles_join)

lemma length_concat_byte_hex: "length (concat (map byte_hex bs)) = 2 * length bs"
  by (induction bs) (simp_all add: byte_hex_def)

lemma parse_hex_chunks_length:
  "parse_hex_chunks cs = Inr bs \<Longrightarrow> length cs = 2 * length bs"
  by (induction cs arbitrary: bs rule: parse_hex_chunks.induct)
    (auto split: option.splits sum.splits)

lemma parse_hex_chunks_even:
  "even (length cs) \<Longrightarrow> parse_hex_chunks cs \<noteq> Inl ChunkOutOfBounds"
  by (induction cs rule: parse_hex_chunks.induct) (auto split: option.splits sum.splits)



text \<open>
  C7: the parser is total and never panics: whatever the text, it either returns an id of exactly
  16 bytes, or reports a wrong length or a wrong digit, and never indexes past a chunk's end.
\<close>

theorem agreement_id_from_str_total:
  "agreement_id_from_str s \<noteq> Inl ChunkOutOfBounds \<and>
   (case agreement_id_from_str s of
      Inr i \<Rightarrow> length (id_bytes i) = 16
    | Inl (ExpectedHexChars n) \<Rightarrow> n \<noteq> 32
    | Inl (InvalidHexChar c) \<Rightarrow> hex_nibble c = None \<and> c \<in> set s
    | Inl ChunkOutOfBounds \<Rightarrow> False)"
proof -
  have sub: "set (strip_0x s) \<subseteq> set s"
    by (auto simp: strip_0x_def dest: in_set_dropD)
  have len: "parse_hex_chunks cs \<noteq> Inl (ExpectedHexChars n)" for cs n
    by (induction cs rule: parse_hex_chunks.induct) (auto split: option.splits sum.splits)
  have bad: "parse_hex_chunks cs = Inl (InvalidHexChar c) \<Longrightarrow> hex_nibble c = None \<and> c \<in> set cs"
    for cs c
    by (induction cs rule: parse_hex_chunks.induct) (auto split: option.splits sum.splits)
  show ?thesis
  proof (cases "length (strip_0x s) = 32")
    case False
    then show ?thesis by (simp add: agreement_id_from_str_def Let_def)
  next
    case True
    then have "parse_hex_chunks (strip_0x s) \<noteq> Inl ChunkOutOfBounds"
      by (intro parse_hex_chunks_even) simp
    with True show ?thesis
      using bad [of "strip_0x s"] parse_hex_chunks_length [of "strip_0x s"] sub len
      by (auto simp: agreement_id_from_str_def Let_def split: sum.splits parse_agreement_id_error.splits)
  qed
qed

end
