(* ===== verification/Sql.thy ===== *)
theory Sql
  imports Dipper_Prelude
begin

text \<open>
  The fragment of Postgres' SQL that the registry and the job queue use: nullable values with
  three-valued comparisons, \<open>COALESCE\<close>, and \<open>SELECT\<close>, \<open>UPDATE ... RETURNING\<close>, \<open>DELETE\<close>,
  \<open>ORDER BY\<close> and \<open>LIMIT\<close> over a table, a list of rows. A statement's rows come in table order,
  and rows that tie under \<open>ORDER BY\<close> stay in it (\<^const>\<open>sort_key\<close> is stable); Postgres promises
  neither, and no result below depends on it.

  The locale \<open>row_write\<close> is the interface between a statement's \<open>SET\<close> list and the table: the
  list leaves the primary key alone. It gives, once, what every such \<open>UPDATE\<close> does to the rows.
\<close>

section \<open>Nullable values\<close>

type_synonym sqlbool = "bool option"

fun sql_and :: "sqlbool \<Rightarrow> sqlbool \<Rightarrow> sqlbool" where
  "sql_and (Some False) b = Some False"
| "sql_and (Some True) b = b"
| "sql_and None (Some False) = Some False"
| "sql_and None b = None"

fun sql_or :: "sqlbool \<Rightarrow> sqlbool \<Rightarrow> sqlbool" where
  "sql_or (Some True) b = Some True"
| "sql_or (Some False) b = b"
| "sql_or None (Some True) = Some True"
| "sql_or None b = None"

fun sql_less :: "'a::linorder option \<Rightarrow> 'a option \<Rightarrow> sqlbool" where
  "sql_less (Some x) (Some y) = Some (x < y)"
| "sql_less _ _ = None"

fun sql_ge :: "'a::linorder option \<Rightarrow> 'a option \<Rightarrow> sqlbool" where
  "sql_ge (Some x) (Some y) = Some (y \<le> x)"
| "sql_ge _ _ = None"

text \<open>A \<open>WHERE\<close> or \<open>CASE WHEN\<close> condition is met only when it is true, not when it is unknown.\<close>

definition is_true :: "sqlbool \<Rightarrow> bool" where
  "is_true b \<longleftrightarrow> b = Some True"

definition coalesce :: "'a option \<Rightarrow> 'a option \<Rightarrow> 'a option" where
  "coalesce a b = (case a of None \<Rightarrow> b | Some x \<Rightarrow> Some x)"

lemma is_true_simps [simp]: "is_true (Some b) = b" "is_true None = False"
  by (simp_all add: is_true_def)

lemma is_true_and: "is_true (sql_and a b) \<longleftrightarrow> is_true a \<and> is_true b"
  by (cases "(a, b)" rule: sql_and.cases) (auto simp: is_true_def)

lemma is_true_or: "is_true (sql_or a b) \<longleftrightarrow> is_true a \<or> is_true b"
  by (cases "(a, b)" rule: sql_or.cases) (auto simp: is_true_def)

lemma is_true_less: "is_true (sql_less a b) \<longleftrightarrow> (\<exists>x y. a = Some x \<and> b = Some y \<and> x < y)"
  by (cases "(a, b)" rule: sql_less.cases) auto

lemma is_true_ge: "is_true (sql_ge a b) \<longleftrightarrow> (\<exists>x y. a = Some x \<and> b = Some y \<and> y \<le> x)"
  by (cases "(a, b)" rule: sql_ge.cases) auto

lemmas is_true_rules = is_true_and is_true_or is_true_less is_true_ge

lemma coalesce_simps [simp]:
  "coalesce None b = b" "coalesce (Some x) b = Some x" "coalesce a None = a"
  by (simp_all add: coalesce_def split: option.splits)

lemma coalesce_eq_None [simp]: "coalesce a b = None \<longleftrightarrow> a = None \<and> b = None"
  by (simp add: coalesce_def split: option.splits)

section \<open>Statements over a table\<close>

definition sql_update :: "('r \<Rightarrow> bool) \<Rightarrow> ('r \<Rightarrow> 'r) \<Rightarrow> 'r list \<Rightarrow> 'r list" where
  "sql_update P f t = map (\<lambda>r. if P r then f r else r) t"

definition sql_returning :: "('r \<Rightarrow> bool) \<Rightarrow> ('r \<Rightarrow> 'r) \<Rightarrow> 'r list \<Rightarrow> 'r list" where
  "sql_returning P f t = map f (filter P t)"

definition find_row :: "('r \<Rightarrow> 'k) \<Rightarrow> 'k \<Rightarrow> 'r list \<Rightarrow> 'r option" where
  "find_row key k t = List.find (\<lambda>r. key r = k) t"

text \<open>\<open>LIMIT CASE WHEN n > 0 THEN n ELSE NULL END\<close>: no limit unless \<open>n\<close> is positive.\<close>

definition limit_if_positive :: "int \<Rightarrow> 'r list \<Rightarrow> 'r list" where
  "limit_if_positive n xs = (if n > 0 then take (nat n) xs else xs)"

lemma find_row_Nil [simp]: "find_row key k [] = None"
  by (simp add: find_row_def)

lemma find_row_Cons [simp]:
  "find_row key k (r # t) = (if key r = k then Some r else find_row key k t)"
  by (simp add: find_row_def)

lemma find_row_SomeD: "find_row key k t = Some r \<Longrightarrow> r \<in> set t \<and> key r = k"
  by (induction t) (auto split: if_splits)

lemma find_row_None: "find_row key k t = None \<longleftrightarrow> k \<notin> key ` set t"
  by (induction t) auto

lemma find_row_mem: "distinct (map key t) \<Longrightarrow> r \<in> set t \<Longrightarrow> find_row key (key r) t = Some r"
  by (induction t) (auto simp: image_iff)

lemma find_row_iff:
  "distinct (map key t) \<Longrightarrow> find_row key k t = Some r \<longleftrightarrow> r \<in> set t \<and> key r = k"
  using find_row_SomeD find_row_mem by fastforce

lemma find_row_append:
  "find_row key k (t @ u) = (case find_row key k t of None \<Rightarrow> find_row key k u | Some r \<Rightarrow> Some r)"
  by (induction t) auto

lemma sql_update_Nil [simp]: "sql_update P f [] = []"
  by (simp add: sql_update_def)

lemma sql_update_Cons [simp]:
  "sql_update P f (r # t) = (if P r then f r else r) # sql_update P f t"
  by (simp add: sql_update_def)

lemma set_sql_update: "set (sql_update P f t) = (\<lambda>r. if P r then f r else r) ` set t"
  by (simp add: sql_update_def)

lemma length_sql_update [simp]: "length (sql_update P f t) = length t"
  by (simp add: sql_update_def)

lemma sql_update_none: "(\<And>r. r \<in> set t \<Longrightarrow> \<not> P r) \<Longrightarrow> sql_update P f t = t"
  by (simp add: sql_update_def map_idI)

lemma sql_update_cong:
  "(\<And>r. r \<in> set t \<Longrightarrow> P r = Q r) \<Longrightarrow> (\<And>r. r \<in> set t \<Longrightarrow> Q r \<Longrightarrow> f r = g r) \<Longrightarrow>
    sql_update P f t = sql_update Q g t"
  by (simp add: sql_update_def)

lemma sql_returning_Nil_iff: "sql_returning P f t = [] \<longleftrightarrow> (\<forall>r \<in> set t. \<not> P r)"
  by (simp add: sql_returning_def filter_empty_conv)

locale row_write =
  fixes key :: "'r \<Rightarrow> 'k" and set_row :: "'r \<Rightarrow> 'r"
  assumes keeps_key: "key (set_row r) = key r"
begin

lemma keys_kept: "map key (sql_update P set_row t) = map key t"
  by (induction t) (auto simp: keeps_key)

lemma find_row_update:
  "distinct (map key t) \<Longrightarrow>
    find_row key k (sql_update P set_row t) =
    map_option (\<lambda>r. if P r then set_row r else r) (find_row key k t)"
  by (induction t) (auto simp: keeps_key)

lemma update_one:
  assumes "distinct (map key t)" and "\<And>r. P r \<Longrightarrow> key r = k"
  shows "find_row key k' (sql_update P set_row t) =
    (if k' = k then map_option (\<lambda>r. if P r then set_row r else r) (find_row key k t)
     else find_row key k' t)"
proof (cases "k' = k")
  case True
  with find_row_update [OF assms(1)] show ?thesis by simp
next
  case False
  have "find_row key k' t = Some r \<Longrightarrow> \<not> P r" for r
    using assms(2) False by (auto dest: find_row_SomeD)
  with False find_row_update [OF assms(1), of k' P] show ?thesis
    by (cases "find_row key k' t") auto
qed

end

end
