(* ===== verification/Agreement.thy ===== *)
theory Agreement
  imports Ids Sql
begin

text \<open>
  The registry's data: \<open>dipper-pgregistry/src/indexing_agreement.rs\<close>,
  \<open>src/indexing_request.rs\<close>, and the row types and conversions of \<open>src/postgres.rs\<close>,
  \<open>src/postgres/indexing_agreement.rs\<close> and \<open>src/postgres/indexing_request.rs\<close>.
  A \<open>*_row\<close> record has every column of its table after the last migration; the records without
  that suffix are the values the registry hands out.
\<close>

section \<open>Agreements\<close>

datatype agreement_status =
    Created
  | Unresponsive
  | CanceledByRequester
  | CanceledByIndexer
  | Expired
  | AcceptedOnChain
  | Rejected
  | AbandonedByIndexer
  | Cancelling
  | Unknown

fun status_code :: "agreement_status \<Rightarrow> int" where
  "status_code Created = - 1"
| "status_code Unresponsive = 1"
| "status_code CanceledByRequester = 3"
| "status_code CanceledByIndexer = 4"
| "status_code Expired = 5"
| "status_code AcceptedOnChain = 6"
| "status_code Rejected = 7"
| "status_code AbandonedByIndexer = 8"
| "status_code Cancelling = 9"
| "status_code Unknown = 2147483647"

definition all_statuses :: "agreement_status list" where
  "all_statuses = [Created, Unresponsive, CanceledByRequester, CanceledByIndexer, Expired,
     AcceptedOnChain, Rejected, AbandonedByIndexer, Cancelling, Unknown]"

text \<open>\<open>FromPrimitive::from_i32(value).unwrap_or(Status::Unknown)\<close>.\<close>

definition status_from_i32 :: "int \<Rightarrow> agreement_status" where
  "status_from_i32 v =
     (case List.find (\<lambda>s. status_code s = v) all_statuses of Some s \<Rightarrow> s | None \<Rightarrow> Unknown)"

fun status_display :: "agreement_status \<Rightarrow> string" where
  "status_display Created = ''CREATED''"
| "status_display Unresponsive = ''UNRESPONSIVE''"
| "status_display CanceledByRequester = ''CANCELED_BY_REQUESTER''"
| "status_display CanceledByIndexer = ''CANCELED_BY_INDEXER''"
| "status_display Expired = ''EXPIRED''"
| "status_display AcceptedOnChain = ''ACCEPTED_ON_CHAIN''"
| "status_display Rejected = ''REJECTED''"
| "status_display AbandonedByIndexer = ''ABANDONED_BY_INDEXER''"
| "status_display Cancelling = ''CANCELLING''"
| "status_display Unknown = ''UNKNOWN''"

record terms_metadata =
  m_tokens_per_second :: u256
  m_tokens_per_entity_per_second :: u256
  m_subgraph_deployment_id :: deployment_id
  m_protocol_network :: chain_id
  m_chain_id :: chain_id
  m_proposed_at :: u64

record agreement_terms =
  t_payer :: address
  t_service_provider :: address
  t_data_service :: address
  t_deadline :: u64
  t_ends_at :: u64
  t_max_initial_tokens :: u256
  t_max_ongoing_tokens_per_second :: u256
  t_min_seconds_per_collection :: u32
  t_max_seconds_per_collection :: u32
  t_conditions :: u16
  t_metadata :: terms_metadata

record agreement_row =
  a_id :: agreement_id
  a_nonce_uuid :: uuid
  a_created_at :: timestamp
  a_updated_at :: timestamp
  a_status :: agreement_status
  a_request_id :: request_id
  a_deployment_id :: deployment_id
  a_indexer_id :: indexer_id
  a_indexer_url :: string
  a_terms :: agreement_terms
  a_terms_version_hash :: "u8 list option"
  a_last_block_height :: "int option"
  a_last_progress_at :: "timestamp option"
  a_rejection_reason :: "string option"
  a_offer_tx_hash :: "u8 list option"
  a_accepted_at :: "int option"
  a_accepted_tx :: "string option"
  a_canceled_at :: "int option"
  a_canceled_by :: "string option"
  a_canceled_tx :: "string option"
  a_accepted_event_emitted_at :: "timestamp option"
  a_terminated_event_emitted_at :: "timestamp option"
  a_expired_event_emitted_at :: "timestamp option"
  a_cancel_attempts :: int
  a_cancel_checked_at :: "timestamp option"
  a_ended_seen_at :: "timestamp option"
  a_abandoned :: bool
  a_replacement_pending :: bool

record indexing_agreement =
  ia_id :: agreement_id
  ia_nonce_uuid :: uuid
  ia_created_at :: timestamp
  ia_updated_at :: timestamp
  ia_status :: agreement_status
  ia_request_id :: request_id
  ia_indexer_id :: indexer_id
  ia_indexer_url :: string
  ia_terms :: agreement_terms
  ia_last_block_height :: "u64 option"
  ia_last_progress_at :: "timestamp option"
  ia_rejection_reason :: "string option"
  ia_terms_version_hash :: "u8 list option"

definition agreement_from_row :: "agreement_row \<Rightarrow> indexing_agreement" where
  "agreement_from_row r = \<lparr>
     ia_id = a_id r,
     ia_nonce_uuid = a_nonce_uuid r,
     ia_created_at = a_created_at r,
     ia_updated_at = a_updated_at r,
     ia_status = a_status r,
     ia_request_id = a_request_id r,
     ia_indexer_id = a_indexer_id r,
     ia_indexer_url = a_indexer_url r,
     ia_terms = a_terms r,
     ia_last_block_height = map_option as_u64 (a_last_block_height r),
     ia_last_progress_at = a_last_progress_at r,
     ia_rejection_reason = a_rejection_reason r,
     ia_terms_version_hash = a_terms_version_hash r\<rparr>"

record new_agreement_params =
  na_agreement_id :: agreement_id
  na_nonce_uuid :: uuid
  na_request_id :: request_id
  na_deployment_id :: deployment_id
  na_indexer_id :: indexer_id
  na_indexer_url :: string
  na_terms :: agreement_terms
  na_terms_version_hash :: "u8 list option"

section \<open>Rejection reasons\<close>

definition PRICE_TOO_LOW :: string where "PRICE_TOO_LOW = ''PRICE_TOO_LOW''"
definition DEADLINE_EXPIRED :: string where "DEADLINE_EXPIRED = ''DEADLINE_EXPIRED''"
definition SUBGRAPH_MANIFEST_UNAVAILABLE :: string where
  "SUBGRAPH_MANIFEST_UNAVAILABLE = ''SUBGRAPH_MANIFEST_UNAVAILABLE''"
definition UNSUPPORTED_NETWORK :: string where "UNSUPPORTED_NETWORK = ''UNSUPPORTED_NETWORK''"
definition UNEXPECTED_SERVICE_PROVIDER :: string where
  "UNEXPECTED_SERVICE_PROVIDER = ''UNEXPECTED_SERVICE_PROVIDER''"
definition AGREEMENT_EXPIRED :: string where "AGREEMENT_EXPIRED = ''AGREEMENT_EXPIRED''"
definition UNSUPPORTED_METADATA_VERSION :: string where
  "UNSUPPORTED_METADATA_VERSION = ''UNSUPPORTED_METADATA_VERSION''"
definition INVALID_SIGNATURE :: string where "INVALID_SIGNATURE = ''INVALID_SIGNATURE''"
definition SENDER_NOT_TRUSTED :: string where "SENDER_NOT_TRUSTED = ''SENDER_NOT_TRUSTED''"
definition CAPACITY_EXCEEDED :: string where "CAPACITY_EXCEEDED = ''CAPACITY_EXCEEDED''"
definition MANIFEST_TOO_LARGE :: string where "MANIFEST_TOO_LARGE = ''MANIFEST_TOO_LARGE''"
definition REPLAY_DETECTED :: string where "REPLAY_DETECTED = ''REPLAY_DETECTED''"
definition INSUFFICIENT_ESCROW :: string where "INSUFFICIENT_ESCROW = ''INSUFFICIENT_ESCROW''"
definition INDEXER_UNAVAILABLE :: string where "INDEXER_UNAVAILABLE = ''INDEXER_UNAVAILABLE''"
definition UNSPECIFIED :: string where "UNSPECIFIED = ''UNSPECIFIED''"

lemmas rejection_reason_defs =
  PRICE_TOO_LOW_def DEADLINE_EXPIRED_def SUBGRAPH_MANIFEST_UNAVAILABLE_def
  UNSUPPORTED_NETWORK_def UNEXPECTED_SERVICE_PROVIDER_def AGREEMENT_EXPIRED_def
  UNSUPPORTED_METADATA_VERSION_def INVALID_SIGNATURE_def SENDER_NOT_TRUSTED_def
  CAPACITY_EXCEEDED_def MANIFEST_TOO_LARGE_def REPLAY_DETECTED_def INSUFFICIENT_ESCROW_def
  INDEXER_UNAVAILABLE_def UNSPECIFIED_def

section \<open>Requests\<close>

datatype request_status = Open | Canceled | UnknownRequest

fun request_status_code :: "request_status \<Rightarrow> int" where
  "request_status_code Open = 0"
| "request_status_code Canceled = 1"
| "request_status_code UnknownRequest = 2147483647"

definition request_status_from_i32 :: "int \<Rightarrow> request_status" where
  "request_status_from_i32 v =
     (if v = 0 then Open else if v = 1 then Canceled else UnknownRequest)"

fun request_status_display :: "request_status \<Rightarrow> string" where
  "request_status_display Open = ''OPEN''"
| "request_status_display Canceled = ''CANCELED''"
| "request_status_display UnknownRequest = ''UNKNOWN''"

definition request_status_from_str :: "string \<Rightarrow> request_status" where
  "request_status_from_str s =
     (if s = ''OPEN'' then Open else if s = ''CANCELED'' then Canceled else UnknownRequest)"

record request_row =
  r_id :: request_id
  r_created_at :: timestamp
  r_updated_at :: timestamp
  r_status :: request_status
  r_requested_by :: address
  r_deployment_id :: deployment_id
  r_deployment_chain_id :: chain_id
  r_num_candidates :: int
  r_shortfall_active :: bool

record indexing_request =
  ir_id :: request_id
  ir_created_at :: timestamp
  ir_updated_at :: timestamp
  ir_status :: request_status
  ir_requested_by :: address
  ir_deployment_id :: deployment_id
  ir_deployment_chain_id :: chain_id
  ir_num_candidates :: int

definition request_from_row :: "request_row \<Rightarrow> indexing_request" where
  "request_from_row r = \<lparr>
     ir_id = r_id r,
     ir_created_at = r_created_at r,
     ir_updated_at = r_updated_at r,
     ir_status = r_status r,
     ir_requested_by = r_requested_by r,
     ir_deployment_id = r_deployment_id r,
     ir_deployment_chain_id = r_deployment_chain_id r,
     ir_num_candidates = r_num_candidates r\<rparr>"

definition request_new :: "request_id \<Rightarrow> timestamp \<Rightarrow> address \<Rightarrow> deployment_id \<Rightarrow> chain_id \<Rightarrow> int \<Rightarrow>
    indexing_request" where
  "request_new new_id now requested_by deployment chain n = \<lparr>
     ir_id = new_id,
     ir_created_at = now,
     ir_updated_at = now,
     ir_status = Open,
     ir_requested_by = requested_by,
     ir_deployment_id = deployment,
     ir_deployment_chain_id = chain,
     ir_num_candidates = n\<rparr>"

definition request_mark_as_canceled :: "timestamp \<Rightarrow> indexing_request \<Rightarrow> indexing_request" where
  "request_mark_as_canceled now r = r\<lparr>ir_status := Canceled, ir_updated_at := now\<rparr>"

datatype set_target_outcome =
    Inserted request_id
  | Updated request_id int
  | NoOp request_id
  | TargetCanceled request_id
  | NoOpAlreadyEmpty

section \<open>Facts\<close>

lemma status_exhaust: "s \<in> set all_statuses"
  by (cases s) (simp_all add: all_statuses_def)

lemma status_code_inject [simp]: "status_code s = status_code s' \<longleftrightarrow> s = s'"
  by (cases s; cases s') simp_all

instantiation agreement_status :: linorder
begin

definition less_eq_agreement_status :: "agreement_status \<Rightarrow> agreement_status \<Rightarrow> bool" where
  "less_eq_agreement_status a b \<longleftrightarrow> status_code a \<le> status_code b"

definition less_agreement_status :: "agreement_status \<Rightarrow> agreement_status \<Rightarrow> bool" where
  "less_agreement_status a b \<longleftrightarrow> status_code a < status_code b"

instance
  by standard (auto simp: less_eq_agreement_status_def less_agreement_status_def)

end

text \<open>
  C8: the integer a status is stored as reads back as that status, an integer no status is stored
  as reads back as \<open>Unknown\<close>, and no two statuses print the same.
\<close>

theorem status_stored_and_read_back:
  "status_from_i32 (status_code s) = s \<and>
   (status_from_i32 v = Unknown \<longleftrightarrow> v \<notin> status_code ` (UNIV - {Unknown})) \<and>
   (status_display s = status_display s' \<longleftrightarrow> s = s')"
proof -
  have read_back: "status_from_i32 (status_code t) = t" for t
    by (cases t) (simp_all add: status_from_i32_def all_statuses_def)
  moreover have "status_from_i32 v = Unknown" if "v \<notin> status_code ` (UNIV - {Unknown})"
  proof -
    from that have "v = status_code t \<Longrightarrow> t = Unknown" for t by auto
    then show ?thesis
      by (auto simp: status_from_i32_def find_Some_iff split: option.split)
  qed
  moreover have "status_display s = status_display s' \<longleftrightarrow> s = s'"
    by (cases s; cases s') simp_all
  ultimately show ?thesis by fastforce
qed

end
