(* ===== verification/Float64.thy ===== *)
theory Float64
  imports Complex_Main "HOL-Library.Log_Nat"
begin

text \<open>
  The doubles of the source (\<open>f64\<close>): a finite value is a rational number, each operation is the exact
  one rounded to 53 significant bits, to nearest and ties to even, as IEEE 754 has it. The sign of
  zero is left out: nothing in the source tells the two zeros apart.
\<close>

section \<open>Rounding\<close>

datatype f64 = Fin rat | PosInf | NegInf | NaN

definition pow2 :: "int \<Rightarrow> rat" where
  "pow2 e = (if 0 \<le> e then 2 ^ nat e else 1 / 2 ^ nat (- e))"

definition log2_floor :: "rat \<Rightarrow> int" where
  "log2_floor q = (case quotient_of q of (n, d) \<Rightarrow>
     let k = bitlen n - bitlen d in if pow2 k \<le> q then k else k - 1)"

definition round_even :: "rat \<Rightarrow> int" where
  "round_even q = (let f = \<lfloor>q\<rfloor>; d = q - of_int f in
     if d < 1 / 2 \<or> (d = 1 / 2 \<and> even f) then f else f + 1)"

text \<open>The weight of the last bit of a value's mantissa, that of a subnormal at least.\<close>

definition last_bit :: "rat \<Rightarrow> int" where
  "last_bit q = max (log2_floor q - 52) (- 1074)"

definition round_positive :: "rat \<Rightarrow> rat" where
  "round_positive q = (if q = 0 then 0 else of_int (round_even (q / pow2 (last_bit q))) * pow2 (last_bit q))"

definition f64_round :: "rat \<Rightarrow> f64" where
  "f64_round q = (let r = round_positive \<bar>q\<bar> in
     if pow2 1024 \<le> r then (if 0 < q then PosInf else NegInf) else Fin (if q < 0 then - r else r))"

section \<open>Operations\<close>

definition f64_of_nat :: "nat \<Rightarrow> f64" where
  "f64_of_nat n = f64_round (of_nat n)"

fun f64_div :: "f64 \<Rightarrow> f64 \<Rightarrow> f64" where
  "f64_div (Fin x) (Fin y) =
     (if y = 0 then (if x = 0 then NaN else if 0 < x then PosInf else NegInf) else f64_round (x / y))"
| "f64_div (Fin x) NaN = NaN"
| "f64_div (Fin x) _ = Fin 0"
| "f64_div PosInf (Fin y) = (if 0 \<le> y then PosInf else NegInf)"
| "f64_div NegInf (Fin y) = (if 0 \<le> y then NegInf else PosInf)"
| "f64_div _ _ = NaN"

fun f64_le :: "f64 \<Rightarrow> f64 \<Rightarrow> bool" where
  "f64_le NaN _ = False"
| "f64_le _ NaN = False"
| "f64_le NegInf _ = True"
| "f64_le _ PosInf = True"
| "f64_le (Fin x) (Fin y) = (x \<le> y)"
| "f64_le _ _ = False"

section \<open>Rounding keeps the order\<close>

lemma pow2_pos [simp]: "0 < pow2 e"
  by (simp add: pow2_def)

lemma pow2_nonzero: "pow2 e \<noteq> 0"
  by (simp add: pow2_def)

lemma pow2_add1: "pow2 (e + 1) = 2 * pow2 e"
proof (cases "0 \<le> e")
  case True
  then show ?thesis by (simp add: pow2_def nat_add_distrib)
next
  case False
  then have "nat (- e) = Suc (nat (- (e + 1)))" by simp
  with False show ?thesis by (simp add: pow2_def)
qed

lemma pow2_add: "pow2 (e + int n) = pow2 e * 2 ^ n"
proof (induction n)
  case (Suc n)
  have "e + int (Suc n) = (e + int n) + 1" by simp
  with Suc show ?case by (simp only: pow2_add1 power_Suc)
qed simp

lemma pow2_nat: "0 \<le> e \<Longrightarrow> pow2 e = 2 ^ nat e"
  by (simp add: pow2_def)

lemma pow2_mono: "e \<le> e' \<Longrightarrow> pow2 e \<le> pow2 e'"
  using pow2_add [of e "nat (e' - e)"] by simp

lemma pow2_diff: "0 \<le> b \<Longrightarrow> pow2 (a - b) = pow2 a / 2 ^ nat b"
  using pow2_add [of "a - b" "nat b"] by simp

lemma log2_floor_bounds:
  assumes "0 < q"
  shows "pow2 (log2_floor q) \<le> q" "q < pow2 (log2_floor q + 1)"
proof -
  obtain n d where nd: "quotient_of q = (n, d)" by fastforce
  then have q: "q = of_int n / of_int d" and d: "0 < d"
    by (rule quotient_of_div, rule quotient_of_denom_pos)
  from q d assms have n: "0 < n" by (simp add: zero_less_divide_iff)
  let ?k = "bitlen n - bitlen d"
  have len: "0 < bitlen n" "0 < bitlen d"
    using n d bitlen_nonneg [of n] bitlen_nonneg [of d] bitlen_eq_zero_iff [of n] bitlen_eq_zero_iff [of d] by auto
  from bitlen_bounds [OF n] bitlen_bounds [OF d]
  have b: "2 ^ nat (bitlen n - 1) \<le> n" "n < 2 ^ nat (bitlen n)" "2 ^ nat (bitlen d - 1) \<le> d" "d < 2 ^ nat (bitlen d)"
    by simp_all
  then have r: "2 ^ nat (bitlen n - 1) \<le> (of_int n :: rat)" "(of_int n :: rat) < 2 ^ nat (bitlen n)"
    "2 ^ nat (bitlen d - 1) \<le> (of_int d :: rat)" "(of_int d :: rat) < 2 ^ nat (bitlen d)"
    by (simp_all flip: of_int_le_iff of_int_less_iff)
  have "pow2 (?k - 1) = pow2 (bitlen n - 1) / 2 ^ nat (bitlen d)"
    using pow2_diff [of "bitlen d" "bitlen n - 1"] len by (simp add: algebra_simps)
  also have "\<dots> \<le> q"
    unfolding q using r(1,4) len d n by (intro frac_le) (simp_all add: pow2_nat)
  finally have low: "pow2 (?k - 1) \<le> q" .
  have "q < pow2 (bitlen n) / 2 ^ nat (bitlen d - 1)"
    unfolding q using r(2,3) len d n by (intro frac_less) (simp_all add: pow2_nat)
  also have "\<dots> = pow2 (?k + 1)"
    using pow2_diff [of "bitlen d - 1" "bitlen n"] len by (simp add: algebra_simps)
  finally have high: "q < pow2 (?k + 1)" .
  show "pow2 (log2_floor q) \<le> q" "q < pow2 (log2_floor q + 1)"
    using low high by (auto simp: log2_floor_def nd Let_def)
qed

lemma round_even_ge: "of_int n \<le> q \<Longrightarrow> n \<le> round_even q"
  using le_floor_iff [of n q] by (auto simp: round_even_def Let_def)

lemma round_even_le:
  assumes "q \<le> of_int n"
  shows "round_even q \<le> n"
proof (cases "q = of_int n")
  case False
  with assms have "\<lfloor>q\<rfloor> < n" by (simp add: floor_less_iff)
  then show ?thesis by (auto simp: round_even_def Let_def)
qed (simp add: round_even_def)

lemma round_even_mono:
  assumes "q \<le> q'"
  shows "round_even q \<le> round_even q'"
proof (cases "\<lfloor>q\<rfloor> = \<lfloor>q'\<rfloor>")
  case True
  with assms show ?thesis by (auto simp: round_even_def Let_def)
next
  case False
  with floor_mono [OF assms] have lt: "\<lfloor>q\<rfloor> + 1 \<le> \<lfloor>q'\<rfloor>" by simp
  have "round_even q \<le> \<lfloor>q\<rfloor> + 1" by (auto simp: round_even_def Let_def)
  moreover have "\<lfloor>q'\<rfloor> \<le> round_even q'" by (auto simp: round_even_def Let_def)
  ultimately show ?thesis using lt by simp
qed

lemma last_bit_le:
  assumes "0 < q"
  shows "q < pow2 (last_bit q + 53)"
proof -
  have "log2_floor q + 1 \<le> last_bit q + 53" by (simp add: last_bit_def max_def)
  from pow2_mono [OF this] log2_floor_bounds(2) [OF assms] show ?thesis by simp
qed

lemma log2_floor_mono:
  assumes "0 < q" "q \<le> q'"
  shows "log2_floor q \<le> log2_floor q'"
proof (rule ccontr)
  assume "\<not> ?thesis"
  then have "pow2 (log2_floor q' + 1) \<le> pow2 (log2_floor q)" by (intro pow2_mono) simp
  with log2_floor_bounds [of q] log2_floor_bounds [of q'] assms show False by simp
qed

text \<open>
  A larger number rounds to a value at least as large: on one grid by the order of the nearest
  integers, and across grids by the power of two between them.
\<close>

lemma round_positive_mono:
  assumes "0 \<le> q" "q \<le> q'"
  shows "round_positive q \<le> round_positive q'"
proof (cases "q = 0")
  case True
  have "0 \<le> round_even (q' / pow2 (last_bit q'))"
    using assms by (intro round_even_ge) (simp add: less_imp_le)
  with True show ?thesis by (simp add: round_positive_def zero_le_mult_iff less_imp_le)
next
  case False
  with assms have pos: "0 < q" "0 < q'" by simp_all
  let ?e = "last_bit q" and ?e' = "last_bit q'"
  have le: "?e \<le> ?e'" using log2_floor_mono [OF pos(1) assms(2)] by (simp add: last_bit_def)
  show ?thesis
  proof (cases "?e = ?e'")
    case True
    have "round_even (q / pow2 ?e) \<le> round_even (q' / pow2 ?e)"
      using assms by (intro round_even_mono divide_right_mono) (simp_all add: less_imp_le)
    with True pos show ?thesis by (simp add: round_positive_def)
  next
    case False
    with le have lt: "?e + 1 \<le> ?e'" by simp
    have "q / pow2 ?e \<le> of_int (2 ^ 53)"
      using last_bit_le [OF pos(1)] pow2_add [of ?e 53] by (simp add: divide_le_eq mult.commute)
    from round_even_le [OF this] have "round_positive q \<le> of_int (2 ^ 53) * pow2 ?e"
      unfolding round_positive_def using pos by (simp add: mult_right_mono less_imp_le)
    also have "\<dots> = pow2 (?e + 53)" using pow2_add [of ?e 53] by simp
    also have "\<dots> \<le> pow2 (?e' + 52)" using lt by (intro pow2_mono) simp
    also have "\<dots> = of_int (2 ^ 52) * pow2 ?e'" using pow2_add [of ?e' 52] by simp
    also have "\<dots> \<le> round_positive q'"
    proof -
      from False le have "?e' = log2_floor q' - 52" by (auto simp: last_bit_def split: if_splits)
      with log2_floor_bounds(1) [OF pos(2)] have "pow2 (?e' + 52) \<le> q'" by simp
      then have "of_int (2 ^ 52) \<le> q' / pow2 ?e'"
        using pow2_add [of ?e' 52] by (simp add: le_divide_eq mult.commute)
      from round_even_ge [OF this] show ?thesis
        unfolding round_positive_def using pos by (simp add: mult_right_mono less_imp_le)
    qed
    finally show ?thesis .
  qed
qed

lemma f64_round_mono:
  assumes "0 \<le> q" "q \<le> q'"
  shows "f64_le (f64_round q) (f64_round q')"
  using round_positive_mono [OF assms] assms by (auto simp: f64_round_def Let_def)

section \<open>Exact values\<close>

lemma log2_floor_unique:
  assumes "pow2 e \<le> q" "q < pow2 (e + 1)"
  shows "log2_floor q = e"
proof -
  from assms(1) have q: "0 < q" using pow2_pos [of e] by linarith
  note b = log2_floor_bounds [OF q]
  have "\<not> e + 1 \<le> log2_floor q" using pow2_mono [of "e + 1" "log2_floor q"] b(1) assms(2) by linarith
  moreover have "\<not> log2_floor q + 1 \<le> e" using pow2_mono [of "log2_floor q + 1" e] b(2) assms(1) by linarith
  ultimately show ?thesis by simp
qed

lemma round_even_int [simp]: "round_even (of_int n) = n"
  by (simp add: round_even_def)

lemma f64_round_exact:
  assumes "0 < q" "q / pow2 (last_bit q) = of_int n" "q < pow2 1024"
  shows "f64_round q = Fin q"
proof -
  have "round_positive q = q"
    using assms(1) nonzero_eq_divide_eq [of "pow2 (last_bit q)" "of_int n" q]
    by (simp add: round_positive_def assms(2) pow2_nonzero)
  with assms(1,3) show ?thesis by (simp add: f64_round_def)
qed

lemma f64_round_pow2:
  assumes "- 1022 \<le> e" "e < 1024"
  shows "f64_round (pow2 e) = Fin (pow2 e)"
proof (rule f64_round_exact)
  have "log2_floor (pow2 e) = e" by (rule log2_floor_unique) (simp_all add: pow2_add1)
  with assms(1) have l: "last_bit (pow2 e) = e - 52" by (simp add: last_bit_def)
  show "pow2 e / pow2 (last_bit (pow2 e)) = of_int (2 ^ 52)"
    using pow2_add [of "e - 52" 52] unfolding l by (simp add: divide_eq_eq pow2_nonzero)
  from assms(2) have "pow2 (e + 1) \<le> pow2 1024" by (intro pow2_mono) simp
  with pow2_pos [of e] pow2_add1 [of e] show "pow2 e < pow2 1024" by linarith
qed simp

lemma f64_of_nat_exact:
  assumes "n < 2 ^ 53"
  shows "f64_of_nat n = Fin (of_nat n)"
proof (cases "n = 0")
  case True
  then show ?thesis by (simp add: f64_of_nat_def f64_round_def round_positive_def not_le)
next
  case False
  let ?q = "of_nat n :: rat"
  from False have q: "0 < ?q" by simp
  have big: "?q < pow2 53"
    using assms of_nat_less_iff [of n "2 ^ 53", where 'a = rat] by (simp add: pow2_nat)
  have "\<not> 53 \<le> log2_floor ?q"
    using pow2_mono [of 53 "log2_floor ?q"] log2_floor_bounds(1) [OF q] big by linarith
  then have l: "last_bit ?q \<le> 0" by (simp add: last_bit_def)
  show ?thesis
    unfolding f64_of_nat_def
  proof (rule f64_round_exact [OF q])
    have "pow2 (last_bit ?q) = 1 / 2 ^ nat (- last_bit ?q)"
      using l by (cases "last_bit ?q = 0") (simp_all add: pow2_def)
    then show "?q / pow2 (last_bit ?q) = of_int (int n * 2 ^ nat (- last_bit ?q))" by simp
    from pow2_mono [of 53 1024] big show "?q < pow2 1024" by simp
  qed
qed

section \<open>Products and casts\<close>

fun f64_mul :: "f64 \<Rightarrow> f64 \<Rightarrow> f64" where
  "f64_mul (Fin x) (Fin y) = f64_round (x * y)"
| "f64_mul NaN _ = NaN"
| "f64_mul _ NaN = NaN"
| "f64_mul (Fin x) PosInf = (if x = 0 then NaN else if 0 < x then PosInf else NegInf)"
| "f64_mul (Fin x) NegInf = (if x = 0 then NaN else if 0 < x then NegInf else PosInf)"
| "f64_mul PosInf (Fin y) = (if y = 0 then NaN else if 0 < y then PosInf else NegInf)"
| "f64_mul NegInf (Fin y) = (if y = 0 then NaN else if 0 < y then NegInf else PosInf)"
| "f64_mul PosInf PosInf = PosInf"
| "f64_mul NegInf NegInf = PosInf"
| "f64_mul _ _ = NegInf"

text \<open>The cast \<open>x as uN\<close>, where \<open>highest\<close> is the largest \<open>uN\<close>: it drops the fraction and saturates.\<close>

fun f64_as_unsigned :: "nat \<Rightarrow> f64 \<Rightarrow> nat" where
  "f64_as_unsigned highest (Fin q) = (if q \<le> 0 then 0 else min highest (nat \<lfloor>q\<rfloor>))"
| "f64_as_unsigned highest PosInf = highest"
| "f64_as_unsigned highest NegInf = 0"
| "f64_as_unsigned highest NaN = 0"

lemma f64_as_unsigned_le: "f64_as_unsigned highest x \<le> highest"
  by (cases x) simp_all

end
