(* ===== verification/Outside.thy ===== *)
theory Outside
  imports Agreement Float64
begin

text \<open>
  The traits and values through which the services reach what lies outside: the chain
  (\<open>chain_client.rs\<close>), the indexers (\<open>indexer_rpc_client.rs\<close> and their status endpoint) and the
  indexer selection service (\<open>dipper-iisa/src/api.rs\<close>). What they answer is up to them: a world holds
  an answer for every call.
\<close>

section \<open>The chain\<close>

type_synonym b256 = "256 word"

datatype chain_client_error =
    SubmitFailed
  | ConfigError
  | MissingTermsVersionHash
  | CancelNotConfirmed
  | RpcError
  | TxDropped b256 bool
  | TxReverted b256
  | ContractRevert "u8 list"

datatype agreement_on_chain = Live | EndedByIndexer | NotLive

text \<open>\<open>RecurringCollectionAgreement\<close>; its ABI-encoded metadata is kept as the values encoded.\<close>

record sol_rca =
  rca_deadline :: u64
  rca_ends_at :: u64
  rca_payer :: address
  rca_data_service :: address
  rca_service_provider :: address
  rca_max_initial_tokens :: u256
  rca_max_ongoing_tokens_per_second :: u256
  rca_min_seconds_per_collection :: u32
  rca_max_seconds_per_collection :: u32
  rca_conditions :: u16
  rca_nonce :: u256
  rca_metadata :: "deployment_id \<times> u8 \<times> u256 \<times> u256"

text \<open>The trait \<open>ChainClient\<close>, as it answers at one time.\<close>

record chain_client =
  cc_offer_via_manager :: "sol_rca \<Rightarrow> chain_client_error + b256 option"
  cc_cancel_via_manager :: "address \<Rightarrow> agreement_id \<Rightarrow> b256 \<Rightarrow> u16 \<Rightarrow> chain_client_error + b256 option"
  cc_agreement_on_chain :: "agreement_id \<Rightarrow> chain_client_error + agreement_on_chain"
  cc_latest_block_timestamp :: "chain_client_error + u64"

datatype chain_tx = Offer sol_rca | Cancel agreement_id b256 u16

section \<open>The indexers\<close>

datatype proposal_outcome = Accepted | RejectedFor int

text \<open>
  The trait \<open>IndexerClient\<close>: the response's outcome, which may be missing, or no response.
\<close>

type_synonym indexer_client = "string \<Rightarrow> agreement_id \<Rightarrow> agreement_terms \<Rightarrow> uuid \<Rightarrow>
    proposal_outcome option option"

text \<open>The values of \<open>serde_json\<close>; a number is an unsigned or negative integer, or else a fraction.\<close>

datatype json =
    JNull
  | JBool bool
  | JInt int
  | JFraction rat
  | JString string
  | JArray "json list"
  | JObject "(string \<times> json) list"

section \<open>The selection service\<close>

record price_ceilings =
  pl_max_grt_per_30_days :: "f64 option"
  pl_max_grt_per_billion_entities_per_30_days :: "f64 option"

record selected_indexer =
  se_id :: indexer_id
  se_min_grt_per_30_days :: "f64 option"
  se_min_grt_per_billion_entities_per_30_days :: "f64 option"

record selection_context =
  sx_existing_indexers :: "indexer_id list"
  sx_pending_agreements :: "deployment_id \<Rightarrow> indexer_id list option"
  sx_indexer_denylist :: "indexer_id list"
  sx_declined_indexers :: "deployment_id \<Rightarrow> indexer_id list option"
  sx_chain_id :: "string option"
  sx_max_grt_per_30_days :: "f64 option"
  sx_max_grt_per_billion_entities_per_30_days :: "f64 option"
  sx_optimistic_dips_fees :: "indexer_id \<Rightarrow> f64 option"

record dips_accepting_snapshot =
  ds_computed_at :: "string option"
  ds_indexers :: "indexer_id list"

datatype selection_error = IisaServiceUnavailable | IisaRejected u16 | SelectionFailed

end
