(* ===== verification/Registry.thy ===== *)
theory Registry
  imports Agreement
begin

text \<open>
  \<open>dipper-pgregistry/src/postgres.rs\<close>: the tables of the registry and every statement that
  writes to them. A write is a transaction: it takes the registry and either fails, leaving it as
  it was (Postgres rolls back, and so does a transaction dropped on an early return), or returns a
  value and the new registry.

  The constraints are those of the migrations: the primary keys, one \<open>Created\<close> or
  \<open>AcceptedOnChain\<close> agreement per indexer and deployment (the partial unique index
  \<open>idx_unique_active_agreement_per_indexer_deployment\<close>), one \<open>Open\<close> request per requester,
  deployment and chain (\<open>uniq_open_indexing_requests\<close>), the foreign keys, the checks on
  \<open>num_candidates\<close> and \<open>missing_secs\<close>, and the index on the deadline of \<open>Created\<close> agreements,
  whose cast to \<open>bigint\<close> refuses a deadline of \<open>2 ^ 63\<close> or more. Failures of the connection
  itself are not part of this theory: the services that handle them model them.
\<close>

section \<open>Tables, errors and transactions\<close>

record denylist_row =
  dl_indexer_id :: indexer_id
  dl_expires_at :: "timestamp option"

record dips_missing_row =
  dm_indexer_id :: indexer_id
  dm_missing_secs :: int
  dm_updated_at :: timestamp
  dm_blocked_until :: "timestamp option"

record listener_row =
  ls_chain_id :: int
  ls_last_processed_block :: int
  ls_last_processed_id :: "agreement_id option"
  ls_last_processed_block_timestamp :: "int option"
  ls_updated_at :: timestamp

record pending_row =
  pc_new_agreement_id :: agreement_id
  pc_old_agreement_id :: agreement_id

record registry =
  agreements :: "agreement_row list"
  requests :: "request_row list"
  pending_cancellations :: "pending_row list"
  denylist :: "denylist_row list"
  dips_info_missing :: "dips_missing_row list"
  listener_states :: "listener_row list"

datatype db_error =
    UniqueViolation
  | ForeignKeyViolation
  | CheckViolation
  | CardinalityViolation
  | NumericOutOfRange
  | NegativeLimit

datatype error = NoRecordsUpdated | DbError db_error

type_synonym 'a tx = "registry \<Rightarrow> error + 'a \<times> registry"

definition tx_bind :: "'a tx \<Rightarrow> ('a \<Rightarrow> 'b tx) \<Rightarrow> 'b tx" where
  "tx_bind m k db = (case m db of Inl e \<Rightarrow> Inl e | Inr (a, db') \<Rightarrow> k a db')"

text \<open>Running a transaction: a failed one leaves the registry as it was.\<close>

definition run_tx :: "'a tx \<Rightarrow> registry \<Rightarrow> (error + 'a) \<times> registry" where
  "run_tx m db = (case m db of Inl e \<Rightarrow> (Inl e, db) | Inr (a, db') \<Rightarrow> (Inr a, db'))"

definition active :: "agreement_row \<Rightarrow> bool" where
  "active r \<longleftrightarrow> a_status r \<in> {Created, AcceptedOnChain}"

definition slot :: "agreement_row \<Rightarrow> indexer_id \<times> deployment_id" where
  "slot r = (a_indexer_id r, a_deployment_id r)"

definition unique_active :: "agreement_row list \<Rightarrow> bool" where
  "unique_active t \<longleftrightarrow> distinct (map slot (filter active t))"

definition request_key :: "request_row \<Rightarrow> address \<times> deployment_id \<times> chain_id" where
  "request_key r = (r_requested_by r, r_deployment_id r, r_deployment_chain_id r)"

definition unique_open :: "request_row list \<Rightarrow> bool" where
  "unique_open t \<longleftrightarrow> distinct (map request_key (filter (\<lambda>r. r_status r = Open) t))"

text \<open>
  An \<open>UPDATE\<close> of the agreements table. One that sets the status can break the unique index on
  active agreements; the others leave every indexed column of a constraint alone.
\<close>

definition update_status :: "(agreement_row \<Rightarrow> bool) \<Rightarrow> (agreement_row \<Rightarrow> agreement_row) \<Rightarrow>
    agreement_row list tx" where
  "update_status P f db =
     (let t = sql_update P f (agreements db) in
      if unique_active t then Inr (sql_returning P f (agreements db), db\<lparr>agreements := t\<rparr>)
      else Inl (DbError UniqueViolation))"

definition update_columns :: "(agreement_row \<Rightarrow> bool) \<Rightarrow> (agreement_row \<Rightarrow> agreement_row) \<Rightarrow>
    agreement_row list tx" where
  "update_columns P f db =
     Inr (sql_returning P f (agreements db),
          db\<lparr>agreements := sql_update P f (agreements db)\<rparr>)"

text \<open>\<open>Err(NoRecordsUpdated)\<close> when the statement matched no row.\<close>

definition some_row :: "agreement_row list tx \<Rightarrow> agreement_row tx" where
  "some_row m = tx_bind m (\<lambda>rows db.
     case rows of [] \<Rightarrow> Inl NoRecordsUpdated | r # _ \<Rightarrow> Inr (r, db))"

definition any_row :: "agreement_row list tx \<Rightarrow> unit tx" where
  "any_row m = tx_bind (some_row m) (\<lambda>_ db. Inr ((), db))"

definition ignore_rows :: "agreement_row list tx \<Rightarrow> unit tx" where
  "ignore_rows m = tx_bind m (\<lambda>_ db. Inr ((), db))"

section \<open>Indexing requests\<close>

definition set_indexing_target_candidates :: "timestamp \<Rightarrow> request_id \<Rightarrow> address \<Rightarrow> deployment_id \<Rightarrow>
    chain_id \<Rightarrow> int \<Rightarrow> set_target_outcome tx" where
  "set_indexing_target_candidates now new_id requested_by deployment chain n db =
     (case List.find (\<lambda>r. request_key r = (requested_by, deployment, chain) \<and> r_status r = Open)
            (requests db) of
        None \<Rightarrow>
          if n = 0 then Inr (NoOpAlreadyEmpty, db)
          else if n < 0 then Inl (DbError CheckViolation)
          else if new_id \<in> r_id ` set (requests db) then Inl (DbError UniqueViolation)
          else Inr (Inserted new_id, db\<lparr>requests := requests db @
            [\<lparr>r_id = new_id, r_created_at = now, r_updated_at = now, r_status = Open,
              r_requested_by = requested_by, r_deployment_id = deployment,
              r_deployment_chain_id = chain, r_num_candidates = n,
              r_shortfall_active = False\<rparr>]\<rparr>)
      | Some row \<Rightarrow>
          if r_num_candidates row = n then Inr (NoOp (r_id row), db)
          else if n = 0 then Inr (TargetCanceled (r_id row), db\<lparr>requests :=
            sql_update (\<lambda>r. r_id r = r_id row)
              (\<lambda>r. r\<lparr>r_status := Canceled, r_updated_at := now\<rparr>) (requests db)\<rparr>)
          else if n < 0 then Inl (DbError CheckViolation)
          else Inr (Updated (r_id row) n, db\<lparr>requests :=
            sql_update (\<lambda>r. r_id r = r_id row)
              (\<lambda>r. r\<lparr>r_num_candidates := n, r_updated_at := now\<rparr>) (requests db)\<rparr>))"

definition set_indexing_request_shortfall_active :: "request_id \<Rightarrow> bool \<Rightarrow> bool tx" where
  "set_indexing_request_shortfall_active i act db =
     (let P = (\<lambda>r. r_id r = i \<and> r_shortfall_active r \<noteq> act) in
      Inr (filter P (requests db) \<noteq> [],
           db\<lparr>requests := sql_update P (\<lambda>r. r\<lparr>r_shortfall_active := act\<rparr>) (requests db)\<rparr>))"

section \<open>Registering agreements\<close>

definition new_agreement_row :: "timestamp \<Rightarrow> new_agreement_params \<Rightarrow> agreement_row" where
  "new_agreement_row now p = \<lparr>
     a_id = na_agreement_id p,
     a_nonce_uuid = na_nonce_uuid p,
     a_created_at = now,
     a_updated_at = now,
     a_status = Created,
     a_request_id = na_request_id p,
     a_deployment_id = na_deployment_id p,
     a_indexer_id = na_indexer_id p,
     a_indexer_url = na_indexer_url p,
     a_terms = na_terms p,
     a_terms_version_hash = na_terms_version_hash p,
     a_last_block_height = None,
     a_last_progress_at = None,
     a_rejection_reason = None,
     a_offer_tx_hash = None,
     a_accepted_at = None,
     a_accepted_tx = None,
     a_canceled_at = None,
     a_canceled_by = None,
     a_canceled_tx = None,
     a_accepted_event_emitted_at = None,
     a_terminated_event_emitted_at = None,
     a_expired_event_emitted_at = None,
     a_cancel_attempts = 0,
     a_cancel_checked_at = None,
     a_ended_seen_at = None,
     a_abandoned = False,
     a_replacement_pending = False\<rparr>"

definition register_new_indexing_agreement :: "timestamp \<Rightarrow> new_agreement_params \<Rightarrow>
    agreement_id tx" where
  "register_new_indexing_agreement now p db =
     (if na_agreement_id p \<in> a_id ` set (agreements db) then Inl (DbError UniqueViolation)
      else if \<not> unique_active (agreements db @ [new_agreement_row now p])
        then Inl (DbError UniqueViolation)
      else if uint (t_deadline (na_terms p)) > i64_max then Inl (DbError NumericOutOfRange)
      else if na_request_id p \<notin> r_id ` set (requests db) then Inl (DbError ForeignKeyViolation)
      else Inr (na_agreement_id p,
        db\<lparr>agreements := agreements db @ [new_agreement_row now p]\<rparr>))"

definition insert_pending_cancellation :: "agreement_id \<Rightarrow> agreement_id \<Rightarrow> unit tx" where
  "insert_pending_cancellation new_id old_id db =
     (let row = \<lparr>pc_new_agreement_id = new_id, pc_old_agreement_id = old_id\<rparr> in
      if row \<in> set (pending_cancellations db) then Inr ((), db)
      else if {new_id, old_id} \<subseteq> a_id ` set (agreements db)
        then Inr ((), db\<lparr>pending_cancellations := pending_cancellations db @ [row]\<rparr>)
      else Inl (DbError ForeignKeyViolation))"

definition register_agreement_with_pending_cancellation :: "timestamp \<Rightarrow> new_agreement_params \<Rightarrow>
    agreement_id \<Rightarrow> agreement_id tx" where
  "register_agreement_with_pending_cancellation now p old_id =
     tx_bind (register_new_indexing_agreement now p) (\<lambda>new_id.
     tx_bind (insert_pending_cancellation new_id old_id) (\<lambda>_ db. Inr (new_id, db)))"

definition delete_pending_cancellations_by_new_agreement :: "agreement_id \<Rightarrow> unit tx" where
  "delete_pending_cancellations_by_new_agreement new_id db =
     Inr ((), db\<lparr>pending_cancellations :=
       filter (\<lambda>p. pc_new_agreement_id p \<noteq> new_id) (pending_cancellations db)\<rparr>)"

definition delete_pending_cancellation :: "agreement_id \<Rightarrow> agreement_id \<Rightarrow> unit tx" where
  "delete_pending_cancellation new_id old_id db =
     Inr ((), db\<lparr>pending_cancellations :=
       filter (\<lambda>p. \<not> (pc_new_agreement_id p = new_id \<and> pc_old_agreement_id p = old_id))
         (pending_cancellations db)\<rparr>)"

section \<open>Status changes\<close>

definition batch_set_status :: "timestamp \<Rightarrow> agreement_id list \<Rightarrow> (agreement_row \<Rightarrow> agreement_status) \<Rightarrow>
    agreement_status list \<Rightarrow> agreement_id list tx" where
  "batch_set_status now ids new_status allowed_from =
     (if ids = [] then (\<lambda>db. Inr ([], db))
      else tx_bind
        (update_status (\<lambda>r. a_id r \<in> set ids \<and> a_status r \<in> set allowed_from)
           (\<lambda>r. r\<lparr>a_status := new_status r, a_updated_at := now\<rparr>))
        (\<lambda>rows db. Inr (map a_id rows, db)))"

definition batch_update_status_from :: "timestamp \<Rightarrow> agreement_id list \<Rightarrow> agreement_status \<Rightarrow>
    agreement_status list \<Rightarrow> agreement_id list tx" where
  "batch_update_status_from now ids new_status = batch_set_status now ids (\<lambda>_. new_status)"

definition update_status_from :: "timestamp \<Rightarrow> agreement_id \<Rightarrow> agreement_status \<Rightarrow>
    agreement_status list \<Rightarrow> bool tx" where
  "update_status_from now i new_status allowed_from =
     tx_bind (batch_update_status_from now [i] new_status allowed_from)
       (\<lambda>ids db. Inr (ids \<noteq> [], db))"

definition set_status_from :: "timestamp \<Rightarrow> agreement_id \<Rightarrow> agreement_status \<Rightarrow>
    agreement_status list \<Rightarrow> unit tx" where
  "set_status_from now i new_status allowed_from =
     tx_bind (update_status_from now i new_status allowed_from)
       (\<lambda>updated db. if updated then Inr ((), db) else Inl NoRecordsUpdated)"

definition CANCEL_BY_REQUESTER_FROM :: "agreement_status list" where
  "CANCEL_BY_REQUESTER_FROM = [Created, AcceptedOnChain, Rejected, Cancelling]"

definition CANCEL_BY_INDEXER_FROM :: "agreement_status list" where
  "CANCEL_BY_INDEXER_FROM = [AcceptedOnChain, Cancelling]"

definition ACCEPT_FROM :: "agreement_status list" where
  "ACCEPT_FROM = [Created, Expired]"

definition mark_indexing_agreement_as_unresponsive :: "timestamp \<Rightarrow> agreement_id \<Rightarrow> unit tx" where
  "mark_indexing_agreement_as_unresponsive now i =
     any_row (update_status (\<lambda>r. a_id r = i \<and> a_status r = Created)
       (\<lambda>r. r\<lparr>a_status := Unresponsive, a_updated_at := now\<rparr>))"

definition update_offer_tx_hash :: "timestamp \<Rightarrow> agreement_id \<Rightarrow> u8 list \<Rightarrow> unit tx" where
  "update_offer_tx_hash now i tx_hash =
     any_row (update_columns
       (\<lambda>r. a_id r = i \<and> a_status r \<in> {Created, AcceptedOnChain, Cancelling})
       (\<lambda>r. r\<lparr>a_offer_tx_hash := Some tx_hash,
              a_updated_at := (if a_status r = Cancelling then a_updated_at r else now)\<rparr>))"

definition mark_indexing_agreement_as_canceled_by_requester :: "timestamp \<Rightarrow> agreement_id \<Rightarrow>
    unit tx" where
  "mark_indexing_agreement_as_canceled_by_requester now i =
     set_status_from now i CanceledByRequester CANCEL_BY_REQUESTER_FROM"

definition mark_indexing_agreement_as_abandoned_by_indexer :: "timestamp \<Rightarrow> agreement_id \<Rightarrow>
    unit tx" where
  "mark_indexing_agreement_as_abandoned_by_indexer now i =
     set_status_from now i AbandonedByIndexer [Cancelling]"

definition mark_indexing_agreement_as_cancelling :: "timestamp \<Rightarrow> agreement_id \<Rightarrow> unit tx" where
  "mark_indexing_agreement_as_cancelling now i =
     set_status_from now i Cancelling [Created, AcceptedOnChain, Rejected, Expired]"

definition mark_indexing_agreement_as_abandoning :: "timestamp \<Rightarrow> agreement_id \<Rightarrow> unit tx" where
  "mark_indexing_agreement_as_abandoning now i =
     any_row (update_status (\<lambda>r. a_id r = i \<and> a_status r = AcceptedOnChain)
       (\<lambda>r. r\<lparr>a_status := Cancelling, a_abandoned := True, a_replacement_pending := True,
              a_updated_at := now\<rparr>))"

definition mark_indexing_agreement_as_expired :: "timestamp \<Rightarrow> agreement_id \<Rightarrow> unit tx" where
  "mark_indexing_agreement_as_expired now i =
     any_row (update_status (\<lambda>r. a_id r = i \<and> a_status r = Created)
       (\<lambda>r. r\<lparr>a_status := Expired, a_updated_at := now\<rparr>))"

definition mark_indexing_agreement_as_rejected :: "timestamp \<Rightarrow> agreement_id \<Rightarrow> string option \<Rightarrow>
    unit tx" where
  "mark_indexing_agreement_as_rejected now i reason =
     any_row (update_status (\<lambda>r. a_id r = i \<and> a_status r = Created)
       (\<lambda>r. r\<lparr>a_status := Rejected, a_updated_at := now, a_rejection_reason := reason\<rparr>))"

section \<open>Ends and their corrections\<close>

record recorded_end =
  re_canceled_at :: "u64 option"
  re_canceled_by :: "string option"
  re_canceled_tx :: "string option"

record end_correction =
  ec_old :: recorded_end
  ec_new :: recorded_end

text \<open>\<open>u64::try_from(at).ok()\<close>: a negative time is dropped.\<close>

definition recorded_end_of :: "agreement_row \<Rightarrow> recorded_end" where
  "recorded_end_of r = \<lparr>
     re_canceled_at = Option.bind (a_canceled_at r) (\<lambda>t. if t < 0 then None else Some (as_u64 t)),
     re_canceled_by = a_canceled_by r,
     re_canceled_tx = a_canceled_tx r\<rparr>"

definition end_correction_of :: "agreement_row \<Rightarrow> agreement_row \<Rightarrow> end_correction option" where
  "end_correction_of old new =
     (if a_terminated_event_emitted_at old \<noteq> None \<and> a_terminated_event_emitted_at new = None
      then Some \<lparr>ec_old = recorded_end_of old, ec_new = recorded_end_of new\<rparr> else None)"

text \<open>
  The statements that may replace an end join the row as it was, read under its lock
  (\<open>... FOR UPDATE) AS before\<close>), and return both.
\<close>

definition update_returning_old :: "bool \<Rightarrow> (agreement_row \<Rightarrow> bool) \<Rightarrow>
    (agreement_row \<Rightarrow> agreement_row) \<Rightarrow> (agreement_row \<times> agreement_row) list tx" where
  "update_returning_old sets_status P f db =
     tx_bind ((if sets_status then update_status else update_columns) P f)
       (\<lambda>_ db'. Inr (map (\<lambda>r. (r, f r)) (filter P (agreements db)), db')) db"

definition reopen_indexing_agreement_cancel :: "timestamp \<Rightarrow> agreement_id \<Rightarrow> bool \<Rightarrow>
    end_correction option tx" where
  "reopen_indexing_agreement_cancel now i seen_live =
     tx_bind (update_returning_old True
       (\<lambda>r. a_id r = i \<and> a_status r \<in> {CanceledByRequester, Rejected})
       (\<lambda>r. r\<lparr>a_status := Cancelling,
              a_cancel_attempts := 0,
              a_cancel_checked_at := Some now,
              a_ended_seen_at := None,
              a_canceled_at := (if seen_live then None else a_canceled_at r),
              a_canceled_by := (if seen_live then None else a_canceled_by r),
              a_canceled_tx := (if seen_live then None else a_canceled_tx r),
              a_terminated_event_emitted_at :=
                (if seen_live then None else a_terminated_event_emitted_at r),
              a_updated_at := now\<rparr>))
     (\<lambda>rows db. case rows of
        [] \<Rightarrow> Inl NoRecordsUpdated
      | (old, new) # _ \<Rightarrow> Inr (end_correction_of old new, db))"

definition least_i32 :: "int \<Rightarrow> int" where
  "least_i32 n = min n i32_max"

definition record_cancel_check :: "timestamp \<Rightarrow> agreement_id \<Rightarrow> u32 \<Rightarrow> bool option \<Rightarrow> u32 tx" where
  "record_cancel_check now i failed_attempts ended =
     tx_bind (some_row (update_columns
       (\<lambda>r. a_id r = i \<and> a_status r = Cancelling)
       (\<lambda>r. r\<lparr>a_cancel_attempts := least_i32 (a_cancel_attempts r + uint failed_attempts),
              a_cancel_checked_at := Some now,
              a_ended_seen_at := (case ended of
                  None \<Rightarrow> a_ended_seen_at r
                | Some True \<Rightarrow> coalesce (a_ended_seen_at r) (Some now)
                | Some False \<Rightarrow> None)\<rparr>)))
     (\<lambda>r db. Inr ((if a_cancel_attempts r < 0 then 0 else word_of_int (a_cancel_attempts r)), db))"

definition record_accepted_audit :: "agreement_id \<Rightarrow> u64 \<Rightarrow> string \<Rightarrow> unit tx" where
  "record_accepted_audit i accepted_at accepted_tx =
     ignore_rows (update_columns (\<lambda>r. a_id r = i)
       (\<lambda>r. r\<lparr>a_accepted_at := coalesce (a_accepted_at r) (Some (as_i64 accepted_at)),
              a_accepted_tx := coalesce (a_accepted_tx r) (Some accepted_tx)\<rparr>))"

text \<open>
  \<open>replace_end\<close>: the new end is from the accept on, and either the end on record came before the
  accept or it has no transaction and the new one has. Unknown comparisons leave the old end.
\<close>

definition replace_end :: "int option \<Rightarrow> int \<Rightarrow> string option \<Rightarrow> agreement_row \<Rightarrow> bool" where
  "replace_end accepted at tx r \<longleftrightarrow>
     is_true (sql_and (sql_ge (Some at) accepted)
       (sql_or (sql_less (a_canceled_at r) accepted)
         (Some (a_canceled_tx r = None \<and> tx \<noteq> None))))"

definition write_end :: "int option \<Rightarrow> int \<Rightarrow> string \<Rightarrow> string option \<Rightarrow> agreement_row \<Rightarrow>
    agreement_row" where
  "write_end accepted at by_whom tx r =
     (if replace_end accepted at tx r
      then r\<lparr>a_canceled_at := Some at, a_canceled_by := Some by_whom, a_canceled_tx := tx,
             a_terminated_event_emitted_at := None\<rparr>
      else r\<lparr>a_canceled_at := coalesce (a_canceled_at r) (Some at),
             a_canceled_by := coalesce (a_canceled_by r) (Some by_whom),
             a_canceled_tx := coalesce (a_canceled_tx r) tx\<rparr>)"

definition correction_of_rows :: "(agreement_row \<times> agreement_row) list tx \<Rightarrow>
    end_correction option tx" where
  "correction_of_rows m = tx_bind m (\<lambda>rows db.
     Inr ((case rows of [] \<Rightarrow> None | (old, new) # _ \<Rightarrow> end_correction_of old new), db))"

definition record_cancel_audit :: "agreement_id \<Rightarrow> u64 \<Rightarrow> string \<Rightarrow> string option \<Rightarrow>
    end_correction option tx" where
  "record_cancel_audit i canceled_at canceled_by canceled_tx =
     correction_of_rows (update_returning_old False (\<lambda>r. a_id r = i)
       (\<lambda>r. write_end (a_accepted_at r) (as_i64 canceled_at) canceled_by canceled_tx r))"

definition record_accept_and_cancel_audit :: "agreement_id \<Rightarrow> u64 \<Rightarrow> string \<Rightarrow> u64 \<Rightarrow> string \<Rightarrow>
    string option \<Rightarrow> end_correction option tx" where
  "record_accept_and_cancel_audit i accepted_at accepted_tx canceled_at canceled_by canceled_tx =
     correction_of_rows (update_returning_old False (\<lambda>r. a_id r = i)
       (\<lambda>r. (write_end (coalesce (a_accepted_at r) (Some (as_i64 accepted_at)))
               (as_i64 canceled_at) canceled_by canceled_tx r)
            \<lparr>a_accepted_at := coalesce (a_accepted_at r) (Some (as_i64 accepted_at)),
             a_accepted_tx := coalesce (a_accepted_tx r) (Some accepted_tx)\<rparr>))"

section \<open>Reconciliation with the chain\<close>

datatype cancel_kind = ByRequester | ByIndexer

record reconciliation_outcome =
  did_accept :: bool
  did_cancel :: bool

record reconciliation_audit =
  au_accepted_at :: "u64 option"
  au_accepted_tx :: "string option"
  au_canceled_at :: "u64 option"
  au_canceled_by :: "string option"
  au_canceled_tx :: "string option"

record reconciliation_item =
  ri_agreement_id :: agreement_id
  ri_apply_accept :: bool
  ri_cancel :: "cancel_kind option"
  ri_audit :: reconciliation_audit

definition no_outcome :: reconciliation_outcome where
  "no_outcome = \<lparr>did_accept = False, did_cancel = False\<rparr>"

definition batch_apply_cancel :: "timestamp \<Rightarrow> agreement_id list \<Rightarrow> cancel_kind \<Rightarrow>
    agreement_id list tx" where
  "batch_apply_cancel now ids kind =
     (case kind of
        ByRequester \<Rightarrow> batch_set_status now ids
          (\<lambda>r. if a_abandoned r then AbandonedByIndexer else CanceledByRequester)
          CANCEL_BY_REQUESTER_FROM
      | ByIndexer \<Rightarrow> batch_update_status_from now ids CanceledByIndexer CANCEL_BY_INDEXER_FROM)"

definition apply_cancel :: "timestamp \<Rightarrow> agreement_id \<Rightarrow> cancel_kind \<Rightarrow> bool tx" where
  "apply_cancel now i kind = tx_bind (batch_apply_cancel now [i] kind) (\<lambda>ids db. Inr (ids \<noteq> [], db))"

definition apply_reconciliation :: "timestamp \<Rightarrow> agreement_id \<Rightarrow> bool \<Rightarrow> cancel_kind option \<Rightarrow>
    reconciliation_outcome tx" where
  "apply_reconciliation now i apply_accept cancel =
     tx_bind (if apply_accept then update_status_from now i AcceptedOnChain ACCEPT_FROM
              else (\<lambda>db. Inr (False, db)))
     (\<lambda>acc. case cancel of
        None \<Rightarrow> (\<lambda>db. Inr (\<lparr>did_accept = acc, did_cancel = False\<rparr>, db))
      | Some kind \<Rightarrow> tx_bind (apply_cancel now i kind) (\<lambda>can db.
          if acc \<and> \<not> can then Inl NoRecordsUpdated
          else Inr (\<lparr>did_accept = acc, did_cancel = can\<rparr>, db)))"

type_synonym outcomes = "agreement_id \<Rightarrow> reconciliation_outcome option"

fun apply_paired :: "timestamp \<Rightarrow> reconciliation_item list \<Rightarrow> outcomes \<Rightarrow> outcomes tx" where
  "apply_paired now [] outs db = Inr (outs, db)"
| "apply_paired now (item # items) outs db =
     (case ri_cancel item of
        None \<Rightarrow> apply_paired now items outs db
      | Some kind \<Rightarrow>
          tx_bind (update_status_from now (ri_agreement_id item) AcceptedOnChain ACCEPT_FROM) (\<lambda>acc.
          tx_bind (apply_cancel now (ri_agreement_id item) kind) (\<lambda>can.
            if acc \<and> \<not> can then (\<lambda>_. Inl NoRecordsUpdated)
            else apply_paired now items
              (outs(ri_agreement_id item \<mapsto> \<lparr>did_accept = acc, did_cancel = can\<rparr>)))) db)"

text \<open>\<open>outcomes.entry(id).or_default().did_accept = true\<close>, and the same for \<open>did_cancel\<close>.\<close>

definition note_accepts :: "agreement_id list \<Rightarrow> outcomes \<Rightarrow> outcomes" where
  "note_accepts ids outs = (\<lambda>i. if i \<in> set ids
     then Some ((case outs i of None \<Rightarrow> no_outcome | Some oc \<Rightarrow> oc)\<lparr>did_accept := True\<rparr>) else outs i)"

definition note_cancels :: "agreement_id list \<Rightarrow> outcomes \<Rightarrow> outcomes" where
  "note_cancels ids outs = (\<lambda>i. if i \<in> set ids
     then Some ((case outs i of None \<Rightarrow> no_outcome | Some oc \<Rightarrow> oc)\<lparr>did_cancel := True\<rparr>) else outs i)"

definition accept_audit_row :: "reconciliation_audit \<Rightarrow> agreement_row \<Rightarrow> agreement_row" where
  "accept_audit_row au r = r\<lparr>
     a_accepted_at := coalesce (map_option as_i64 (au_accepted_at au)) (a_accepted_at r),
     a_accepted_tx := coalesce (au_accepted_tx au) (a_accepted_tx r)\<rparr>"

definition persist_accept_audit :: "agreement_id \<Rightarrow> reconciliation_audit \<Rightarrow> unit tx" where
  "persist_accept_audit i au =
     (if au_accepted_at au = None \<and> au_accepted_tx au = None then (\<lambda>db. Inr ((), db))
      else ignore_rows (update_columns (\<lambda>r. a_id r = i) (accept_audit_row au)))"

definition cancel_audit_row :: "reconciliation_audit \<Rightarrow> agreement_row \<Rightarrow> agreement_row" where
  "cancel_audit_row au r = r\<lparr>
     a_canceled_at := coalesce (map_option as_i64 (au_canceled_at au)) (a_canceled_at r),
     a_canceled_by := coalesce (au_canceled_by au) (a_canceled_by r),
     a_canceled_tx := coalesce (au_canceled_tx au) (a_canceled_tx r)\<rparr>"

definition persist_cancel_audit :: "agreement_id \<Rightarrow> reconciliation_audit \<Rightarrow> unit tx" where
  "persist_cancel_audit i au =
     (if au_canceled_at au = None \<and> au_canceled_by au = None \<and> au_canceled_tx au = None
      then (\<lambda>db. Inr ((), db))
      else ignore_rows (update_columns (\<lambda>r. a_id r = i) (cancel_audit_row au)))"

fun persist_audits :: "reconciliation_item list \<Rightarrow> outcomes \<Rightarrow> unit tx" where
  "persist_audits [] outs db = Inr ((), db)"
| "persist_audits (item # items) outs db =
     (let oc = (case outs (ri_agreement_id item) of None \<Rightarrow> no_outcome | Some oc \<Rightarrow> oc) in
      tx_bind (if did_accept oc then persist_accept_audit (ri_agreement_id item) (ri_audit item)
               else (\<lambda>db. Inr ((), db))) (\<lambda>_.
      tx_bind (if did_cancel oc then persist_cancel_audit (ri_agreement_id item) (ri_audit item)
               else (\<lambda>db. Inr ((), db))) (\<lambda>_.
      persist_audits items outs)) db)"

definition apply_reconciliation_batch :: "timestamp \<Rightarrow> reconciliation_item list \<Rightarrow> outcomes tx" where
  "apply_reconciliation_batch now items =
     (let outs0 = (\<lambda>i. if i \<in> ri_agreement_id ` set items then Some no_outcome else None);
          paired = filter (\<lambda>it. ri_apply_accept it \<and> ri_cancel it \<noteq> None) items;
          accept_only = map ri_agreement_id
            (filter (\<lambda>it. ri_apply_accept it \<and> ri_cancel it = None) items);
          cancel_by_requester = map ri_agreement_id
            (filter (\<lambda>it. \<not> ri_apply_accept it \<and> ri_cancel it = Some ByRequester) items);
          cancel_by_indexer = map ri_agreement_id
            (filter (\<lambda>it. \<not> ri_apply_accept it \<and> ri_cancel it = Some ByIndexer) items)
      in if items = [] then (\<lambda>db. Inr (outs0, db))
      else tx_bind (apply_paired now paired outs0) (\<lambda>outs1.
        tx_bind (batch_update_status_from now accept_only AcceptedOnChain ACCEPT_FROM) (\<lambda>accepted.
        tx_bind (batch_apply_cancel now cancel_by_requester ByRequester) (\<lambda>by_requester.
        tx_bind (batch_apply_cancel now cancel_by_indexer ByIndexer) (\<lambda>by_indexer.
        let outs = note_cancels by_indexer (note_cancels by_requester (note_accepts accepted outs1))
        in tx_bind (persist_audits items outs) (\<lambda>_ db. Inr (outs, db)))))))"

section \<open>Emission markers, replacements, progress\<close>

definition mark_terminated_event_emitted :: "timestamp \<Rightarrow> agreement_id \<Rightarrow> unit tx" where
  "mark_terminated_event_emitted now i =
     ignore_rows (update_columns (\<lambda>r. a_id r = i)
       (\<lambda>r. r\<lparr>a_terminated_event_emitted_at := Some now\<rparr>))"

definition mark_accepted_event_emitted :: "timestamp \<Rightarrow> agreement_id \<Rightarrow> unit tx" where
  "mark_accepted_event_emitted now i =
     ignore_rows (update_columns (\<lambda>r. a_id r = i)
       (\<lambda>r. r\<lparr>a_accepted_event_emitted_at := Some now\<rparr>))"

definition mark_expired_event_emitted :: "timestamp \<Rightarrow> agreement_id \<Rightarrow> unit tx" where
  "mark_expired_event_emitted now i =
     ignore_rows (update_columns (\<lambda>r. a_id r = i)
       (\<lambda>r. r\<lparr>a_expired_event_emitted_at := Some now\<rparr>))"

definition mark_replacement_queued :: "agreement_id \<Rightarrow> unit tx" where
  "mark_replacement_queued i =
     ignore_rows (update_columns (\<lambda>r. a_id r = i) (\<lambda>r. r\<lparr>a_replacement_pending := False\<rparr>))"

definition update_agreement_sync_progress :: "agreement_id \<Rightarrow> u64 \<Rightarrow> timestamp \<Rightarrow> unit tx" where
  "update_agreement_sync_progress i block_height progress_at =
     ignore_rows (update_columns (\<lambda>r. a_id r = i)
       (\<lambda>r. r\<lparr>a_last_block_height := Some (as_i64 block_height),
              a_last_progress_at := Some progress_at\<rparr>))"

section \<open>DIPs info and listener state\<close>

record dips_info_checks =
  dc_missing :: "indexer_id \<Rightarrow> int option"
  dc_cleared :: "indexer_id \<Rightarrow> int option"

text \<open>
  One statement deletes every other indexer's row; the next adds the seconds to each missing one.
  An upsert that names a row twice is refused, a negative total fails the check, and a total past
  the column's range overflows.
\<close>

definition record_dips_info_checks :: "timestamp \<Rightarrow> indexer_id list \<Rightarrow> int \<Rightarrow> dips_info_checks tx" where
  "record_dips_info_checks now missing added_secs db =
     (let t = dips_info_missing db;
          cleared = filter (\<lambda>r. dm_indexer_id r \<notin> set missing) t;
          kept = sql_update (\<lambda>_. True)
            (\<lambda>r. r\<lparr>dm_missing_secs := dm_missing_secs r + added_secs, dm_updated_at := now\<rparr>)
            (filter (\<lambda>r. dm_indexer_id r \<in> set missing) t);
          fresh = map (\<lambda>i. \<lparr>dm_indexer_id = i, dm_missing_secs = added_secs, dm_updated_at = now,
                             dm_blocked_until = None\<rparr>)
            (filter (\<lambda>i. i \<notin> dm_indexer_id ` set t) missing);
          t' = kept @ fresh
      in if \<not> distinct missing then Inl (DbError CardinalityViolation)
         else if \<exists>r \<in> set t'. dm_missing_secs r > i64_max then Inl (DbError NumericOutOfRange)
         else if \<exists>r \<in> set t'. dm_missing_secs r < 0 then Inl (DbError CheckViolation)
         else Inr (\<lparr>dc_missing = map_of (map (\<lambda>r. (dm_indexer_id r, dm_missing_secs r)) t'),
                    dc_cleared = map_of (map (\<lambda>r. (dm_indexer_id r, dm_missing_secs r)) cleared)\<rparr>,
                   db\<lparr>dips_info_missing := t'\<rparr>))"

definition block_missing_dips_info :: "timestamp \<Rightarrow> indexer_id list \<Rightarrow> int \<Rightarrow> indexer_id list tx" where
  "block_missing_dips_info now ids for_secs db =
     (let P = (\<lambda>r. dm_indexer_id r \<in> set ids) in
      Inr (map dm_indexer_id (filter (\<lambda>r. P r \<and> dm_blocked_until r = None) (dips_info_missing db)),
           db\<lparr>dips_info_missing := sql_update P
             (\<lambda>r. r\<lparr>dm_blocked_until := Some (now + secs for_secs)\<rparr>) (dips_info_missing db)\<rparr>))"

definition update_chain_listener_state :: "timestamp \<Rightarrow> u64 \<Rightarrow> u64 \<Rightarrow> agreement_id option \<Rightarrow>
    u64 option \<Rightarrow> unit tx" where
  "update_chain_listener_state now chain block last_id ts db =
     (let row = \<lparr>ls_chain_id = as_i64 chain, ls_last_processed_block = as_i64 block,
                 ls_last_processed_id = last_id,
                 ls_last_processed_block_timestamp = map_option as_i64 ts, ls_updated_at = now\<rparr> in
      Inr ((), db\<lparr>listener_states :=
        (if as_i64 chain \<in> ls_chain_id ` set (listener_states db)
         then sql_update (\<lambda>r. ls_chain_id r = as_i64 chain) (\<lambda>_. row) (listener_states db)
         else listener_states db @ [row])\<rparr>))"

end
