(* ===== verification/Registry_Lifecycle.thy ===== *)
theory Registry_Lifecycle
  imports Registry
begin

text \<open>
  The agreement lifecycle and the registry's invariant. \<open>edges_from\<close> lists the status changes a
  single statement makes, \<open>may_become\<close> is their closure; \<open>row_step\<close> says how one write may change a
  row, \<open>reg_inv\<close> is the invariant of the whole registry, and \<open>preserves\<close> is the contract every
  write of the registry theory meets: it keeps the invariant and changes rows only along
  \<open>row_step\<close> and \<open>request_step\<close>. The locale \<open>guarded_write\<close> is that contract for one statement's
  condition and \<open>SET\<close> list; every statement interprets it. \<open>registry_step\<close> is the step relation
  that interleaves all writes, and \<open>reachable\<close> its reachable registries.
\<close>

section \<open>Status changes\<close>

fun edges_from :: "agreement_status \<Rightarrow> agreement_status list" where
  "edges_from Created =
     [Unresponsive, Expired, Rejected, CanceledByRequester, Cancelling, AcceptedOnChain]"
| "edges_from Expired = [AcceptedOnChain, Cancelling]"
| "edges_from AcceptedOnChain = [CanceledByRequester, CanceledByIndexer, Cancelling]"
| "edges_from Rejected = [CanceledByRequester, Cancelling]"
| "edges_from Cancelling = [CanceledByRequester, AbandonedByIndexer, CanceledByIndexer]"
| "edges_from CanceledByRequester = [Cancelling]"
| "edges_from _ = []"

definition ending :: "agreement_status list" where
  "ending = [Cancelling, CanceledByRequester, CanceledByIndexer, AbandonedByIndexer]"

fun may_become :: "agreement_status \<Rightarrow> agreement_status \<Rightarrow> bool" where
  "may_become Created s \<longleftrightarrow> s \<noteq> Unknown"
| "may_become Expired s \<longleftrightarrow> s \<in> set (Expired # AcceptedOnChain # ending)"
| "may_become AcceptedOnChain s \<longleftrightarrow> s \<in> set (AcceptedOnChain # ending)"
| "may_become Rejected s \<longleftrightarrow> s \<in> set (Rejected # ending)"
| "may_become Cancelling s \<longleftrightarrow> s \<in> set ending"
| "may_become CanceledByRequester s \<longleftrightarrow> s \<in> set ending"
| "may_become t s \<longleftrightarrow> s = t"

lemma may_become_refl [simp]: "may_become s s"
  by (cases s) (simp_all add: ending_def)

lemma may_become_trans: "may_become s t \<Longrightarrow> may_become t u \<Longrightarrow> may_become s u"
  by (cases s; cases t) (auto simp: ending_def)

lemma edge_may_become: "t \<in> set (edges_from s) \<Longrightarrow> may_become s t"
  by (cases s) (auto simp: ending_def)

section \<open>What a write may do to a row\<close>

definition same_identity :: "agreement_row \<Rightarrow> agreement_row \<Rightarrow> bool" where
  "same_identity r r' \<longleftrightarrow>
     a_id r' = a_id r \<and> a_nonce_uuid r' = a_nonce_uuid r \<and> a_created_at r' = a_created_at r \<and>
     a_request_id r' = a_request_id r \<and> a_deployment_id r' = a_deployment_id r \<and>
     a_indexer_id r' = a_indexer_id r \<and> a_indexer_url r' = a_indexer_url r \<and>
     a_terms r' = a_terms r \<and> a_terms_version_hash r' = a_terms_version_hash r"

definition row_step :: "agreement_row \<Rightarrow> agreement_row \<Rightarrow> bool" where
  "row_step r r' \<longleftrightarrow>
     same_identity r r' \<and> may_become (a_status r) (a_status r') \<and>
     (a_abandoned r \<longrightarrow> a_abandoned r') \<and>
     (a_accepted_at r \<noteq> None \<longrightarrow> a_accepted_at r' \<noteq> None) \<and>
     (a_rejection_reason r \<noteq> None \<longrightarrow> a_rejection_reason r' = a_rejection_reason r)"

definition row_inv :: "agreement_row \<Rightarrow> bool" where
  "row_inv r \<longleftrightarrow>
     a_status r \<noteq> Unknown \<and>
     (a_abandoned r \<longrightarrow> a_status r \<in> set ending) \<and>
     (a_replacement_pending r \<longrightarrow> a_abandoned r) \<and>
     (a_rejection_reason r \<noteq> None \<longrightarrow> a_status r \<in> set (Rejected # ending)) \<and>
     0 \<le> a_cancel_attempts r \<and> a_cancel_attempts r \<le> i32_max \<and>
     uint (t_deadline (a_terms r)) \<le> i64_max"

definition request_step :: "request_row \<Rightarrow> request_row \<Rightarrow> bool" where
  "request_step r r' \<longleftrightarrow>
     r_id r' = r_id r \<and> request_key r' = request_key r \<and> r_created_at r' = r_created_at r \<and>
     (r_status r' = r_status r \<or> r_status r = Open \<and> r_status r' = Canceled)"

definition request_inv :: "request_row \<Rightarrow> bool" where
  "request_inv r \<longleftrightarrow> r_status r \<noteq> UnknownRequest \<and> 0 < r_num_candidates r"

definition reg_inv :: "registry \<Rightarrow> bool" where
  "reg_inv db \<longleftrightarrow>
     distinct (map a_id (agreements db)) \<and> unique_active (agreements db) \<and>
     list_all row_inv (agreements db) \<and>
     distinct (map r_id (requests db)) \<and> unique_open (requests db) \<and>
     list_all request_inv (requests db) \<and>
     a_request_id ` set (agreements db) \<subseteq> r_id ` set (requests db) \<and>
     distinct (pending_cancellations db) \<and>
     pc_new_agreement_id ` set (pending_cancellations db) \<subseteq> a_id ` set (agreements db) \<and>
     pc_old_agreement_id ` set (pending_cancellations db) \<subseteq> a_id ` set (agreements db) \<and>
     distinct (map dm_indexer_id (dips_info_missing db)) \<and>
     list_all (\<lambda>r. 0 \<le> dm_missing_secs r \<and> dm_missing_secs r \<le> i64_max) (dips_info_missing db) \<and>
     distinct (map ls_chain_id (listener_states db))"

definition extends :: "('r \<Rightarrow> 'r \<Rightarrow> bool) \<Rightarrow> 'r list \<Rightarrow> 'r list \<Rightarrow> bool" where
  "extends R t t' \<longleftrightarrow> (\<exists>kept fresh. t' = kept @ fresh \<and> list_all2 R t kept)"

definition evolves :: "registry \<Rightarrow> registry \<Rightarrow> bool" where
  "evolves db db' \<longleftrightarrow>
     extends row_step (agreements db) (agreements db') \<and>
     extends request_step (requests db) (requests db')"

definition preserves :: "'a tx \<Rightarrow> bool" where
  "preserves m \<longleftrightarrow>
     (\<forall>db a db'. reg_inv db \<longrightarrow> m db = Inr (a, db') \<longrightarrow> reg_inv db' \<and> evolves db db')"

lemma preservesI:
  "(\<And>db a db'. reg_inv db \<Longrightarrow> m db = Inr (a, db') \<Longrightarrow> reg_inv db' \<and> evolves db db') \<Longrightarrow> preserves m"
  by (simp add: preserves_def)

lemma preservesD:
  "preserves m \<Longrightarrow> reg_inv db \<Longrightarrow> m db = Inr (a, db') \<Longrightarrow> reg_inv db' \<and> evolves db db'"
  by (auto simp: preserves_def)

section \<open>Rows and tables\<close>

lemma row_step_refl [simp]: "row_step r r"
  by (simp add: row_step_def same_identity_def)

lemma row_step_trans: "row_step r s \<Longrightarrow> row_step s t \<Longrightarrow> row_step r t"
  by (auto simp: row_step_def same_identity_def intro: may_become_trans)

lemma request_step_refl [simp]: "request_step r r"
  by (simp add: request_step_def)

lemma request_step_trans: "request_step r s \<Longrightarrow> request_step s t \<Longrightarrow> request_step r t"
  by (auto simp: request_step_def)

lemma extends_refl: "(\<And>x. R x x) \<Longrightarrow> extends R t t"
  unfolding extends_def by (intro exI [of _ t] exI [of _ "[]"]) (simp add: list_all2_refl)

lemma extends_append: "(\<And>x. R x x) \<Longrightarrow> extends R t (t @ u)"
  unfolding extends_def by (intro exI [of _ t] exI [of _ u]) (simp add: list_all2_refl)

lemma extends_map: "(\<And>x. x \<in> set t \<Longrightarrow> R x (g x)) \<Longrightarrow> extends R t (map g t)"
  unfolding extends_def
  by (intro exI [of _ "map g t"] exI [of _ "[]"]) (simp add: list_all2_conv_all_nth)

lemma extends_trans:
  assumes R: "\<And>x y z. R x y \<Longrightarrow> R y z \<Longrightarrow> R x z"
    and "extends R t u" and "extends R u v"
  shows "extends R t v"
proof -
  from assms(2,3) obtain kept fresh kept' fresh' where
    u: "u = kept @ fresh" "list_all2 R t kept" and v: "v = kept' @ fresh'" "list_all2 R u kept'"
    by (auto simp: extends_def)
  from u(1) v(2) obtain us vs where "kept' = us @ vs" "list_all2 R kept us"
    by (auto simp: list_all2_append1)
  moreover from this(2) u(2) have "list_all2 R t us"
    using R unfolding list_all2_conv_all_nth by metis
  ultimately show ?thesis
    using v(1) by (auto simp: extends_def)
qed

lemma extends_memD: "extends R t t' \<Longrightarrow> r \<in> set t \<Longrightarrow> \<exists>r' \<in> set t'. R r r'"
  by (auto simp: extends_def in_set_conv_decomp list_all2_append1 list_all2_Cons1)

lemma evolves_refl: "evolves db db"
  by (simp add: evolves_def extends_refl)

lemma evolves_trans: "evolves db db' \<Longrightarrow> evolves db' db'' \<Longrightarrow> evolves db db''"
  unfolding evolves_def
  using extends_trans [of row_step "agreements db" "agreements db'" "agreements db''"]
    extends_trans [of request_step "requests db" "requests db'" "requests db''"]
    row_step_trans request_step_trans by blast

section \<open>The contract of a transaction\<close>

lemma preserves_return [keeps_rows]: "preserves (\<lambda>db. Inr (a, db))"
  by (rule preservesI) (simp add: evolves_refl)

lemma preserves_fail [keeps_rows]: "preserves (\<lambda>db. Inl e)"
  by (rule preservesI) simp

lemma preserves_bind [keeps_rows]:
  assumes "preserves m" and "\<And>a. preserves (k a)"
  shows "preserves (tx_bind m k)"
proof (rule preservesI)
  fix db b db'
  assume inv: "reg_inv db" and run: "tx_bind m k db = Inr (b, db')"
  from run obtain a db1 where m: "m db = Inr (a, db1)" and k: "k a db1 = Inr (b, db')"
    by (auto simp: tx_bind_def split: sum.splits prod.splits)
  from preservesD [OF assms(1) inv m] have "reg_inv db1" "evolves db db1" by auto
  with preservesD [OF assms(2) _ k] show "reg_inv db' \<and> evolves db db'"
    by (blast intro: evolves_trans)
qed

lemma preserves_if [keeps_rows]:
  "(b \<Longrightarrow> preserves m) \<Longrightarrow> (\<not> b \<Longrightarrow> preserves m') \<Longrightarrow> preserves (if b then m else m')"
  by simp

lemma preserves_some_row [keeps_rows]: "preserves m \<Longrightarrow> preserves (some_row m)"
  unfolding some_row_def
  by (rule preserves_bind) (auto intro!: preservesI simp: evolves_refl split: list.splits)

lemma preserves_any_row [keeps_rows]: "preserves m \<Longrightarrow> preserves (any_row m)"
  unfolding any_row_def by (intro preserves_bind preserves_some_row preserves_return)

lemma preserves_ignore_rows [keeps_rows]: "preserves m \<Longrightarrow> preserves (ignore_rows m)"
  unfolding ignore_rows_def by (intro preserves_bind preserves_return)

locale guarded_write =
  fixes P :: "agreement_row \<Rightarrow> bool" and f :: "agreement_row \<Rightarrow> agreement_row"
  assumes legal: "row_inv r \<Longrightarrow> P r \<Longrightarrow> row_step r (f r) \<and> row_inv (f r)"
begin

lemma keeps_agreements:
  assumes "reg_inv db" and "unique_active (sql_update P f (agreements db))"
  shows "reg_inv (db\<lparr>agreements := sql_update P f (agreements db)\<rparr>) \<and>
    evolves db (db\<lparr>agreements := sql_update P f (agreements db)\<rparr>)"
proof -
  let ?g = "\<lambda>r. if P r then f r else r" and ?t = "sql_update P f (agreements db)"
  have rows: "row_step r (?g r) \<and> row_inv (?g r)" if "r \<in> set (agreements db)" for r
    using assms(1) that legal [of r] by (auto simp: reg_inv_def list_all_iff)
  have cols: "a_id (?g r) = a_id r" "a_request_id (?g r) = a_request_id r"
    if "r \<in> set (agreements db)" for r
    using rows [OF that] unfolding row_step_def same_identity_def by blast+
  have ids: "map a_id ?t = map a_id (agreements db)"
    using cols(1) by (simp add: sql_update_def)
  have reqs: "map a_request_id ?t = map a_request_id (agreements db)"
    using cols(2) by (simp add: sql_update_def)
  have sets: "a_id ` set ?t = a_id ` set (agreements db)"
    "a_request_id ` set ?t = a_request_id ` set (agreements db)"
    using arg_cong [OF ids, of set] arg_cong [OF reqs, of set] by (simp_all only: set_map)
  have inv: "list_all row_inv ?t"
    using rows unfolding list_all_iff set_sql_update by blast
  have ext: "extends row_step (agreements db) ?t"
    unfolding sql_update_def using rows by (intro extends_map) blast
  have "reg_inv (db\<lparr>agreements := ?t\<rparr>)"
    using assms ids sets inv by (simp add: reg_inv_def)
  moreover have "evolves db (db\<lparr>agreements := ?t\<rparr>)"
    using ext by (simp add: evolves_def extends_refl)
  ultimately show ?thesis by blast
qed

lemma preserves_update_status: "preserves (update_status P f)"
  by (rule preservesI)
    (auto simp: update_status_def Let_def dest: keeps_agreements split: if_splits)

end

text \<open>A statement that leaves status, indexer and deployment alone cannot break the index.\<close>

locale column_write = guarded_write +
  assumes same_slot: "active (f r) = active r" "slot (f r) = slot r"
begin

lemma keeps_unique: "unique_active t \<Longrightarrow> unique_active (sql_update P f t)"
proof -
  have "map slot (filter active (sql_update P f t)) = map slot (filter active t)"
    by (induction t) (auto simp: same_slot)
  then show "unique_active t \<Longrightarrow> unique_active (sql_update P f t)"
    by (simp add: unique_active_def)
qed

lemma preserves_update_columns: "preserves (update_columns P f)"
proof (rule preservesI)
  fix db a db'
  assume inv: "reg_inv db" and run: "update_columns P f db = Inr (a, db')"
  then have "unique_active (sql_update P f (agreements db))"
    by (intro keeps_unique) (simp add: reg_inv_def)
  with keeps_agreements [OF inv] run show "reg_inv db' \<and> evolves db db'"
    by (auto simp: update_columns_def)
qed

end

lemmas row_rules = row_step_def same_identity_def row_inv_def

lemma ending_closed: "s \<in> set (Rejected # ending) \<Longrightarrow> t \<in> set (edges_from s) \<Longrightarrow> t \<in> set ending"
  by (cases s) (auto simp: ending_def)

lemma edges_known: "t \<in> set (edges_from s) \<Longrightarrow> t \<noteq> Unknown"
  by (cases s) auto

text \<open>Status changes along the edges, whatever ids they name.\<close>

locale status_change =
  fixes new_status :: "agreement_row \<Rightarrow> agreement_status" and allowed_from :: "agreement_status list"
  assumes edge: "row_inv r \<Longrightarrow> a_status r \<in> set allowed_from \<Longrightarrow>
    new_status r \<in> set (edges_from (a_status r))"
begin

lemma legal_change:
  assumes "row_inv r" and "a_id r \<in> set ids \<and> a_status r \<in> set allowed_from"
  shows "row_step r (r\<lparr>a_status := new_status r, a_updated_at := now\<rparr>) \<and>
    row_inv (r\<lparr>a_status := new_status r, a_updated_at := now\<rparr>)"
proof -
  from assms edge have step: "new_status r \<in> set (edges_from (a_status r))" by blast
  have "a_status r \<in> set (Rejected # ending) \<Longrightarrow> new_status r \<in> set ending"
    using ending_closed step by blast
  with assms(1) edge_may_become [OF step] edges_known [OF step] show ?thesis
    by (auto simp: row_rules)
qed

lemma preserves_batch_set_status: "preserves (batch_set_status now ids new_status allowed_from)"
  unfolding batch_set_status_def
  by (intro keeps_rows guarded_write.preserves_update_status guarded_write.intro) (rule legal_change)

end

end
