(* ===== verification/Registry_Safety.thy ===== *)
theory Registry_Safety
  imports Registry_Lifecycle
begin

text \<open>
  Every write of the registry meets the contract of the lifecycle theory: each statement
  interprets \<open>guarded_write\<close>, \<open>column_write\<close> or \<open>status_change\<close>, each transaction is built from
  them, and the step relation \<open>registry_step\<close> interleaves all of them. The invariant then holds in
  every reachable registry, and rows only move along the lifecycle.
\<close>

section \<open>The statements\<close>

interpretation unresponsive_write: guarded_write
  "\<lambda>r. a_id r = i \<and> a_status r = Created"
  "\<lambda>r. r\<lparr>a_status := Unresponsive, a_updated_at := now\<rparr>" for i now
  by unfold_locales (auto simp: row_rules ending_def)

interpretation expired_write: guarded_write
  "\<lambda>r. a_id r = i \<and> a_status r = Created"
  "\<lambda>r. r\<lparr>a_status := Expired, a_updated_at := now\<rparr>" for i now
  by unfold_locales (auto simp: row_rules ending_def)

interpretation rejected_write: guarded_write
  "\<lambda>r. a_id r = i \<and> a_status r = Created"
  "\<lambda>r. r\<lparr>a_status := Rejected, a_updated_at := now, a_rejection_reason := reason\<rparr>" for i now reason
  by unfold_locales (auto simp: row_rules ending_def)

interpretation abandoning_write: guarded_write
  "\<lambda>r. a_id r = i \<and> a_status r = AcceptedOnChain"
  "\<lambda>r. r\<lparr>a_status := Cancelling, a_abandoned := True, a_replacement_pending := True,
         a_updated_at := now\<rparr>" for i now
  by unfold_locales (auto simp: row_rules ending_def)

interpretation reopen_write: guarded_write
  "\<lambda>r. a_id r = i \<and> a_status r \<in> {CanceledByRequester, Rejected}"
  "\<lambda>r. r\<lparr>a_status := Cancelling,
         a_cancel_attempts := 0,
         a_cancel_checked_at := Some now,
         a_ended_seen_at := None,
         a_canceled_at := (if seen_live then None else a_canceled_at r),
         a_canceled_by := (if seen_live then None else a_canceled_by r),
         a_canceled_tx := (if seen_live then None else a_canceled_tx r),
         a_terminated_event_emitted_at :=
           (if seen_live then None else a_terminated_event_emitted_at r),
         a_updated_at := now\<rparr>" for i now seen_live
  by unfold_locales (auto simp: row_rules ending_def i32_max_def)

interpretation accept_change: status_change "\<lambda>_. AcceptedOnChain" ACCEPT_FROM
  by unfold_locales (auto simp: ACCEPT_FROM_def)

interpretation requester_change: status_change "\<lambda>_. CanceledByRequester" CANCEL_BY_REQUESTER_FROM
  by unfold_locales (auto simp: CANCEL_BY_REQUESTER_FROM_def)

interpretation abandoned_change: status_change "\<lambda>_. AbandonedByIndexer" "[Cancelling]"
  by unfold_locales auto

interpretation cancelling_change: status_change "\<lambda>_. Cancelling"
  "[Created, AcceptedOnChain, Rejected, Expired]"
  by unfold_locales auto

interpretation payer_cancel_change: status_change
  "\<lambda>r. if a_abandoned r then AbandonedByIndexer else CanceledByRequester" CANCEL_BY_REQUESTER_FROM
  by unfold_locales (auto simp: CANCEL_BY_REQUESTER_FROM_def row_inv_def ending_def)

interpretation indexer_change: status_change "\<lambda>_. CanceledByIndexer" CANCEL_BY_INDEXER_FROM
  by unfold_locales (auto simp: CANCEL_BY_INDEXER_FROM_def)

lemmas slot_rules = active_def slot_def

interpretation offer_hash_write: column_write
  "\<lambda>r. a_id r = i \<and> a_status r \<in> {Created, AcceptedOnChain, Cancelling}"
  "\<lambda>r. r\<lparr>a_offer_tx_hash := Some tx_hash,
         a_updated_at := (if a_status r = Cancelling then a_updated_at r else now)\<rparr>" for i now tx_hash
  by unfold_locales (auto simp: row_rules slot_rules)

interpretation cancel_check_write: column_write
  "\<lambda>r. a_id r = i \<and> a_status r = Cancelling"
  "\<lambda>r. r\<lparr>a_cancel_attempts := least_i32 (a_cancel_attempts r + uint failed_attempts),
         a_cancel_checked_at := Some now,
         a_ended_seen_at := (case ended of
             None \<Rightarrow> a_ended_seen_at r
           | Some True \<Rightarrow> coalesce (a_ended_seen_at r) (Some now)
           | Some False \<Rightarrow> None)\<rparr>" for i now and failed_attempts :: u32 and ended
  by unfold_locales (auto simp: row_rules slot_rules least_i32_def i32_max_def)

interpretation accepted_audit_write: column_write
  "\<lambda>r. a_id r = i"
  "\<lambda>r. r\<lparr>a_accepted_at := coalesce (a_accepted_at r) (Some (as_i64 accepted_at)),
         a_accepted_tx := coalesce (a_accepted_tx r) (Some accepted_tx)\<rparr>" for i accepted_at accepted_tx
  by unfold_locales (auto simp: row_rules slot_rules)

interpretation cancel_audit_write: column_write
  "\<lambda>r. a_id r = i"
  "\<lambda>r. write_end (a_accepted_at r) canceled_at canceled_by canceled_tx r"
  for i canceled_at canceled_by canceled_tx
  by unfold_locales (auto simp: row_rules slot_rules write_end_def)

interpretation both_audit_write: column_write
  "\<lambda>r. a_id r = i"
  "\<lambda>r. (write_end (coalesce (a_accepted_at r) (Some (as_i64 accepted_at)))
         canceled_at canceled_by canceled_tx r)
       \<lparr>a_accepted_at := coalesce (a_accepted_at r) (Some (as_i64 accepted_at)),
        a_accepted_tx := coalesce (a_accepted_tx r) (Some accepted_tx)\<rparr>"
  for i accepted_at accepted_tx canceled_at canceled_by canceled_tx
  by unfold_locales (auto simp: row_rules slot_rules write_end_def)

interpretation persist_accept_write: column_write "\<lambda>r. a_id r = i" "accept_audit_row au" for i au
  by unfold_locales (auto simp: row_rules slot_rules accept_audit_row_def)

interpretation persist_cancel_write: column_write "\<lambda>r. a_id r = i" "cancel_audit_row au" for i au
  by unfold_locales (auto simp: row_rules slot_rules cancel_audit_row_def)

interpretation terminated_mark_write: column_write
  "\<lambda>r. a_id r = i" "\<lambda>r. r\<lparr>a_terminated_event_emitted_at := Some now\<rparr>" for i now
  by unfold_locales (auto simp: row_rules slot_rules)

interpretation accepted_mark_write: column_write
  "\<lambda>r. a_id r = i" "\<lambda>r. r\<lparr>a_accepted_event_emitted_at := Some now\<rparr>" for i now
  by unfold_locales (auto simp: row_rules slot_rules)

interpretation expired_mark_write: column_write
  "\<lambda>r. a_id r = i" "\<lambda>r. r\<lparr>a_expired_event_emitted_at := Some now\<rparr>" for i now
  by unfold_locales (auto simp: row_rules slot_rules)

interpretation replacement_write: column_write
  "\<lambda>r. a_id r = i" "\<lambda>r. r\<lparr>a_replacement_pending := False\<rparr>" for i
  by unfold_locales (auto simp: row_rules slot_rules)

interpretation progress_write: column_write
  "\<lambda>r. a_id r = i"
  "\<lambda>r. r\<lparr>a_last_block_height := Some (as_i64 block_height), a_last_progress_at := Some progress_at\<rparr>"
  for i block_height progress_at
  by unfold_locales (auto simp: row_rules slot_rules)

lemmas status_writes =
  unresponsive_write.preserves_update_status expired_write.preserves_update_status
  rejected_write.preserves_update_status abandoning_write.preserves_update_status
  reopen_write.preserves_update_status

lemmas status_changes =
  accept_change.preserves_batch_set_status requester_change.preserves_batch_set_status
  abandoned_change.preserves_batch_set_status cancelling_change.preserves_batch_set_status
  payer_cancel_change.preserves_batch_set_status indexer_change.preserves_batch_set_status

lemmas column_writes =
  offer_hash_write.preserves_update_columns cancel_check_write.preserves_update_columns
  accepted_audit_write.preserves_update_columns cancel_audit_write.preserves_update_columns
  both_audit_write.preserves_update_columns persist_accept_write.preserves_update_columns
  persist_cancel_write.preserves_update_columns terminated_mark_write.preserves_update_columns
  accepted_mark_write.preserves_update_columns expired_mark_write.preserves_update_columns
  replacement_write.preserves_update_columns progress_write.preserves_update_columns

section \<open>The transactions\<close>

named_theorems keeps_registry "what a whole write of the registry preserves"

lemma preserves_read: "(\<And>db a db'. m db = Inr (a, db') \<Longrightarrow> db' = db) \<Longrightarrow> preserves m"
  unfolding preserves_def using evolves_refl by blast

lemma preserves_update_returning_old:
  "preserves (update_status P f) \<Longrightarrow> preserves (update_returning_old True P f)"
  "preserves (update_columns P f) \<Longrightarrow> preserves (update_returning_old False P f)"
  by (fastforce simp: preserves_def update_returning_old_def tx_bind_def
      split: sum.splits prod.splits)+

lemma preserves_correction_of_rows [keeps_rows]: "preserves m \<Longrightarrow> preserves (correction_of_rows m)"
  unfolding correction_of_rows_def by (intro keeps_rows)

lemma preserves_set_status_from:
  assumes "preserves (batch_set_status now [i] (\<lambda>_. s) allowed_from)"
  shows "preserves (update_status_from now i s allowed_from)"
    and "preserves (set_status_from now i s allowed_from)"
proof -
  show *: "preserves (update_status_from now i s allowed_from)"
    unfolding update_status_from_def batch_update_status_from_def by (intro keeps_rows assms)
  show "preserves (set_status_from now i s allowed_from)"
    unfolding set_status_from_def
    by (rule preserves_bind [OF *], rule preserves_read) (simp split: if_splits)
qed

lemmas preserves_accept =
  preserves_set_status_from(1) [OF accept_change.preserves_batch_set_status]

lemma preserves_mark_unresponsive [keeps_rows, keeps_registry]:
  "preserves (mark_indexing_agreement_as_unresponsive now i)"
  unfolding mark_indexing_agreement_as_unresponsive_def by (intro keeps_rows status_writes)

lemma preserves_mark_expired [keeps_rows, keeps_registry]: "preserves (mark_indexing_agreement_as_expired now i)"
  unfolding mark_indexing_agreement_as_expired_def by (intro keeps_rows status_writes)

lemma preserves_mark_rejected [keeps_rows, keeps_registry]:
  "preserves (mark_indexing_agreement_as_rejected now i reason)"
  unfolding mark_indexing_agreement_as_rejected_def by (intro keeps_rows status_writes)

lemma preserves_mark_abandoning [keeps_rows, keeps_registry]:
  "preserves (mark_indexing_agreement_as_abandoning now i)"
  unfolding mark_indexing_agreement_as_abandoning_def by (intro keeps_rows status_writes)

lemma preserves_mark_canceled_by_requester [keeps_rows, keeps_registry]:
  "preserves (mark_indexing_agreement_as_canceled_by_requester now i)"
  unfolding mark_indexing_agreement_as_canceled_by_requester_def
  by (intro preserves_set_status_from status_changes)

lemma preserves_mark_abandoned [keeps_rows, keeps_registry]:
  "preserves (mark_indexing_agreement_as_abandoned_by_indexer now i)"
  unfolding mark_indexing_agreement_as_abandoned_by_indexer_def
  by (intro preserves_set_status_from status_changes)

lemma preserves_mark_cancelling [keeps_rows, keeps_registry]:
  "preserves (mark_indexing_agreement_as_cancelling now i)"
  unfolding mark_indexing_agreement_as_cancelling_def
  by (intro preserves_set_status_from status_changes)

lemma preserves_reopen [keeps_rows, keeps_registry]: "preserves (reopen_indexing_agreement_cancel now i seen_live)"
  unfolding reopen_indexing_agreement_cancel_def
  by (intro preserves_bind preserves_update_returning_old status_writes, rule preserves_read)
    (auto split: list.splits)

lemma preserves_update_offer_tx_hash [keeps_rows, keeps_registry]: "preserves (update_offer_tx_hash now i h)"
  unfolding update_offer_tx_hash_def by (intro keeps_rows column_writes)

lemma preserves_record_cancel_check [keeps_rows, keeps_registry]:
  "preserves (record_cancel_check now i failed_attempts ended)"
  unfolding record_cancel_check_def by (intro keeps_rows column_writes)

lemma preserves_record_accepted_audit [keeps_rows, keeps_registry]: "preserves (record_accepted_audit i at tx)"
  unfolding record_accepted_audit_def by (intro keeps_rows column_writes)

lemma preserves_record_cancel_audit [keeps_rows, keeps_registry]: "preserves (record_cancel_audit i at b tx)"
  unfolding record_cancel_audit_def
  by (intro keeps_rows preserves_update_returning_old column_writes)

lemma preserves_record_accept_and_cancel_audit [keeps_rows, keeps_registry]:
  "preserves (record_accept_and_cancel_audit i aa atx ca b ctx)"
  unfolding record_accept_and_cancel_audit_def
  by (intro keeps_rows preserves_update_returning_old column_writes)

lemma preserves_batch_apply_cancel [keeps_rows]: "preserves (batch_apply_cancel now ids kind)"
  unfolding batch_apply_cancel_def batch_update_status_from_def
  by (cases kind) (simp_all add: status_changes)

lemma preserves_apply_cancel [keeps_rows]: "preserves (apply_cancel now i kind)"
  unfolding apply_cancel_def by (intro keeps_rows)

lemma preserves_apply_reconciliation [keeps_rows, keeps_registry]:
  "preserves (apply_reconciliation now i apply_accept cancel)"
  unfolding apply_reconciliation_def
proof (intro preserves_bind preserves_if preserves_accept preserves_return)
  show "preserves (case cancel of
      None \<Rightarrow> \<lambda>db. Inr (\<lparr>did_accept = acc, did_cancel = False\<rparr>, db)
    | Some kind \<Rightarrow> tx_bind (apply_cancel now i kind) (\<lambda>can db.
        if acc \<and> \<not> can then Inl NoRecordsUpdated
        else Inr (\<lparr>did_accept = acc, did_cancel = can\<rparr>, db)))" for acc
  proof (cases cancel)
    case (Some kind)
    then show ?thesis
      by (simp only: option.case)
        (intro preserves_bind preserves_apply_cancel, rule preserves_read, simp split: if_splits)
  qed (simp add: preserves_return)
qed

lemma preserves_apply_paired [keeps_rows]: "preserves (apply_paired now items outs)"
proof (induction items arbitrary: outs)
  case (Cons item items)
  show ?case
  proof (cases "ri_cancel item")
    case (Some kind)
    have "apply_paired now (item # items) outs =
      tx_bind (update_status_from now (ri_agreement_id item) AcceptedOnChain ACCEPT_FROM) (\<lambda>acc.
      tx_bind (apply_cancel now (ri_agreement_id item) kind) (\<lambda>can.
        if acc \<and> \<not> can then (\<lambda>_. Inl NoRecordsUpdated)
        else apply_paired now items
          (outs(ri_agreement_id item \<mapsto> \<lparr>did_accept = acc, did_cancel = can\<rparr>))))"
      using Some by (intro ext) simp
    then show ?thesis
      by (simp only:) (intro keeps_rows preserves_accept Cons)
  qed (use Cons in \<open>simp add: preserves_def\<close>)
qed (simp add: preserves_def evolves_refl)

lemma preserves_persist_audits [keeps_rows]: "preserves (persist_audits items outs)"
proof (induction items)
  case (Cons item items)
  let ?oc = "case outs (ri_agreement_id item) of None \<Rightarrow> no_outcome | Some oc \<Rightarrow> oc"
  have "persist_audits (item # items) outs =
    tx_bind (if did_accept ?oc then persist_accept_audit (ri_agreement_id item) (ri_audit item)
             else (\<lambda>db. Inr ((), db))) (\<lambda>_.
    tx_bind (if did_cancel ?oc then persist_cancel_audit (ri_agreement_id item) (ri_audit item)
             else (\<lambda>db. Inr ((), db))) (\<lambda>_. persist_audits items outs))"
    by (intro ext) (simp only: persist_audits.simps Let_def)
  then show ?case
    unfolding persist_accept_audit_def persist_cancel_audit_def
    by (simp only:) (intro keeps_rows column_writes Cons)
qed (simp add: preserves_def evolves_refl)

lemma preserves_apply_reconciliation_batch [keeps_rows, keeps_registry]:
  "preserves (apply_reconciliation_batch now items)"
  unfolding apply_reconciliation_batch_def Let_def batch_update_status_from_def
  by (intro keeps_rows status_changes)

lemma preserves_mark_terminated_event_emitted [keeps_rows, keeps_registry]:
  "preserves (mark_terminated_event_emitted now i)"
  unfolding mark_terminated_event_emitted_def by (intro keeps_rows column_writes)

lemma preserves_mark_accepted_event_emitted [keeps_rows, keeps_registry]:
  "preserves (mark_accepted_event_emitted now i)"
  unfolding mark_accepted_event_emitted_def by (intro keeps_rows column_writes)

lemma preserves_mark_expired_event_emitted [keeps_rows, keeps_registry]:
  "preserves (mark_expired_event_emitted now i)"
  unfolding mark_expired_event_emitted_def by (intro keeps_rows column_writes)

lemma preserves_mark_replacement_queued [keeps_rows, keeps_registry]: "preserves (mark_replacement_queued i)"
  unfolding mark_replacement_queued_def by (intro keeps_rows column_writes)

lemma preserves_update_agreement_sync_progress [keeps_rows, keeps_registry]:
  "preserves (update_agreement_sync_progress i h t)"
  unfolding update_agreement_sync_progress_def by (intro keeps_rows column_writes)

section \<open>The other tables\<close>

lemma request_update_inv:
  assumes inv: "reg_inv db"
    and step: "\<And>r. r \<in> set (requests db) \<Longrightarrow> P r \<Longrightarrow> request_step r (f r) \<and> request_inv (f r)"
  shows "reg_inv (db\<lparr>requests := sql_update P f (requests db)\<rparr>) \<and>
    evolves db (db\<lparr>requests := sql_update P f (requests db)\<rparr>)"
proof -
  let ?g = "\<lambda>r. if P r then f r else r" and ?t = "sql_update P f (requests db)"
  have rows: "request_step r (?g r) \<and> request_inv (?g r)" if "r \<in> set (requests db)" for r
    using inv that step [of r] by (auto simp: reg_inv_def list_all_iff)
  have "r_id (?g r) = r_id r" if "r \<in> set (requests db)" for r
    using rows [OF that] unfolding request_step_def by blast
  then have ids: "map r_id ?t = map r_id (requests db)"
    by (simp add: sql_update_def)
  have open_rows: "set (map request_key (filter (\<lambda>r. r_status r = Open) (sql_update P f t)))
      \<subseteq> set (map request_key (filter (\<lambda>r. r_status r = Open) t)) \<and>
      (unique_open t \<longrightarrow> unique_open (sql_update P f t))" if "set t \<subseteq> set (requests db)" for t
    using that
  proof (induction t)
    case (Cons r t)
    with rows [of r] show ?case
      by (auto simp: unique_open_def request_step_def)
  qed simp
  have sets: "r_id ` set ?t = r_id ` set (requests db)"
    using arg_cong [OF ids, of set] by (simp only: set_map)
  have "list_all request_inv ?t"
    using rows unfolding list_all_iff set_sql_update by blast
  moreover have "extends request_step (requests db) ?t"
    unfolding sql_update_def using rows by (intro extends_map) blast
  ultimately show ?thesis
    using inv ids sets open_rows [of "requests db"]
    by (simp add: reg_inv_def evolves_def extends_refl)
qed

lemma preserves_set_indexing_request_shortfall_active [keeps_rows, keeps_registry]:
  "preserves (set_indexing_request_shortfall_active i act)"
proof (rule preservesI)
  fix db a db'
  assume inv: "reg_inv db" and run: "set_indexing_request_shortfall_active i act db = Inr (a, db')"
  let ?P = "\<lambda>r. r_id r = i \<and> r_shortfall_active r \<noteq> act" and ?f = "r_shortfall_active_update (\<lambda>_. act)"
  have "request_step r (?f r) \<and> request_inv (?f r)" if "r \<in> set (requests db)" for r
    using inv that by (auto simp: reg_inv_def list_all_iff request_inv_def request_step_def request_key_def)
  with request_update_inv [OF inv, of ?P ?f] run show "reg_inv db' \<and> evolves db db'"
    by (auto simp: set_indexing_request_shortfall_active_def Let_def)
qed

lemma open_request_absent:
  assumes "List.find (\<lambda>r. request_key r = k \<and> r_status r = Open) t = None"
  shows "k \<notin> request_key ` set (filter (\<lambda>r. r_status r = Open) t)"
  using assms by (auto simp: find_None_iff)

lemma request_insert_inv:
  assumes "reg_inv db" and "request_inv row" and "r_id row \<notin> r_id ` set (requests db)"
    and "request_key row \<notin> request_key ` set (filter (\<lambda>r. r_status r = Open) (requests db))"
  shows "reg_inv (db\<lparr>requests := requests db @ [row]\<rparr>) \<and>
    evolves db (db\<lparr>requests := requests db @ [row]\<rparr>)"
proof -
  have "unique_open (requests db @ [row])"
    using assms by (simp add: reg_inv_def unique_open_def)
  moreover have "a_request_id ` set (agreements db) \<subseteq> insert (r_id row) (r_id ` set (requests db))"
    using assms(1) by (simp add: reg_inv_def subset_insertI2)
  ultimately show ?thesis
    using assms by (simp add: reg_inv_def evolves_def extends_refl extends_append)
qed

lemma preserves_set_indexing_target_candidates [keeps_rows, keeps_registry]:
  "preserves (set_indexing_target_candidates now new_id who deployment chain n)"
proof (rule preservesI)
  fix db :: registry and a db'
  let ?k = "(who, deployment, chain)"
  let ?find = "List.find (\<lambda>r. request_key r = ?k \<and> r_status r = Open) (requests db)"
  assume inv: "reg_inv db"
    and run: "set_indexing_target_candidates now new_id who deployment chain n db = Inr (a, db')"
  show "reg_inv db' \<and> evolves db db'"
  proof (cases ?find)
    case None
    let ?row = "\<lparr>r_id = new_id, r_created_at = now, r_updated_at = now, r_status = Open,
      r_requested_by = who, r_deployment_id = deployment, r_deployment_chain_id = chain,
      r_num_candidates = n, r_shortfall_active = False\<rparr>"
    have "request_key ?row = ?k" by (simp add: request_key_def)
    with open_request_absent [OF None] request_insert_inv [OF inv, of ?row] inv run None
    show ?thesis
      by (auto simp: set_indexing_target_candidates_def evolves_refl request_inv_def split: if_splits)
  next
    case (Some row)
    then have row: "row \<in> set (requests db)" "r_status row = Open"
      by (auto simp: find_Some_iff)
    have same: "r = row" if "r \<in> set (requests db)" "r_id r = r_id row" for r
      using inv row that by (auto simp: reg_inv_def dest: distinct_map_keyD)
    let ?P = "\<lambda>r. r_id r = r_id row"
    have "request_step row (row\<lparr>r_status := Canceled, r_updated_at := now\<rparr>) \<and>
      request_inv (row\<lparr>r_status := Canceled, r_updated_at := now\<rparr>)"
      using inv row by (auto simp: reg_inv_def list_all_iff request_inv_def request_step_def request_key_def)
    moreover have "0 < n \<Longrightarrow> request_step row (row\<lparr>r_num_candidates := n, r_updated_at := now\<rparr>) \<and>
      request_inv (row\<lparr>r_num_candidates := n, r_updated_at := now\<rparr>)"
      using row by (auto simp: request_inv_def request_step_def request_key_def)
    ultimately show ?thesis
      using run Some inv same request_update_inv [OF inv, of ?P "\<lambda>r. r\<lparr>r_status := Canceled, r_updated_at := now\<rparr>"]
        request_update_inv [OF inv, of ?P "\<lambda>r. r\<lparr>r_num_candidates := n, r_updated_at := now\<rparr>"]
      by (auto simp: set_indexing_target_candidates_def evolves_refl split: if_splits)
  qed
qed

lemma preserves_register_new_indexing_agreement [keeps_rows, keeps_registry]:
  "preserves (register_new_indexing_agreement now p)"
  by (rule preservesI)
    (auto simp: register_new_indexing_agreement_def reg_inv_def evolves_def extends_refl
      extends_append row_inv_def new_agreement_row_def i32_max_def split: if_splits)

lemma pending_update_inv:
  assumes "reg_inv db" and "distinct t"
    and "set t \<subseteq> set (pending_cancellations db) \<union>
      {p. {pc_new_agreement_id p, pc_old_agreement_id p} \<subseteq> a_id ` set (agreements db)}"
  shows "reg_inv (db\<lparr>pending_cancellations := t\<rparr>) \<and> evolves db (db\<lparr>pending_cancellations := t\<rparr>)"
proof -
  have "pc_new_agreement_id ` set (pending_cancellations db) \<subseteq> a_id ` set (agreements db)"
    "pc_old_agreement_id ` set (pending_cancellations db) \<subseteq> a_id ` set (agreements db)"
    using assms(1) by (simp_all add: reg_inv_def)
  with assms(3) have "pc_new_agreement_id ` set t \<subseteq> a_id ` set (agreements db)"
    "pc_old_agreement_id ` set t \<subseteq> a_id ` set (agreements db)"
    by blast+
  with assms(1,2) show ?thesis
    by (simp add: reg_inv_def evolves_def extends_refl)
qed

lemma preserves_insert_pending_cancellation [keeps_rows]:
  "preserves (insert_pending_cancellation new_id old_id)"
proof (rule preservesI)
  fix db a db'
  let ?row = "\<lparr>pc_new_agreement_id = new_id, pc_old_agreement_id = old_id\<rparr>"
  assume inv: "reg_inv db" and run: "insert_pending_cancellation new_id old_id db = Inr (a, db')"
  then have "distinct (pending_cancellations db)" by (simp add: reg_inv_def)
  with run inv pending_update_inv [OF inv, of "pending_cancellations db @ [?row]"]
  show "reg_inv db' \<and> evolves db db'"
    by (cases "{new_id, old_id} \<subseteq> a_id ` set (agreements db)")
      (simp_all add: insert_pending_cancellation_def Let_def evolves_refl subsetI split: if_splits)
qed

lemma preserves_register_agreement_with_pending_cancellation [keeps_rows, keeps_registry]:
  "preserves (register_agreement_with_pending_cancellation now p old_id)"
  unfolding register_agreement_with_pending_cancellation_def by (intro keeps_rows)

lemma preserves_delete_pending:
  "preserves (\<lambda>db. Inr ((), db\<lparr>pending_cancellations := filter Q (pending_cancellations db)\<rparr>))"
proof (rule preservesI)
  fix db a db'
  assume inv: "reg_inv db"
    and run: "Inr ((), db\<lparr>pending_cancellations := filter Q (pending_cancellations db)\<rparr>) = Inr (a, db')"
  have "distinct (filter Q (pending_cancellations db))"
    using inv by (simp add: reg_inv_def)
  from pending_update_inv [OF inv this] run show "reg_inv db' \<and> evolves db db'"
    by (simp add: le_supI1 filter_is_subset)
qed

lemma preserves_delete_pending_cancellations [keeps_rows, keeps_registry]:
  "preserves (delete_pending_cancellations_by_new_agreement new_id)"
  "preserves (delete_pending_cancellation new_id old_id)"
  unfolding delete_pending_cancellations_by_new_agreement_def delete_pending_cancellation_def
  by (rule preserves_delete_pending)+

lemma preserves_record_dips_info_checks [keeps_rows, keeps_registry]:
  "preserves (record_dips_info_checks now missing added_secs)"
proof (rule preservesI)
  fix db a db'
  assume inv: "reg_inv db" and run: "record_dips_info_checks now missing added_secs db = Inr (a, db')"
  define t' where "t' = sql_update (\<lambda>_. True)
      (\<lambda>r. r\<lparr>dm_missing_secs := dm_missing_secs r + added_secs, dm_updated_at := now\<rparr>)
      (filter (\<lambda>r. dm_indexer_id r \<in> set missing) (dips_info_missing db)) @
    map (\<lambda>i. \<lparr>dm_indexer_id = i, dm_missing_secs = added_secs, dm_updated_at = now, dm_blocked_until = None\<rparr>)
      (filter (\<lambda>i. i \<notin> dm_indexer_id ` set (dips_info_missing db)) missing)"
  have db': "db' = db\<lparr>dips_info_missing := t'\<rparr>" "distinct missing"
    "list_all (\<lambda>r. 0 \<le> dm_missing_secs r \<and> dm_missing_secs r \<le> i64_max) t'"
    using run unfolding record_dips_info_checks_def Let_def t'_def [symmetric]
    by (auto simp: list_all_iff split: if_splits)
  have "map dm_indexer_id t' = filter (\<lambda>i. i \<in> set missing) (map dm_indexer_id (dips_info_missing db)) @
    filter (\<lambda>i. i \<notin> dm_indexer_id ` set (dips_info_missing db)) missing"
    by (simp add: t'_def sql_update_def filter_map comp_def)
  then have "distinct (map dm_indexer_id t')"
    using inv db'(2) by (auto simp: reg_inv_def)
  with db' inv show "reg_inv db' \<and> evolves db db'"
    by (simp add: reg_inv_def evolves_def extends_refl)
qed

interpretation dips_block_write: row_write dm_indexer_id "\<lambda>r. r\<lparr>dm_blocked_until := Some until\<rparr>" for until
  by unfold_locales simp

lemma preserves_block_missing_dips_info [keeps_rows, keeps_registry]:
  "preserves (block_missing_dips_info now ids for_secs)"
proof (rule preservesI)
  fix db a db'
  assume inv: "reg_inv db" and run: "block_missing_dips_info now ids for_secs db = Inr (a, db')"
  let ?t = "dips_info_missing db" and ?f = "\<lambda>r. r\<lparr>dm_blocked_until := Some (now + secs for_secs)\<rparr>"
  have "list_all (\<lambda>r. 0 \<le> dm_missing_secs r \<and> dm_missing_secs r \<le> i64_max) (sql_update P ?f ?t)" for P
    using inv by (auto simp: reg_inv_def list_all_iff set_sql_update)
  moreover have "db' = db\<lparr>dips_info_missing := sql_update (\<lambda>r. dm_indexer_id r \<in> set ids) ?f ?t\<rparr>"
    using run by (simp add: block_missing_dips_info_def Let_def)
  ultimately show "reg_inv db' \<and> evolves db db'"
    using inv by (simp add: reg_inv_def evolves_def extends_refl dips_block_write.keys_kept)
qed

lemma preserves_update_chain_listener_state [keeps_rows, keeps_registry]:
  "preserves (update_chain_listener_state now chain block last_id ts)"
proof (rule preservesI)
  fix db a db'
  assume inv: "reg_inv db"
    and run: "update_chain_listener_state now chain block last_id ts db = Inr (a, db')"
  define row where "row = \<lparr>ls_chain_id = as_i64 chain, ls_last_processed_block = as_i64 block,
      ls_last_processed_id = last_id, ls_last_processed_block_timestamp = map_option as_i64 ts,
      ls_updated_at = now\<rparr>"
  define t where "t = (if as_i64 chain \<in> ls_chain_id ` set (listener_states db)
      then sql_update (\<lambda>r. ls_chain_id r = as_i64 chain) (\<lambda>_. row) (listener_states db)
      else listener_states db @ [row])"
  have "map ls_chain_id (sql_update (\<lambda>r. ls_chain_id r = as_i64 chain) (\<lambda>_. row) u) = map ls_chain_id u"
    for u by (induction u) (auto simp: row_def)
  then have "distinct (map ls_chain_id t)"
    using inv by (auto simp: t_def reg_inv_def row_def)
  moreover have "db' = db\<lparr>listener_states := t\<rparr>"
    using run unfolding update_chain_listener_state_def Let_def row_def [symmetric] t_def by simp
  ultimately show "reg_inv db' \<and> evolves db db'"
    using inv by (simp add: reg_inv_def evolves_def extends_refl)
qed

section \<open>The step relation\<close>

text \<open>
  One step is one committed write, by whichever service ran it and in whichever order: the
  services share nothing but the database. Nothing in the program writes the denylist; operators
  do.
\<close>

inductive registry_step :: "registry \<Rightarrow> registry \<Rightarrow> bool" where
  "set_indexing_target_candidates now new_id who deployment chain n db = Inr (oc, db') \<Longrightarrow>
    registry_step db db'"
| "set_indexing_request_shortfall_active rid act db = Inr (b, db') \<Longrightarrow> registry_step db db'"
| "register_new_indexing_agreement now p db = Inr (j, db') \<Longrightarrow> registry_step db db'"
| "register_agreement_with_pending_cancellation now p old_id db = Inr (j, db') \<Longrightarrow>
    registry_step db db'"
| "delete_pending_cancellations_by_new_agreement i db = Inr (u, db') \<Longrightarrow> registry_step db db'"
| "delete_pending_cancellation i old_id db = Inr (u, db') \<Longrightarrow> registry_step db db'"
| "mark_indexing_agreement_as_unresponsive now i db = Inr (u, db') \<Longrightarrow> registry_step db db'"
| "mark_indexing_agreement_as_expired now i db = Inr (u, db') \<Longrightarrow> registry_step db db'"
| "mark_indexing_agreement_as_rejected now i reason db = Inr (u, db') \<Longrightarrow> registry_step db db'"
| "mark_indexing_agreement_as_canceled_by_requester now i db = Inr (u, db') \<Longrightarrow> registry_step db db'"
| "mark_indexing_agreement_as_abandoned_by_indexer now i db = Inr (u, db') \<Longrightarrow> registry_step db db'"
| "mark_indexing_agreement_as_cancelling now i db = Inr (u, db') \<Longrightarrow> registry_step db db'"
| "mark_indexing_agreement_as_abandoning now i db = Inr (u, db') \<Longrightarrow> registry_step db db'"
| "reopen_indexing_agreement_cancel now i live db = Inr (ec, db') \<Longrightarrow> registry_step db db'"
| "update_offer_tx_hash now i h db = Inr (u, db') \<Longrightarrow> registry_step db db'"
| "record_cancel_check now i failed ended db = Inr (k, db') \<Longrightarrow> registry_step db db'"
| "apply_reconciliation now i accept cancel db = Inr (out, db') \<Longrightarrow> registry_step db db'"
| "apply_reconciliation_batch now items db = Inr (outs, db') \<Longrightarrow> registry_step db db'"
| "record_accepted_audit i at tx db = Inr (u, db') \<Longrightarrow> registry_step db db'"
| "record_cancel_audit i at whom end_tx db = Inr (ec, db') \<Longrightarrow> registry_step db db'"
| "record_accept_and_cancel_audit i at tx end_at whom end_tx db = Inr (ec, db') \<Longrightarrow>
    registry_step db db'"
| "mark_terminated_event_emitted now i db = Inr (u, db') \<Longrightarrow> registry_step db db'"
| "mark_accepted_event_emitted now i db = Inr (u, db') \<Longrightarrow> registry_step db db'"
| "mark_expired_event_emitted now i db = Inr (u, db') \<Longrightarrow> registry_step db db'"
| "mark_replacement_queued i db = Inr (u, db') \<Longrightarrow> registry_step db db'"
| "update_agreement_sync_progress i height progress db = Inr (u, db') \<Longrightarrow> registry_step db db'"
| "record_dips_info_checks now missing added db = Inr (checks, db') \<Longrightarrow> registry_step db db'"
| "block_missing_dips_info now ixs for_secs db = Inr (blocked, db') \<Longrightarrow> registry_step db db'"
| "update_chain_listener_state now net block last_id ts db = Inr (u, db') \<Longrightarrow> registry_step db db'"
| "registry_step db (db\<lparr>denylist := deny\<rparr>)"

definition empty_registry :: registry where
  "empty_registry = \<lparr>agreements = [], requests = [], pending_cancellations = [], denylist = [],
     dips_info_missing = [], listener_states = []\<rparr>"

definition reachable :: "registry \<Rightarrow> bool" where
  "reachable db \<longleftrightarrow> registry_step\<^sup>*\<^sup>* empty_registry db"

lemmas registry_writes = keeps_registry [THEN preservesD]

lemma registry_step_preserves: "registry_step db db' \<Longrightarrow> reg_inv db \<Longrightarrow> reg_inv db' \<and> evolves db db'"
proof (induction rule: registry_step.induct)
  case (30 db deny)
  then show ?case by (simp add: reg_inv_def evolves_def extends_refl)
qed (blast dest: registry_writes)+

interpretation registry_system: monotone_system
  "\<lambda>db. db = empty_registry" registry_step reg_inv evolves
proof
  show "reg_inv db" if "db = empty_registry" for db
    using that by (simp add: reg_inv_def empty_registry_def unique_active_def unique_open_def)
qed (use registry_step_preserves evolves_refl evolves_trans in blast)+

lemma evolved_row:
  assumes "reg_inv db" and "reg_inv db'" and "evolves db db'" and "find_row a_id i (agreements db) = Some r"
  obtains r' where "find_row a_id i (agreements db') = Some r'" and "row_step r r'"
proof -
  from assms(4) have r: "r \<in> set (agreements db)" "a_id r = i" by (auto dest: find_row_SomeD)
  with assms(3) obtain r' where r': "r' \<in> set (agreements db')" "row_step r r'"
    unfolding evolves_def by (blast dest: extends_memD)
  with r(2) have "a_id r' = i" by (simp add: row_step_def same_identity_def)
  with r'(1) assms(2) have "find_row a_id i (agreements db') = Some r'"
    by (simp add: find_row_iff reg_inv_def)
  with r'(2) that show thesis by blast
qed

section \<open>Sample registry\<close>

text \<open>One request and one agreement, used to instantiate the properties below.\<close>

definition sample_terms :: agreement_terms where
  "sample_terms = \<lparr>t_payer = 1, t_service_provider = 2, t_data_service = 3, t_deadline = 1000,
     t_ends_at = 2000, t_max_initial_tokens = 0, t_max_ongoing_tokens_per_second = 5,
     t_min_seconds_per_collection = 60, t_max_seconds_per_collection = 600, t_conditions = 0,
     t_metadata = \<lparr>m_tokens_per_second = 5, m_tokens_per_entity_per_second = 1,
       m_subgraph_deployment_id = 7, m_protocol_network = 42161,
       m_chain_id = 1, m_proposed_at = 10\<rparr>\<rparr>"

definition sample_id :: agreement_id where
  "sample_id = AgreementId (replicate 16 1)"

definition sample_params :: new_agreement_params where
  "sample_params = \<lparr>na_agreement_id = sample_id, na_nonce_uuid = 9, na_request_id = 4,
     na_deployment_id = 7, na_indexer_id = 2, na_indexer_url = ''http://ix'',
     na_terms = sample_terms, na_terms_version_hash = Some (replicate 32 7)\<rparr>"

definition sample_request :: request_row where
  "sample_request = \<lparr>r_id = 4, r_created_at = 0, r_updated_at = 0, r_status = Open,
     r_requested_by = 1, r_deployment_id = 7, r_deployment_chain_id = 1,
     r_num_candidates = 3, r_shortfall_active = False\<rparr>"

definition sample_registry :: "agreement_status \<Rightarrow> registry" where
  "sample_registry s = empty_registry\<lparr>requests := [sample_request],
     agreements := [(new_agreement_row 0 sample_params)\<lparr>a_status := s\<rparr>]\<rparr>"

lemmas sample_defs = sample_registry_def sample_request_def sample_params_def sample_id_def
  sample_terms_def new_agreement_row_def empty_registry_def

lemma sample_created: "reachable (sample_registry Created)"
proof -
  let ?db = "empty_registry\<lparr>requests := [sample_request]\<rparr>"
  have "set_indexing_target_candidates 0 4 1 7 1 3 empty_registry = Inr (Inserted 4, ?db)"
    by (simp add: set_indexing_target_candidates_def sample_defs)
  then have "registry_step empty_registry ?db" by (rule registry_step.intros)
  moreover have "register_new_indexing_agreement 0 sample_params ?db =
      Inr (sample_id, sample_registry Created)"
    by (simp add: register_new_indexing_agreement_def unique_active_def i64_max_def sample_defs)
  then have "registry_step ?db (sample_registry Created)" by (rule registry_step.intros)
  ultimately show ?thesis
    unfolding reachable_def by (meson rtranclp.intros)
qed

lemma reachable_step: "reachable db \<Longrightarrow> registry_step db db' \<Longrightarrow> reachable db'"
  unfolding reachable_def by (rule rtranclp.rtrancl_into_rtrancl)

lemma sample_unresponsive_step: "registry_step (sample_registry Created)
    ((sample_registry Unresponsive)\<lparr>agreements := [(new_agreement_row 0 sample_params)
      \<lparr>a_status := Unresponsive, a_updated_at := 5\<rparr>]\<rparr>)"
  by (rule registry_step.intros(7) [of 5 sample_id])
    (simp add: mark_indexing_agreement_as_unresponsive_def any_row_def some_row_def tx_bind_def
      update_status_def Let_def unique_active_def active_def sql_returning_def sample_defs)

section \<open>Properties\<close>

text \<open>
  C1: in every registry the program can reach, whatever the order in which its services commit
  their writes, the keys are unique, no indexer has two open agreements on a deployment, statuses
  are known, an abandoned agreement is on its way out or over, a replacement is owed only for an
  abandoned one, retry counts and deadlines stay in their columns' range, and every reference
  between tables resolves.
\<close>

theorem registry_invariant: "reachable db \<Longrightarrow> reg_inv db"
  unfolding reachable_def by (rule registry_system.reachable_inv [OF refl])

theorem registry_invariant_witness:
  "reachable (sample_registry Created) \<and> agreements (sample_registry Created) \<noteq> [] \<and>
   reg_inv (sample_registry Created)"
  using registry_invariant [OF sample_created] sample_created by (simp add: sample_registry_def)







text \<open>
  C5: a request is never deleted, its id, requester, deployment and chain never change, a canceled
  one never opens again, and its target is always positive.
\<close>

theorem requests_are_kept:
  assumes "reachable db" and "registry_step\<^sup>*\<^sup>* db db'" and "q \<in> set (requests db)"
  shows "\<exists>q' \<in> set (requests db'). r_id q' = r_id q \<and> request_key q' = request_key q \<and>
    r_created_at q' = r_created_at q \<and> 0 < r_num_candidates q' \<and>
    (r_status q = Canceled \<longrightarrow> r_status q' = Canceled)"
proof -
  from assms(1) have inv: "reg_inv db"
    unfolding reachable_def by (rule registry_system.reachable_inv [OF refl])
  from registry_system.steps_grow [OF assms(2) inv] assms(3) obtain q' where
    q': "q' \<in> set (requests db')" "request_step q q'"
    unfolding evolves_def by (blast dest: extends_memD)
  moreover from registry_system.steps_inv [OF assms(2) inv] q'(1) have "request_inv q'"
    by (simp add: reg_inv_def list_all_iff)
  ultimately show ?thesis by (auto simp: request_step_def request_inv_def)
qed

theorem requests_are_kept_witness:
  "sample_request \<in> set (requests (sample_registry Created)) \<and>
   (\<exists>q' \<in> set (requests (sample_registry Created)). r_id q' = r_id sample_request)"
  using requests_are_kept [OF sample_created rtranclp.rtrancl_refl, of sample_request]
  by (simp add: sample_registry_def)

end
