(* ===== verification/Registry_Queries.thy ===== *)
theory Registry_Queries
  imports Registry_Safety "HOL-Library.Log_Nat"
begin

text \<open>
  The reads of \<open>dipper-pgregistry/src/postgres.rs\<close>. A query is a function of the registry and, where
  it compares with \<open>now()\<close>, of the time; it has an error only through a bare \<open>LIMIT\<close>, which refuses
  a negative number. \<open>GROUP BY\<close> gives a partial map. Deadlines are compared as integers: a stored
  deadline is below \<open>2 ^ 63\<close>, so its cast to \<open>bigint\<close> never fails.
\<close>

definition sql_limit :: "int \<Rightarrow> 'r list \<Rightarrow> error + 'r list" where
  "sql_limit n rows = (if n < 0 then Inl (DbError NegativeLimit) else Inr (take (nat n) rows))"

definition map_rows :: "('r \<Rightarrow> 's) \<Rightarrow> error + 'r list \<Rightarrow> error + 's list" where
  "map_rows f q = (case q of Inl e \<Rightarrow> Inl e | Inr rows \<Rightarrow> Inr (map f rows))"

definition group_rows :: "('r \<Rightarrow> 'k) \<Rightarrow> ('r list \<Rightarrow> 'v) \<Rightarrow> 'r list \<Rightarrow> 'k \<Rightarrow> 'v option" where
  "group_rows key agg rows k =
     (case filter (\<lambda>r. key r = k) rows of [] \<Rightarrow> None | r # rs \<Rightarrow> Some (agg (r # rs)))"

abbreviation "deadline_secs r \<equiv> uint (t_deadline (a_terms r))"

section \<open>Requests\<close>

definition get_all_indexing_requests :: "registry \<Rightarrow> indexing_request list" where
  "get_all_indexing_requests db = map request_from_row (requests db)"

definition get_indexing_request_by_id :: "request_id \<Rightarrow> registry \<Rightarrow> indexing_request option" where
  "get_indexing_request_by_id i db = map_option request_from_row (find_row r_id i (requests db))"

definition get_indexing_requests_by_deployment_id :: "deployment_id \<Rightarrow> registry \<Rightarrow> indexing_request list" where
  "get_indexing_requests_by_deployment_id d db =
     map request_from_row (filter (\<lambda>r. r_deployment_id r = d) (requests db))"

definition get_open_indexing_requests_for_reassessment :: "timestamp \<Rightarrow> int \<Rightarrow> int \<Rightarrow> registry \<Rightarrow>
    indexing_request list" where
  "get_open_indexing_requests_for_reassessment now min_age_seconds batch_size db =
     map request_from_row (limit_if_positive batch_size (sort_key r_updated_at
       (filter (\<lambda>r. r_status r = Open \<and> r_created_at r < now - secs min_age_seconds) (requests db))))"

definition get_short_requests_on_deployments_with_ended_agreements :: "timestamp \<Rightarrow> int \<Rightarrow> int \<Rightarrow>
    registry \<Rightarrow> error + indexing_request list" where
  "get_short_requests_on_deployments_with_ended_agreements now since_seconds batch_size db =
     map_rows request_from_row (sql_limit batch_size (sort_key r_updated_at
       (filter (\<lambda>r. r_status r = Open \<and> r_shortfall_active r \<and>
          (\<exists>a \<in> set (agreements db). a_deployment_id a = r_deployment_id r \<and>
             a_status a = CanceledByRequester \<and> a_updated_at a \<ge> now - secs since_seconds))
        (requests db))))"

definition get_short_open_indexing_requests :: "int \<Rightarrow> registry \<Rightarrow> indexing_request list" where
  "get_short_open_indexing_requests batch_size db =
     map request_from_row (limit_if_positive batch_size (sort_key r_updated_at
       (filter (\<lambda>r. r_status r = Open \<and> r_shortfall_active r) (requests db))))"

section \<open>Agreements\<close>

definition get_active_indexing_agreements_by_indexing_request_id :: "request_id \<Rightarrow> registry \<Rightarrow>
    indexing_agreement list" where
  "get_active_indexing_agreements_by_indexing_request_id i db =
     map agreement_from_row (filter (\<lambda>r. a_request_id r = i \<and> a_status r \<in> {Created, AcceptedOnChain})
       (agreements db))"

definition count_accepted_agreements_by_deployment :: "deployment_id \<Rightarrow> registry \<Rightarrow> nat" where
  "count_accepted_agreements_by_deployment d db =
     length (filter (\<lambda>r. a_deployment_id r = d \<and> a_status r = AcceptedOnChain) (agreements db))"

definition get_indexing_agreement_by_id :: "agreement_id \<Rightarrow> registry \<Rightarrow> indexing_agreement option" where
  "get_indexing_agreement_by_id i db = map_option agreement_from_row (find_row a_id i (agreements db))"

definition get_indexing_agreements_by_ids :: "agreement_id list \<Rightarrow> registry \<Rightarrow> agreement_id \<Rightarrow>
    indexing_agreement option" where
  "get_indexing_agreements_by_ids ids db =
     map_of (map (\<lambda>r. (a_id r, agreement_from_row r)) (filter (\<lambda>r. a_id r \<in> set ids) (agreements db)))"

definition get_indexing_agreements_by_deployment_id :: "deployment_id \<Rightarrow> registry \<Rightarrow>
    indexing_agreement list" where
  "get_indexing_agreements_by_deployment_id d db =
     map agreement_from_row (filter (\<lambda>r. a_deployment_id r = d) (agreements db))"

definition get_indexing_agreements_by_indexer_id :: "indexer_id \<Rightarrow> registry \<Rightarrow>
    indexing_agreement list" where
  "get_indexing_agreements_by_indexer_id x db =
     map agreement_from_row (filter (\<lambda>r. a_indexer_id r = x) (agreements db))"

definition get_indexing_agreements_by_indexing_request_id :: "request_id \<Rightarrow> registry \<Rightarrow>
    indexing_agreement list" where
  "get_indexing_agreements_by_indexing_request_id i db =
     map agreement_from_row (filter (\<lambda>r. a_request_id r = i) (agreements db))"

definition get_pending_agreement_indexers_by_deployment :: "indexer_id list \<Rightarrow> registry \<Rightarrow>
    deployment_id \<Rightarrow> indexer_id list option" where
  "get_pending_agreement_indexers_by_deployment ids db =
     group_rows a_deployment_id (map a_indexer_id)
       (filter (\<lambda>r. a_indexer_id r \<in> set ids \<and> a_status r \<in> {Created, AcceptedOnChain}) (agreements db))"

section \<open>Declined and unresponsive indexers\<close>

definition transient_reasons :: "string list" where
  "transient_reasons = [DEADLINE_EXPIRED, SUBGRAPH_MANIFEST_UNAVAILABLE, UNEXPECTED_SERVICE_PROVIDER,
     AGREEMENT_EXPIRED, UNSUPPORTED_METADATA_VERSION, CAPACITY_EXCEEDED, INDEXER_UNAVAILABLE,
     INVALID_SIGNATURE, REPLAY_DETECTED]"

definition uncertain_reasons :: "string list" where
  "uncertain_reasons = [SENDER_NOT_TRUSTED, UNSPECIFIED]"

text \<open>\<open>rejection_reason = ...\<close> and \<open>rejection_reason IN (...)\<close>: unknown when there is no reason.\<close>

definition reason_in :: "string list \<Rightarrow> agreement_row \<Rightarrow> sqlbool" where
  "reason_in reasons r = map_option (\<lambda>s. s \<in> set reasons) (a_rejection_reason r)"

definition unoffered_expiry :: "agreement_row \<Rightarrow> bool" where
  "unoffered_expiry r \<longleftrightarrow> a_status r = Expired \<and> a_offer_tx_hash r = None \<and> a_rejection_reason r = None"

definition declined_condition :: "timestamp \<Rightarrow> int \<Rightarrow> int \<Rightarrow> int \<Rightarrow> int \<Rightarrow> agreement_row \<Rightarrow> sqlbool" where
  "declined_condition now default_days price_days transient_minutes uncertain_days r =
     (let since = (\<lambda>window. Some (a_updated_at r \<ge> now - window)) in
      sql_or (sql_and (reason_in [PRICE_TOO_LOW] r) (since (days price_days)))
     (sql_or (sql_and (reason_in transient_reasons r) (since (mins transient_minutes)))
     (sql_or (sql_and (reason_in uncertain_reasons r) (since (days uncertain_days)))
     (sql_or (sql_and (Some (unoffered_expiry r)) (since (mins transient_minutes)))
       (sql_and (Some ((case a_rejection_reason r of None \<Rightarrow> '''' | Some s \<Rightarrow> s) \<notin>
                         set (PRICE_TOO_LOW # transient_reasons @ uncertain_reasons)))
         (sql_and (Some (\<not> unoffered_expiry r)) (since (days default_days))))))))"

definition get_declined_indexers_by_deployment :: "timestamp \<Rightarrow> int \<Rightarrow> int \<Rightarrow> int \<Rightarrow> int \<Rightarrow> registry \<Rightarrow>
    deployment_id \<Rightarrow> indexer_id list option" where
  "get_declined_indexers_by_deployment now default_days price_days transient_minutes uncertain_days db =
     group_rows a_deployment_id (\<lambda>rows. remdups (map a_indexer_id rows))
       (filter (\<lambda>r. a_status r \<in> {CanceledByIndexer, Expired, Rejected, AbandonedByIndexer} \<and>
          is_true (declined_condition now default_days price_days transient_minutes uncertain_days r))
        (agreements db))"

definition get_unresponsive_indexers :: "timestamp \<Rightarrow> int \<Rightarrow> chain_id \<Rightarrow> registry \<Rightarrow> indexer_id list" where
  "get_unresponsive_indexers now lookback_days chain db =
     remdups (map a_indexer_id (filter (\<lambda>a. a_status a = Unresponsive \<and>
       a_updated_at a \<ge> now - days lookback_days \<and>
       (\<exists>r \<in> set (requests db). r_id r = a_request_id a \<and> r_deployment_chain_id r = chain))
       (agreements db)))"

section \<open>Cancelling agreements\<close>

record cancelling_agreement =
  ca_agreement :: indexing_agreement
  ca_accepted_on_chain :: bool
  ca_ended_seen_at :: "timestamp option"
  ca_abandoned :: bool

definition cancelling_from_row :: "agreement_row \<Rightarrow> cancelling_agreement" where
  "cancelling_from_row r = \<lparr>
     ca_agreement = agreement_from_row r,
     ca_accepted_on_chain = (a_accepted_at r \<noteq> None),
     ca_ended_seen_at = a_ended_seen_at r,
     ca_abandoned = a_abandoned r\<rparr>"

text \<open>\<open>EXTRACT(EPOCH FROM now())\<close> has a fraction, so the deadline is scaled to microseconds.\<close>

definition checked_order :: "timestamp \<Rightarrow> agreement_row \<Rightarrow> timestamp" where
  "checked_order now r =
     (case a_cancel_checked_at r of None \<Rightarrow> a_updated_at r | Some t \<Rightarrow> t) -
     (if a_accepted_at r \<noteq> None \<or> secs (deadline_secs r) < now then hours 1 else 0)"

definition cancel_due :: "timestamp \<Rightarrow> int \<Rightarrow> int \<Rightarrow> agreement_row \<Rightarrow> bool" where
  "cancel_due now max_attempts min_age_minutes r \<longleftrightarrow>
     a_status r = Cancelling \<and>
     is_true (sql_or (Some (a_cancel_attempts r < max_attempts))
       (sql_less (a_cancel_checked_at r) (Some (now - hours 1)))) \<and>
     (a_cancel_checked_at r \<noteq> None \<or> a_updated_at r < now - mins min_age_minutes)"

definition get_cancelling_agreements :: "timestamp \<Rightarrow> int \<Rightarrow> u32 \<Rightarrow> int \<Rightarrow> registry \<Rightarrow>
    error + cancelling_agreement list" where
  "get_cancelling_agreements now batch_size max_attempts min_age_minutes db =
     map_rows cancelling_from_row (sql_limit batch_size
       (sort_key (checked_order now) (sort_key a_updated_at
         (filter (cancel_due now (least_i32 (uint max_attempts)) min_age_minutes) (agreements db)))))"

section \<open>Lifecycle events to emit\<close>

record pending_terminated_event =
  pt_agreement_id :: agreement_id
  pt_indexer_id :: indexer_id
  pt_deployment_id :: deployment_id
  pt_protocol_network :: chain_id
  pt_canceled_at :: "u64 option"
  pt_canceled_by :: "string option"
  pt_canceled_tx :: "string option"
  pt_updated_at :: timestamp

definition pending_terminated_from_row :: "agreement_row \<Rightarrow> pending_terminated_event" where
  "pending_terminated_from_row r = \<lparr>
     pt_agreement_id = a_id r,
     pt_indexer_id = a_indexer_id r,
     pt_deployment_id = m_subgraph_deployment_id (t_metadata (a_terms r)),
     pt_protocol_network = m_protocol_network (t_metadata (a_terms r)),
     pt_canceled_at = map_option as_u64 (a_canceled_at r),
     pt_canceled_by = a_canceled_by r,
     pt_canceled_tx = a_canceled_tx r,
     pt_updated_at = a_updated_at r\<rparr>"

record pending_accepted_event =
  pa_agreement_id :: agreement_id
  pa_indexer_id :: indexer_id
  pa_deployment_id :: deployment_id
  pa_protocol_network :: chain_id
  pa_accepted_at :: u64
  pa_accepted_tx :: string
  pa_ends_at :: u64
  pa_payer :: address

text \<open>The query keeps only rows with an \<open>accepted_at\<close>, so the read of that column never fails.\<close>

definition pending_accepted_from_row :: "agreement_row \<Rightarrow> pending_accepted_event" where
  "pending_accepted_from_row r = \<lparr>
     pa_agreement_id = a_id r,
     pa_indexer_id = a_indexer_id r,
     pa_deployment_id = m_subgraph_deployment_id (t_metadata (a_terms r)),
     pa_protocol_network = m_protocol_network (t_metadata (a_terms r)),
     pa_accepted_at = as_u64 (the (a_accepted_at r)),
     pa_accepted_tx = (case a_accepted_tx r of None \<Rightarrow> [] | Some tx \<Rightarrow> tx),
     pa_ends_at = t_ends_at (a_terms r),
     pa_payer = t_payer (a_terms r)\<rparr>"

record pending_expired_event =
  pe_agreement_id :: agreement_id
  pe_indexer_id :: indexer_id
  pe_deployment_id :: deployment_id
  pe_protocol_network :: chain_id
  pe_request_proposed_at :: u64
  pe_request_expired_at :: u64

definition pending_expired_from_row :: "agreement_row \<Rightarrow> pending_expired_event" where
  "pending_expired_from_row r = \<lparr>
     pe_agreement_id = a_id r,
     pe_indexer_id = a_indexer_id r,
     pe_deployment_id = m_subgraph_deployment_id (t_metadata (a_terms r)),
     pe_protocol_network = m_protocol_network (t_metadata (a_terms r)),
     pe_request_proposed_at =
       (if m_proposed_at (t_metadata (a_terms r)) = 0 then as_u64 (max (unix_secs (a_created_at r)) 0)
        else m_proposed_at (t_metadata (a_terms r))),
     pe_request_expired_at = t_deadline (a_terms r)\<rparr>"

definition TERMINATED_TX_WAIT_MINUTES :: int where
  "TERMINATED_TX_WAIT_MINUTES = 60"

definition terminated_due :: "timestamp \<Rightarrow> agreement_row \<Rightarrow> bool" where
  "terminated_due now r \<longleftrightarrow>
     a_status r \<in> {CanceledByRequester, CanceledByIndexer, AbandonedByIndexer} \<and>
     a_accepted_at r \<noteq> None \<and> a_terminated_event_emitted_at r = None \<and>
     (a_canceled_tx r \<noteq> None \<or> a_updated_at r < now - mins TERMINATED_TX_WAIT_MINUTES)"

definition get_agreements_pending_terminated_emission :: "timestamp \<Rightarrow> int \<Rightarrow> registry \<Rightarrow>
    error + pending_terminated_event list" where
  "get_agreements_pending_terminated_emission now limit db =
     map_rows pending_terminated_from_row (sql_limit limit
       (sort_key a_updated_at (filter (terminated_due now) (agreements db))))"

definition get_agreements_pending_accepted_emission :: "int \<Rightarrow> registry \<Rightarrow>
    error + pending_accepted_event list" where
  "get_agreements_pending_accepted_emission limit db =
     map_rows pending_accepted_from_row (sql_limit limit
       (sort_key a_accepted_at (filter (\<lambda>r. a_accepted_at r \<noteq> None \<and>
          a_accepted_event_emitted_at r = None) (agreements db))))"

definition get_agreements_pending_expired_emission :: "int \<Rightarrow> registry \<Rightarrow>
    error + pending_expired_event list" where
  "get_agreements_pending_expired_emission limit db =
     map_rows pending_expired_from_row (sql_limit limit
       (sort_key a_updated_at (filter (\<lambda>r. a_status r = Expired \<and>
          a_expired_event_emitted_at r = None) (agreements db))))"

section \<open>Expiry, liveness, replacement\<close>

definition get_expired_created_agreements :: "int \<Rightarrow> u64 \<Rightarrow> registry \<Rightarrow> indexing_agreement list" where
  "get_expired_created_agreements batch_size chain_timestamp db =
     map agreement_from_row (limit_if_positive batch_size (sort_key deadline_secs
       (filter (\<lambda>r. a_status r = Created \<and> deadline_secs r < as_i64 chain_timestamp) (agreements db))))"

definition stalest_ids :: "int \<Rightarrow> agreement_row list \<Rightarrow> agreement_id list" where
  "stalest_ids batch_size accepted =
     map a_id (limit_if_positive batch_size (sort_key a_last_progress_at accepted))"

definition stalest_per_indexer_ids :: "agreement_row list \<Rightarrow> agreement_id list" where
  "stalest_per_indexer_ids accepted =
     map (\<lambda>x. a_id (hd (sort_key a_last_progress_at (filter (\<lambda>r. a_indexer_id r = x) accepted))))
       (remdups (map a_indexer_id accepted))"

definition get_accepted_on_chain_agreements :: "int \<Rightarrow> registry \<Rightarrow> indexing_agreement list" where
  "get_accepted_on_chain_agreements batch_size db =
     (let accepted = filter (\<lambda>r. a_status r = AcceptedOnChain) (agreements db);
          ids = stalest_ids batch_size accepted @ stalest_per_indexer_ids accepted
      in map agreement_from_row
           (sort_key a_last_progress_at (filter (\<lambda>r. a_id r \<in> set ids) (agreements db))))"

definition get_agreements_pending_chain_cancel :: "int \<Rightarrow> registry \<Rightarrow> indexing_agreement list" where
  "get_agreements_pending_chain_cancel batch_size db =
     map agreement_from_row (limit_if_positive batch_size (sort_key a_updated_at
       (filter (\<lambda>a. a_status a = AcceptedOnChain \<and>
          (\<exists>r \<in> set (requests db). r_id r = a_request_id a \<and> r_status r = Canceled)) (agreements db))))"

definition get_ended_agreements_awaiting_replacement :: "int \<Rightarrow> registry \<Rightarrow>
    error + indexing_agreement list" where
  "get_ended_agreements_awaiting_replacement batch_size db =
     map_rows agreement_from_row (sql_limit batch_size (sort_key a_updated_at
       (filter (\<lambda>r. a_replacement_pending r \<and> a_status r \<noteq> Cancelling) (agreements db))))"

definition get_abandoned_indexers_holding_slots :: "request_id \<Rightarrow> registry \<Rightarrow> indexer_id list" where
  "get_abandoned_indexers_holding_slots i db =
     map a_indexer_id (filter (\<lambda>r. a_request_id r = i \<and> a_status r = Cancelling \<and>
       a_replacement_pending r \<and> a_ended_seen_at r = None) (agreements db))"

section \<open>Counts\<close>

definition count_active_agreements_by_deployment :: "registry \<Rightarrow> deployment_id \<Rightarrow> nat option" where
  "count_active_agreements_by_deployment db =
     group_rows a_deployment_id length
       (filter (\<lambda>r. a_status r \<in> {Created, AcceptedOnChain}) (agreements db))"

definition in_flight_offer :: "timestamp \<Rightarrow> agreement_row \<Rightarrow> bool" where
  "in_flight_offer now r \<longleftrightarrow>
     a_status r = Created \<or>
     (a_status r = Cancelling \<and> a_accepted_at r = None \<and> secs (deadline_secs r) > now)"

definition count_created_agreements_by_indexer :: "timestamp \<Rightarrow> registry \<Rightarrow>
    (indexer_id \<Rightarrow> nat option) \<times> nat" where
  "count_created_agreements_by_indexer now db =
     (let rows = filter (in_flight_offer now) (agreements db)
      in (group_rows a_indexer_id length rows, length rows))"

definition exists_active_agreements :: "registry \<Rightarrow> bool" where
  "exists_active_agreements db \<longleftrightarrow>
     (\<exists>r \<in> set (agreements db). a_status r \<in> {Created, AcceptedOnChain})"

section \<open>Denied indexers\<close>

definition dips_blocked :: "timestamp \<Rightarrow> dips_missing_row \<Rightarrow> bool" where
  "dips_blocked now r \<longleftrightarrow> is_true (sql_less (Some now) (dm_blocked_until r))"

definition get_indexer_denylist :: "timestamp \<Rightarrow> registry \<Rightarrow> indexer_id list" where
  "get_indexer_denylist now db =
     remdups (map dl_indexer_id (filter (\<lambda>r. dl_expires_at r = None \<or>
         is_true (sql_less (Some now) (dl_expires_at r))) (denylist db)) @
       map dm_indexer_id (filter (dips_blocked now) (dips_info_missing db)))"

definition get_indexers_with_accepted_agreements :: "registry \<Rightarrow> indexer_id list" where
  "get_indexers_with_accepted_agreements db =
     remdups (map a_indexer_id (filter (\<lambda>r. a_status r = AcceptedOnChain) (agreements db)))"

definition get_dips_info_blocks :: "timestamp \<Rightarrow> registry \<Rightarrow> indexer_id list" where
  "get_dips_info_blocks now db = map dm_indexer_id (filter (dips_blocked now) (dips_info_missing db))"

section \<open>Fee rates\<close>

text \<open>
  \<open>x.to::<u128>()\<close> panics (here \<open>None\<close>) on a number of more than 128 bits; \<open>as f64\<close> rounds to the
  nearest number with a 53-bit significand, ties to even, and is exact below \<open>2 ^ 53\<close>.
\<close>

definition round_to_f64 :: "nat \<Rightarrow> nat" where
  "round_to_f64 n =
     (if n < 2 ^ 53 then n
      else let e = floorlog 2 n - 53; q = n div 2 ^ e; r = n mod 2 ^ e; half = 2 ^ (e - 1)
           in (if r > half \<or> (r = half \<and> odd q) then q + 1 else q) * 2 ^ e)"

definition rate_to_f64 :: "u256 \<Rightarrow> nat option" where
  "rate_to_f64 w = (if unat w < 2 ^ 128 then Some (round_to_f64 (unat w)) else None)"

record fee_rate =
  fr_agreement_id :: agreement_id
  fr_indexer_id :: indexer_id
  fr_deployment_id :: deployment_id
  fr_base_rate :: nat
  fr_entity_rate :: nat

definition fee_rate_from_row :: "agreement_row \<Rightarrow> fee_rate option" where
  "fee_rate_from_row r =
     (let meta = t_metadata (a_terms r) in
      case (rate_to_f64 (m_tokens_per_second meta), rate_to_f64 (m_tokens_per_entity_per_second meta)) of
        (Some base, Some entity) \<Rightarrow> Some \<lparr>fr_agreement_id = a_id r, fr_indexer_id = a_indexer_id r,
          fr_deployment_id = m_subgraph_deployment_id meta, fr_base_rate = base, fr_entity_rate = entity\<rparr>
      | _ \<Rightarrow> None)"

fun all_or_panic :: "'a option list \<Rightarrow> 'a list option" where
  "all_or_panic [] = Some []"
| "all_or_panic (None # xs) = None"
| "all_or_panic (Some x # xs) = map_option (Cons x) (all_or_panic xs)"

definition get_agreement_fee_rates :: "registry \<Rightarrow> fee_rate list option" where
  "get_agreement_fee_rates db =
     all_or_panic (map fee_rate_from_row
       (filter (\<lambda>r. a_status r \<in> {Created, AcceptedOnChain, Cancelling}) (agreements db)))"

section \<open>Listener state and pending cancellations\<close>

record chain_listener_state_row =
  cl_chain_id :: u64
  cl_last_processed_block :: u64
  cl_last_processed_id :: "agreement_id option"
  cl_last_processed_block_timestamp :: "u64 option"

definition get_chain_listener_state :: "u64 \<Rightarrow> registry \<Rightarrow> chain_listener_state_row option" where
  "get_chain_listener_state chain db =
     map_option (\<lambda>r. \<lparr>cl_chain_id = as_u64 (ls_chain_id r),
         cl_last_processed_block = as_u64 (ls_last_processed_block r),
         cl_last_processed_id = ls_last_processed_id r,
         cl_last_processed_block_timestamp = map_option as_u64 (ls_last_processed_block_timestamp r)\<rparr>)
       (find_row ls_chain_id (as_i64 chain) (listener_states db))"

definition get_pending_cancellations_by_new_agreement :: "agreement_id \<Rightarrow> registry \<Rightarrow> agreement_id list" where
  "get_pending_cancellations_by_new_agreement i db =
     map pc_old_agreement_id (filter (\<lambda>p. pc_new_agreement_id p = i) (pending_cancellations db))"

definition list_executable_pending_cancellations :: "int \<Rightarrow> registry \<Rightarrow> error + agreement_id list" where
  "list_executable_pending_cancellations limit db =
     sql_limit limit (sort (remdups (map pc_new_agreement_id
       (filter (\<lambda>p. \<exists>a \<in> set (agreements db). a_id a = pc_new_agreement_id p \<and>
          a_status a = AcceptedOnChain) (pending_cancellations db)))))"

end
