(* ===== verification/Job_Queue.thy ===== *)
theory Job_Queue
  imports Sql "HOL-Library.Product_Lexorder"
begin

text \<open>
  The crate \<open>dipper-pgmq\<close>: a message queue in one Postgres table. The state is the committed table,
  the ids whose row an open transaction has locked, and the notifications sent. A popped job is a
  guard that owns its transaction: until the guard settles it the row is committed as it was and
  locked, so that other workers skip it; dropping the guard rolls the transaction back. Descriptors
  are a type parameter, and the ids (UUIDs of version 7) are an argument of a push.
\<close>

section \<open>Jobs\<close>

datatype job_priority = Sweep | Background | Interactive

fun priority_code :: "job_priority \<Rightarrow> int" where
  "priority_code Sweep = - 1"
| "priority_code Background = 0"
| "priority_code Interactive = 1"

definition priority_from_i16 :: "int \<Rightarrow> job_priority" where
  "priority_from_i16 v = (if v \<le> - 1 then Sweep else if v = 0 then Background else Interactive)"

datatype job_status = Queued | Running | Failed

fun job_status_code :: "job_status \<Rightarrow> int" where
  "job_status_code Queued = 0"
| "job_status_code Running = - 1"
| "job_status_code Failed = 1"

definition job_status_from_i32 :: "int \<Rightarrow> job_status" where
  "job_status_from_i32 v = (if v \<le> - 1 then Running else if v = 0 then Queued else Failed)"

type_synonym job_id = uuid

record 'd job_row =
  j_id :: job_id
  j_created_at :: timestamp
  j_updated_at :: timestamp
  j_scheduled_for :: timestamp
  j_status :: job_status
  j_max_attempts :: int
  j_attempt_count :: int
  j_priority :: job_priority
  j_descriptor :: 'd

record 'd job_queue =
  jobs :: "'d job_row list"
  locked :: "job_id list"
  notified :: "job_id list"

record 'd job_inner =
  ji_id :: job_id
  ji_created_at :: timestamp
  ji_updated_at :: timestamp
  ji_desc :: 'd
  ji_max_attempts :: u32
  ji_failed_attempts :: u32

datatype queue_error = DuplicateJob | AttemptOverflow

section \<open>Statements\<close>

definition job_push :: "timestamp \<Rightarrow> job_id \<Rightarrow> 'd \<Rightarrow> int \<Rightarrow> job_priority \<Rightarrow> 'd job_queue \<Rightarrow>
    queue_error + 'd job_queue" where
  "job_push now i desc max_attempts priority q =
     (if i \<in> j_id ` set (jobs q) then Inl DuplicateJob
      else Inr (q\<lparr>jobs := jobs q @ [\<lparr>j_id = i, j_created_at = now, j_updated_at = now,
        j_scheduled_for = now, j_status = Queued, j_max_attempts = max_attempts, j_attempt_count = 0,
        j_priority = priority, j_descriptor = desc\<rparr>]\<rparr>))"

definition push_scheduled :: "timestamp \<Rightarrow> job_id \<Rightarrow> 'd \<Rightarrow> int \<Rightarrow> timestamp \<Rightarrow> job_priority \<Rightarrow>
    'd job_queue \<Rightarrow> queue_error + 'd job_queue" where
  "push_scheduled now i desc max_attempts scheduled_for priority q =
     (if i \<in> j_id ` set (jobs q) then Inl DuplicateJob
      else Inr (q\<lparr>jobs := jobs q @ [\<lparr>j_id = i, j_created_at = now, j_updated_at = now,
        j_scheduled_for = scheduled_for, j_status = Queued, j_max_attempts = max_attempts,
        j_attempt_count = 0, j_priority = priority, j_descriptor = desc\<rparr>]\<rparr>))"

definition send_job_available_notification :: "job_id \<Rightarrow> 'd job_queue \<Rightarrow> 'd job_queue" where
  "send_job_available_notification i q = q\<lparr>notified := notified q @ [i]\<rparr>"

definition eligible :: "timestamp \<Rightarrow> 'd job_queue \<Rightarrow> 'd job_row \<Rightarrow> bool" where
  "eligible now q r \<longleftrightarrow> j_status r = Queued \<and> j_scheduled_for r \<le> now \<and> j_id r \<notin> set (locked q)"

text \<open>\<open>ORDER BY priority DESC, created_at, id\<close>.\<close>

definition pop_order :: "'d job_row \<Rightarrow> int \<times> timestamp \<times> job_id" where
  "pop_order r = (- priority_code (j_priority r), j_created_at r, j_id r)"

definition next_job :: "timestamp \<Rightarrow> 'd job_queue \<Rightarrow> 'd job_row option" where
  "next_job now q =
     (case sort_key pop_order (filter (eligible now q) (jobs q)) of [] \<Rightarrow> None | r # _ \<Rightarrow> Some r)"

definition unfinished_descriptors :: "'d job_queue \<Rightarrow> 'd list" where
  "unfinished_descriptors q =
     map j_descriptor (filter (\<lambda>r. j_status r \<in> {Queued, Running}) (jobs q))"

definition job_remove :: "job_id \<Rightarrow> 'd job_queue \<Rightarrow> 'd job_queue" where
  "job_remove i q = q\<lparr>jobs := filter (\<lambda>r. j_id r \<noteq> i) (jobs q)\<rparr>"

text \<open>
  The columns of a re-queued row. The sum is an \<open>INT\<close>, so counting past its range is an error.
\<close>

definition requeued_row :: "timestamp \<Rightarrow> timestamp \<Rightarrow> bool \<Rightarrow> 'd job_row \<Rightarrow> 'd job_row" where
  "requeued_row now scheduled_for count_attempt r =
     (let increment = (if count_attempt then 1 else 0) in r\<lparr>
        j_updated_at := now,
        j_attempt_count := j_attempt_count r + increment,
        j_status := (if increment = (1::int) \<and> j_attempt_count r + 1 \<ge> j_max_attempts r then Failed else Queued),
        j_scheduled_for := (if increment = 0 \<or> j_attempt_count r + 1 < j_max_attempts r
                            then scheduled_for else j_scheduled_for r)\<rparr>)"

definition requeue :: "timestamp \<Rightarrow> job_id \<Rightarrow> timestamp \<Rightarrow> bool \<Rightarrow> 'd job_queue \<Rightarrow>
    queue_error + 'd job_queue" where
  "requeue now i scheduled_for count_attempt q =
     (if \<exists>r \<in> set (jobs q). j_id r = i \<and> j_attempt_count r + 1 > i32_max then Inl AttemptOverflow
      else Inr (q\<lparr>jobs := sql_update (\<lambda>r. j_id r = i) (requeued_row now scheduled_for count_attempt) (jobs q)\<rparr>))"

definition mark_as_failed :: "timestamp \<Rightarrow> job_id \<Rightarrow> timestamp option \<Rightarrow> 'd job_queue \<Rightarrow>
    queue_error + 'd job_queue" where
  "mark_as_failed now i scheduled_for =
     requeue now i (case scheduled_for of None \<Rightarrow> now | Some t \<Rightarrow> t) True"

definition reschedule :: "timestamp \<Rightarrow> job_id \<Rightarrow> timestamp \<Rightarrow> 'd job_queue \<Rightarrow> queue_error + 'd job_queue" where
  "reschedule now i scheduled_for = requeue now i scheduled_for False"

section \<open>The queue and its guards\<close>

definition DEFAULT_MAX_ATTEMPTS :: int where
  "DEFAULT_MAX_ATTEMPTS = 3"

text \<open>\<open>value.saturating_add(1).try_into().unwrap_or(i32::MAX)\<close>.\<close>

definition attempts_of_retries :: "u32 \<Rightarrow> int" where
  "attempts_of_retries v =
     (let n = uint (saturating_add v 1) in if n \<le> i32_max then n else i32_max)"

record 'd job_builder =
  jb_desc :: 'd
  jb_max_attempts :: "int option"
  jb_scheduled_for :: "timestamp option"
  jb_priority :: job_priority

definition job_builder_new :: "'d \<Rightarrow> 'd job_builder" where
  "job_builder_new desc = \<lparr>jb_desc = desc, jb_max_attempts = None, jb_scheduled_for = None,
     jb_priority = Background\<rparr>"

definition with_priority :: "job_priority \<Rightarrow> 'd job_builder \<Rightarrow> 'd job_builder" where
  "with_priority p b = b\<lparr>jb_priority := p\<rparr>"

definition max_retries :: "u32 \<Rightarrow> 'd job_builder \<Rightarrow> 'd job_builder" where
  "max_retries v b = b\<lparr>jb_max_attempts := Some (attempts_of_retries v)\<rparr>"

definition schedule_at :: "timestamp \<Rightarrow> 'd job_builder \<Rightarrow> 'd job_builder" where
  "schedule_at t b = b\<lparr>jb_scheduled_for := Some t\<rparr>"

definition queue_push :: "int \<Rightarrow> timestamp \<Rightarrow> job_id \<Rightarrow> 'd job_builder \<Rightarrow> 'd job_queue \<Rightarrow>
    queue_error + 'd job_queue" where
  "queue_push queue_max_attempts now i b q =
     (let max_attempts = (case jb_max_attempts b of None \<Rightarrow> queue_max_attempts | Some n \<Rightarrow> n) in
      case jb_scheduled_for b of
        None \<Rightarrow> (case job_push now i (jb_desc b) max_attempts (jb_priority b) q of
            Inl e \<Rightarrow> Inl e
          | Inr q' \<Rightarrow> Inr (send_job_available_notification i q'))
      | Some t \<Rightarrow> push_scheduled now i (jb_desc b) max_attempts t (jb_priority b) q)"

text \<open>A pop that finds a job returns its guard; the row stays committed as it was, and locked.\<close>

definition queue_pop :: "timestamp \<Rightarrow> 'd job_queue \<Rightarrow> ('d job_inner \<times> 'd job_queue) option" where
  "queue_pop now q =
     (case next_job now q of
        None \<Rightarrow> None
      | Some r \<Rightarrow> Some (\<lparr>ji_id = j_id r, ji_created_at = j_created_at r, ji_updated_at = now,
          ji_desc = j_descriptor r, ji_max_attempts = word_of_int (j_max_attempts r),
          ji_failed_attempts = word_of_int (j_attempt_count r)\<rparr>,
          q\<lparr>locked := j_id r # locked q\<rparr>))"

definition unlock :: "job_id \<Rightarrow> 'd job_queue \<Rightarrow> 'd job_queue" where
  "unlock i q = q\<lparr>locked := filter (\<lambda>j. j \<noteq> i) (locked q)\<rparr>"

definition guard_remove :: "job_id \<Rightarrow> 'd job_queue \<Rightarrow> 'd job_queue" where
  "guard_remove i q = unlock i (job_remove i q)"

definition commit_or_rollback :: "job_id \<Rightarrow> 'd job_queue \<Rightarrow> queue_error + 'd job_queue \<Rightarrow> 'd job_queue" where
  "commit_or_rollback i q res = unlock i (case res of Inl _ \<Rightarrow> q | Inr q' \<Rightarrow> q')"

definition guard_mark_as_failed :: "timestamp \<Rightarrow> job_id \<Rightarrow> 'd job_queue \<Rightarrow> 'd job_queue" where
  "guard_mark_as_failed now i q = commit_or_rollback i q (mark_as_failed now i None q)"

definition guard_mark_as_failed_and_reschedule :: "timestamp \<Rightarrow> job_id \<Rightarrow> timestamp \<Rightarrow> 'd job_queue \<Rightarrow>
    'd job_queue" where
  "guard_mark_as_failed_and_reschedule now i schedule q =
     commit_or_rollback i q (mark_as_failed now i (Some schedule) q)"

definition guard_reschedule :: "timestamp \<Rightarrow> job_id \<Rightarrow> timestamp \<Rightarrow> 'd job_queue \<Rightarrow> 'd job_queue" where
  "guard_reschedule now i schedule q = commit_or_rollback i q (reschedule now i schedule q)"

definition guard_drop :: "job_id \<Rightarrow> 'd job_queue \<Rightarrow> 'd job_queue" where
  "guard_drop i q = unlock i q"

text \<open>\<open>DELETE FROM pgmq_queue\<close> waits for locked rows, so it runs once none is.\<close>

definition queue_clear :: "'d job_queue \<Rightarrow> 'd job_queue option" where
  "queue_clear q = (if locked q = [] then Some (q\<lparr>jobs := []\<rparr>) else None)"

section \<open>Steps and invariant\<close>

text \<open>
  A queue with default \<open>m\<close> runs any interleaving of these steps; a guard is settled only while its
  job is locked. A builder's attempts come from \<open>max_retries\<close> or are left unset.
\<close>

definition built :: "'d job_builder \<Rightarrow> bool" where
  "built b \<longleftrightarrow> (case jb_max_attempts b of None \<Rightarrow> True | Some n \<Rightarrow> 1 \<le> n \<and> n \<le> i32_max)"

inductive queue_step :: "int \<Rightarrow> 'd job_queue \<Rightarrow> 'd job_queue \<Rightarrow> bool" for m where
  push: "built b \<Longrightarrow> queue_push m now i b q = Inr q' \<Longrightarrow> queue_step m q q'"
| pop: "queue_pop now q = Some (g, q') \<Longrightarrow> queue_step m q q'"
| remove: "i \<in> set (locked q) \<Longrightarrow> queue_step m q (guard_remove i q)"
| failed: "i \<in> set (locked q) \<Longrightarrow> queue_step m q (guard_mark_as_failed now i q)"
| failed_later: "i \<in> set (locked q) \<Longrightarrow> queue_step m q (guard_mark_as_failed_and_reschedule now i t q)"
| deferred: "i \<in> set (locked q) \<Longrightarrow> queue_step m q (guard_reschedule now i t q)"
| dropped: "i \<in> set (locked q) \<Longrightarrow> queue_step m q (guard_drop i q)"
| clear: "queue_clear q = Some q' \<Longrightarrow> queue_step m q q'"

definition empty_queue :: "'d job_queue" where
  "empty_queue = \<lparr>jobs = [], locked = [], notified = []\<rparr>"

definition job_inv :: "'d job_row \<Rightarrow> bool" where
  "job_inv r \<longleftrightarrow> j_status r \<noteq> Running \<and> 0 \<le> j_attempt_count r \<and> 1 \<le> j_max_attempts r \<and>
     j_max_attempts r \<le> i32_max \<and>
     (j_status r = Queued \<longrightarrow> j_attempt_count r < j_max_attempts r) \<and>
     (j_status r = Failed \<longrightarrow> j_attempt_count r = j_max_attempts r)"

definition queue_inv :: "'d job_queue \<Rightarrow> bool" where
  "queue_inv q \<longleftrightarrow>
     distinct (map j_id (jobs q)) \<and> list_all job_inv (jobs q) \<and> distinct (locked q) \<and>
     set (locked q) \<subseteq> j_id ` {r \<in> set (jobs q). j_status r = Queued}"

lemma attempts_of_retries_range: "1 \<le> attempts_of_retries v" "attempts_of_retries v \<le> i32_max"
proof -
  have "0 \<le> uint v" by simp
  then show "1 \<le> attempts_of_retries v" "attempts_of_retries v \<le> i32_max"
    by (auto simp: attempts_of_retries_def Let_def uint_saturating_add i32_max_def)
qed

lemma built_by_calls: "built (job_builder_new d)" "built (max_retries v b)"
  "built b \<Longrightarrow> built (with_priority p b)" "built b \<Longrightarrow> built (schedule_at t b)"
  by (simp_all add: built_def job_builder_new_def max_retries_def with_priority_def schedule_at_def
      attempts_of_retries_range)

lemma requeued_row_inv:
  "job_inv r \<Longrightarrow> j_status r = Queued \<Longrightarrow> job_inv (requeued_row now t c r)"
  by (auto simp: job_inv_def requeued_row_def Let_def i32_max_def)

lemma requeued_row_same [simp]:
  "j_id (requeued_row now t c r) = j_id r" "j_created_at (requeued_row now t c r) = j_created_at r"
  "j_priority (requeued_row now t c r) = j_priority r" "j_descriptor (requeued_row now t c r) = j_descriptor r"
  "j_max_attempts (requeued_row now t c r) = j_max_attempts r"
  by (simp_all add: requeued_row_def Let_def)

interpretation requeue_write: row_write j_id "requeued_row now t c" for now t c
  by unfold_locales simp

text \<open>A locked job is queued, so settling it never overflows its count.\<close>

lemma locked_job:
  assumes "queue_inv q" and "i \<in> set (locked q)"
  obtains r where "r \<in> set (jobs q)" "j_id r = i" "j_status r = Queued" "job_inv r"
  using assms by (auto simp: queue_inv_def list_all_iff)

lemma requeue_locked:
  assumes "queue_inv q" and "i \<in> set (locked q)"
  shows "requeue now i t c q =
    Inr (q\<lparr>jobs := sql_update (\<lambda>r. j_id r = i) (requeued_row now t c) (jobs q)\<rparr>)"
proof -
  from assms obtain r where r: "r \<in> set (jobs q)" "j_id r = i" "j_status r = Queued" "job_inv r"
    by (rule locked_job)
  have "j_attempt_count r' + 1 \<le> i32_max" if "r' \<in> set (jobs q)" "j_id r' = i" for r'
  proof -
    from that r assms(1) have "r' = r" by (auto simp: queue_inv_def dest: distinct_map_keyD)
    with r(3,4) show ?thesis by (simp add: job_inv_def)
  qed
  then show ?thesis by (force simp: requeue_def)
qed

lemma unlock_inv: "queue_inv q \<Longrightarrow> queue_inv (unlock i q)"
  by (auto simp: queue_inv_def unlock_def)

lemma requeue_inv:
  assumes inv: "queue_inv q" and i: "i \<in> set (locked q)"
  shows "queue_inv (unlock i (q\<lparr>jobs := sql_update (\<lambda>r. j_id r = i) (requeued_row now t c) (jobs q)\<rparr>))"
proof -
  let ?t = "sql_update (\<lambda>r. j_id r = i) (requeued_row now t c) (jobs q)"
  from inv i obtain r where r: "r \<in> set (jobs q)" "j_id r = i" "j_status r = Queued" "job_inv r"
    by (rule locked_job)
  have only: "r' = r" if "r' \<in> set (jobs q)" "j_id r' = i" for r'
    using that r inv by (auto simp: queue_inv_def dest: distinct_map_keyD)
  have "job_inv r'" if "r' \<in> set ?t" for r'
    using that only r requeued_row_inv inv by (fastforce simp: set_sql_update queue_inv_def list_all_iff)
  moreover have "j \<in> j_id ` {r \<in> set ?t. j_status r = Queued}" if "j \<in> set (locked q)" "j \<noteq> i" for j
  proof -
    from inv that(1) obtain r' where r': "r' \<in> set (jobs q)" "j_id r' = j" "j_status r' = Queued"
      by (rule locked_job)
    with that(2) have "r' \<in> set ?t" by (force simp: set_sql_update)
    with r' show ?thesis by auto
  qed
  ultimately show ?thesis
    using inv by (auto simp: queue_inv_def unlock_def list_all_iff requeue_write.keys_kept)
qed

lemmas settle_defs = guard_mark_as_failed_def guard_mark_as_failed_and_reschedule_def guard_reschedule_def
  commit_or_rollback_def mark_as_failed_def reschedule_def

lemma remove_inv:
  assumes inv: "queue_inv q"
  shows "queue_inv (guard_remove i q)"
proof -
  have "j \<in> j_id ` {r \<in> set (filter (\<lambda>r. j_id r \<noteq> i) (jobs q)). j_status r = Queued}"
    if "j \<in> set (locked q)" "j \<noteq> i" for j
    using inv that(1)
  proof (rule locked_job)
    fix r assume "r \<in> set (jobs q)" "j_id r = j" "j_status r = Queued"
    with that(2) show ?thesis by auto
  qed
  then show ?thesis
    using inv by (auto simp: queue_inv_def guard_remove_def unlock_def job_remove_def list_all_iff distinct_map_filterI)
qed

lemma next_job_Some:
  assumes "next_job now q = Some r"
  shows "r \<in> set (jobs q)" and "eligible now q r"
    and "r' \<in> set (jobs q) \<Longrightarrow> eligible now q r' \<Longrightarrow> pop_order r \<le> pop_order r'"
proof -
  let ?rows = "filter (eligible now q) (jobs q)"
  from assms obtain rs where rs: "sort_key pop_order ?rows = r # rs"
    by (auto simp: next_job_def split: list.splits)
  then have set: "set ?rows = insert r (set rs)" by (metis list.simps(15) set_sort)
  then show "r \<in> set (jobs q)" "eligible now q r" by auto
  have "sorted (map pop_order (r # rs))" using sorted_sort_key [of pop_order ?rows] rs by simp
  then show "r' \<in> set (jobs q) \<Longrightarrow> eligible now q r' \<Longrightarrow> pop_order r \<le> pop_order r'"
    using set by auto
qed

lemma pop_inv:
  assumes "queue_inv q" and "queue_pop now q = Some (g, q')"
  shows "queue_inv q'"
proof -
  from assms(2) obtain r where r: "next_job now q = Some r" "q' = q\<lparr>locked := j_id r # locked q\<rparr>"
    by (auto simp: queue_pop_def split: option.splits)
  from next_job_Some(1,2) [OF r(1)] assms(1) show ?thesis
    by (auto simp: r(2) queue_inv_def eligible_def)
qed

lemma push_inv:
  assumes "1 \<le> m" "m \<le> i32_max" "built b" "queue_inv q" "queue_push m now i b q = Inr q'"
  shows "queue_inv q'"
proof -
  let ?n = "case jb_max_attempts b of None \<Rightarrow> m | Some n \<Rightarrow> n"
  have n: "1 \<le> ?n" "?n \<le> i32_max" using assms(1-3) by (auto simp: built_def split: option.splits)
  from assms(5) obtain row where row: "jobs q' = jobs q @ [row]" "locked q' = locked q"
    "j_id row \<notin> j_id ` set (jobs q)" "j_status row = Queued" "j_attempt_count row = 0" "j_max_attempts row = ?n"
    by (auto simp: queue_push_def Let_def job_push_def push_scheduled_def send_job_available_notification_def
        split: option.splits sum.splits if_splits)
  from row n assms(4) show ?thesis by (auto simp: queue_inv_def job_inv_def)
qed

lemma queue_step_inv:
  assumes "1 \<le> m" "m \<le> i32_max"
  shows "queue_step m q q' \<Longrightarrow> queue_inv q \<Longrightarrow> queue_inv q'"
proof (induction rule: queue_step.induct)
  case (clear q q')
  then show ?case by (auto simp: queue_clear_def queue_inv_def split: if_splits)
qed (use assms push_inv pop_inv remove_inv requeue_inv unlock_inv in
    \<open>auto simp: settle_defs requeue_locked guard_drop_def\<close>)

interpretation queue_system: invariant_system
  "\<lambda>q. q = empty_queue" "queue_step (attempts_of_retries v)" queue_inv for v
proof
  show "queue_inv q" if "q = empty_queue" for q :: "'a job_queue"
    using that by (simp add: queue_inv_def empty_queue_def)
qed (use queue_step_inv attempts_of_retries_range in blast)

section \<open>Reconnecting to the notification channel\<close>

definition MAX_CONSECUTIVE_FAILURES :: u32 where
  "MAX_CONSECUTIVE_FAILURES = 3"

definition FAILURE_WINDOW :: timestamp where
  "FAILURE_WINDOW = secs 60"

record failure_run =
  run_count :: u32
  run_last :: "timestamp option"

definition run_cleared :: failure_run where
  "run_cleared = \<lparr>run_count = 0, run_last = None\<rparr>"

text \<open>\<open>Instant::duration_since\<close> is zero for an earlier instant.\<close>

definition run_record :: "timestamp \<Rightarrow> failure_run \<Rightarrow> failure_run" where
  "run_record now run =
     (let continues_run = (case run_last run of
            None \<Rightarrow> False | Some last_at \<Rightarrow> max 0 (now - last_at) < FAILURE_WINDOW)
      in \<lparr>run_count = (if continues_run then saturating_add (run_count run) 1 else 1), run_last = Some now\<rparr>)"

record queue_listener =
  connected :: bool
  failures :: failure_run

text \<open>
  What the listener meets while it waits: a reconnect, at a time, that opens the connection, fails,
  times out or is abandoned because the caller dropped the wait; and what a wait on an open
  connection returns.
\<close>

datatype reconnect = Opened | OpenFailed | OpenTimedOut | WaitDropped
datatype received = Notification | ConnectionLost | ReceiveError
datatype wait_event = Reconnect timestamp reconnect | Receive received
datatype wait_result = StillWaiting | Notified | GaveUp | WaitFailed

fun wait_for_notification :: "queue_listener \<Rightarrow> wait_event list \<Rightarrow> wait_result \<times> queue_listener" where
  "wait_for_notification l [] = (StillWaiting, l)"
| "wait_for_notification l (Reconnect now res # es) =
     (if connected l then wait_for_notification l es
      else let run = run_record now (failures l) in
        if run_count run \<ge> MAX_CONSECUTIVE_FAILURES then (GaveUp, l\<lparr>failures := run_cleared\<rparr>)
        else (case res of
            Opened \<Rightarrow> wait_for_notification (l\<lparr>failures := run, connected := True\<rparr>) es
          | OpenFailed \<Rightarrow> wait_for_notification (l\<lparr>failures := run\<rparr>) es
          | OpenTimedOut \<Rightarrow> wait_for_notification (l\<lparr>failures := run\<rparr>) es
          | WaitDropped \<Rightarrow> (StillWaiting, l\<lparr>failures := run\<rparr>)))"
| "wait_for_notification l (Receive r # es) =
     (if \<not> connected l then wait_for_notification l es
      else (case r of
          Notification \<Rightarrow> (Notified, l\<lparr>failures := run_cleared\<rparr>)
        | ConnectionLost \<Rightarrow> wait_for_notification (l\<lparr>connected := False\<rparr>) es
        | ReceiveError \<Rightarrow> (WaitFailed, l\<lparr>connected := False\<rparr>)))"

text \<open>A caller that waits again and again, each wait with its own events.\<close>

fun waits :: "queue_listener \<Rightarrow> wait_event list list \<Rightarrow> wait_result list" where
  "waits l [] = []"
| "waits l (es # ess) = (case wait_for_notification l es of (r, l') \<Rightarrow> r # waits l' ess)"

section \<open>Properties\<close>

text \<open>
  C21: in every state a queue can reach, by any interleaving of pushes, pops, settled and dropped
  guards, ids are unique, no committed row is left \<open>Running\<close>, a queued job has attempts left and a
  failed one has used exactly all of them, and each locked job is queued and locked once: no two
  workers hold the same job.
\<close>

theorem queue_invariant:
  assumes "(queue_step (attempts_of_retries v))\<^sup>*\<^sup>* empty_queue q"
  shows "queue_inv q"
  using assms by (rule queue_system.reachable_inv [OF refl])

definition one_job :: "nat job_queue" where
  "one_job = \<lparr>jobs = [\<lparr>j_id = 1, j_created_at = 5, j_updated_at = 5, j_scheduled_for = 5, j_status = Queued,
     j_max_attempts = 3, j_attempt_count = 0, j_priority = Background, j_descriptor = 7\<rparr>], locked = [],
     notified = [1]\<rparr>"

lemma one_job_pushed: "queue_step (attempts_of_retries 2) empty_queue one_job"
proof (rule queue_step.push)
  show "built (job_builder_new 7)" by (rule built_by_calls)
  show "queue_push (attempts_of_retries 2) 5 1 (job_builder_new 7) empty_queue = Inr one_job"
    by (simp add: queue_push_def job_builder_new_def job_push_def empty_queue_def one_job_def
        send_job_available_notification_def attempts_of_retries_def saturating_add_def i32_max_def)
qed

theorem queue_invariant_witness: "queue_inv one_job \<and> jobs one_job \<noteq> []"
  using queue_invariant [OF r_into_rtranclp [of "queue_step _", OF one_job_pushed]]
  by (simp add: one_job_def)

text \<open>
  C22: a pop hands out the job that should go next and no other: it is committed, queued, due and
  not held by another worker; no such job has a higher priority, nor the same priority and an
  earlier creation; and there is no job to hand out only when none is eligible.
\<close>

theorem pop_serves_next:
  "case queue_pop now q of
     None \<Rightarrow> \<forall>r \<in> set (jobs q). \<not> (j_status r = Queued \<and> j_scheduled_for r \<le> now \<and> j_id r \<notin> set (locked q))
   | Some (g, q') \<Rightarrow> \<exists>r \<in> set (jobs q). ji_id g = j_id r \<and> ji_desc g = j_descriptor r \<and>
       j_status r = Queued \<and> j_scheduled_for r \<le> now \<and> j_id r \<notin> set (locked q) \<and>
       locked q' = j_id r # locked q \<and> jobs q' = jobs q \<and>
       (\<forall>r' \<in> set (jobs q). j_status r' = Queued \<and> j_scheduled_for r' \<le> now \<and> j_id r' \<notin> set (locked q) \<longrightarrow>
          priority_code (j_priority r') < priority_code (j_priority r) \<or>
          j_priority r' = j_priority r \<and> (j_created_at r, j_id r) \<le> (j_created_at r', j_id r'))"
proof (cases "next_job now q")
  case None
  then have "filter (eligible now q) (jobs q) = []"
    by (auto simp: next_job_def split: list.splits) (metis set_empty set_sort)
  with None show ?thesis by (auto simp: queue_pop_def eligible_def filter_empty_conv)
next
  case (Some r)
  have "priority_code (j_priority r') < priority_code (j_priority r) \<or>
      j_priority r' = j_priority r \<and> (j_created_at r, j_id r) \<le> (j_created_at r', j_id r')"
    if "r' \<in> set (jobs q)" "eligible now q r'" for r'
  proof -
    have "priority_code a = priority_code b \<Longrightarrow> a = b" for a b by (cases a; cases b) simp_all
    with next_job_Some(3) [OF Some that] show ?thesis by (auto simp: pop_order_def)
  qed
  with Some next_job_Some(1,2) [OF Some] show ?thesis
    by (auto simp: queue_pop_def eligible_def intro!: bexI [of _ r])
qed

theorem pop_serves_next_witness:
  "\<exists>g q'. queue_pop 9 one_job = Some (g, q') \<and> ji_id g = 1 \<and> locked q' = [1]"
  using pop_serves_next [where now = 9 and q = one_job]
  by (auto simp: queue_pop_def next_job_def one_job_def eligible_def split: option.splits)

definition job_kept :: "'d job_row \<Rightarrow> 'd job_row \<Rightarrow> bool" where
  "job_kept r r' \<longleftrightarrow> j_id r' = j_id r \<and> j_created_at r' = j_created_at r \<and> j_priority r' = j_priority r \<and>
     j_descriptor r' = j_descriptor r \<and> j_max_attempts r' = j_max_attempts r \<and>
     j_attempt_count r \<le> j_attempt_count r' \<and> j_attempt_count r' \<le> j_attempt_count r + 1 \<and>
     (j_status r = Failed \<longrightarrow> r' = r)"

lemma job_kept_refl: "job_kept r r"
  by (simp add: job_kept_def)

lemma requeue_keeps:
  assumes inv: "queue_inv q" and i: "i \<in> set (locked q)" and r: "r \<in> set (jobs q)"
  shows "\<exists>r' \<in> set (sql_update (\<lambda>r. j_id r = i) (requeued_row now t c) (jobs q)). job_kept r r'"
proof (cases "j_id r = i")
  case True
  from inv i obtain r0 where r0: "r0 \<in> set (jobs q)" "j_id r0 = i" "j_status r0 = Queued" by (rule locked_job)
  with r True inv have "r = r0" by (auto simp: queue_inv_def dest: distinct_map_keyD)
  with r0 have "job_kept r (requeued_row now t c r)" by (auto simp: job_kept_def requeued_row_def Let_def)
  with True r show ?thesis by (force simp: set_sql_update)
next
  case False
  with r show ?thesis by (intro bexI [of _ r]) (force simp: set_sql_update job_kept_refl)+
qed

text \<open>
  C23: a job is never lost. A step keeps every job with its id, creation time, priority, descriptor
  and limit, counts at most one attempt and leaves a job that failed for good alone; the only jobs
  that go are one that the worker holding it removes, and all of them when the queue is cleared.
\<close>

theorem jobs_are_kept:
  assumes "queue_inv q" and "queue_step m q q'" and "r \<in> set (jobs q)"
  shows "(\<exists>r' \<in> set (jobs q'). job_kept r r') \<or>
    (j_id r \<in> set (locked q) \<and> q' = guard_remove (j_id r) q) \<or> queue_clear q = Some q'"
  using assms(2)
proof cases
  case (push b now i)
  then have "set (jobs q) \<subseteq> set (jobs q')"
    by (auto simp: queue_push_def Let_def job_push_def push_scheduled_def send_job_available_notification_def
        split: option.splits sum.splits if_splits)
  with assms(3) job_kept_refl show ?thesis by blast
next
  case (pop now g)
  then have "jobs q' = jobs q" by (auto simp: queue_pop_def split: option.splits)
  with assms(3) job_kept_refl show ?thesis by metis
next
  case (remove i)
  then show ?thesis
    using assms(3) job_kept_refl by (cases "j_id r = i") (force simp: guard_remove_def unlock_def job_remove_def)+
next
  case (dropped i)
  then show ?thesis using assms(3) job_kept_refl by (auto simp: guard_drop_def unlock_def)
qed (use requeue_keeps [OF assms(1) _ assms(3)] in
    \<open>auto simp: settle_defs requeue_locked [OF assms(1)] unlock_def\<close>)

theorem jobs_are_kept_witness:
  "\<exists>q'. queue_step (attempts_of_retries 2) one_job q' \<and> (\<exists>r' \<in> set (jobs q'). j_descriptor r' = 7)"
proof -
  have "queue_inv one_job" by (simp add: one_job_def queue_inv_def job_inv_def i32_max_def)
  moreover have "queue_pop 9 one_job = Some (\<lparr>ji_id = 1, ji_created_at = 5, ji_updated_at = 9, ji_desc = 7,
      ji_max_attempts = 3, ji_failed_attempts = 0\<rparr>, one_job\<lparr>locked := [1]\<rparr>)"
    by (simp add: queue_pop_def next_job_def one_job_def eligible_def)
  then have step: "queue_step (attempts_of_retries 2) one_job (one_job\<lparr>locked := [1]\<rparr>)" by (rule queue_step.pop)
  moreover have "hd (jobs one_job) \<in> set (jobs one_job)" by (simp add: one_job_def)
  ultimately have "\<exists>r' \<in> set (jobs (one_job\<lparr>locked := [1]\<rparr>)). job_kept (hd (jobs one_job)) r'"
    using jobs_are_kept by (fastforce simp: one_job_def queue_clear_def)
  with step show ?thesis by (auto simp: job_kept_def one_job_def)
qed

text \<open>Settling a job again and again: each entry is a time, a schedule and whether it counts.\<close>

fun settle_all :: "(timestamp \<times> timestamp \<times> bool) list \<Rightarrow> 'd job_row \<Rightarrow> 'd job_row" where
  "settle_all [] r = r"
| "settle_all ((now, t, c) # cs) r = settle_all cs (requeued_row now t c r)"

lemma settle_all_queued:
  assumes "j_status r = Queued" and "j_attempt_count r + int (length (filter (snd \<circ> snd) cs)) < j_max_attempts r"
  shows "j_status (settle_all cs r) = Queued \<and>
    j_attempt_count (settle_all cs r) = j_attempt_count r + int (length (filter (snd \<circ> snd) cs)) \<and>
    pop_order (settle_all cs r) = pop_order r \<and> j_max_attempts (settle_all cs r) = j_max_attempts r"
  using assms
proof (induction cs r rule: settle_all.induct)
  case (2 now t c cs r)
  let ?r = "requeued_row now t c r"
  have "j_status ?r = Queued" "j_attempt_count ?r = j_attempt_count r + (if c then 1 else 0)" "pop_order ?r = pop_order r"
    using "2.prems" by (auto simp: requeued_row_def Let_def pop_order_def)
  with 2 show ?case by (cases c) auto
qed simp

text \<open>
  C24: a fresh job limited to \<open>n\<close> attempts stays queued, with its place in line, through any mix of
  deferrals and fewer than \<open>n\<close> counted failures, and the \<open>n\<close>-th counted failure makes it failed.
\<close>

theorem fails_at_last_attempt:
  assumes "j_status r = Queued" and "j_attempt_count r = 0"
    and "int (length (filter (snd \<circ> snd) cs)) < j_max_attempts r"
  shows "j_status (settle_all cs r) = Queued \<and> pop_order (settle_all cs r) = pop_order r \<and>
    (j_status (settle_all (cs @ [(now, t, True)]) r) = Failed \<longleftrightarrow>
      int (length (filter (snd \<circ> snd) cs)) + 1 = j_max_attempts r)"
proof -
  have "settle_all (cs @ [(now, t, True)]) r = requeued_row now t True (settle_all cs r)"
    by (induction cs r rule: settle_all.induct) auto
  with settle_all_queued [of r cs] assms show ?thesis by (auto simp: requeued_row_def Let_def)
qed

theorem fails_at_last_attempt_witness:
  "j_status (settle_all ([(1, 2, True), (3, 4, False), (5, 6, True)] @ [(7, 8, True)]) (hd (jobs one_job))) = Failed"
  using fails_at_last_attempt [of "hd (jobs one_job)" "[(1, 2, True), (3, 4, False), (5, 6, True)]" 7 8]
  by (simp add: one_job_def)

text \<open>The length of the current run of failures, most recent first.\<close>

fun recent_run :: "timestamp list \<Rightarrow> nat" where
  "recent_run [] = 0"
| "recent_run [t] = 1"
| "recent_run (t # u # ts) = (if t - u < FAILURE_WINDOW then recent_run (u # ts) + 1 else 1)"

lemma run_last_record: "run_last (foldr run_record ts run_cleared) = (case ts of [] \<Rightarrow> None | t # _ \<Rightarrow> Some t)"
  by (cases ts) (simp_all add: run_cleared_def run_record_def Let_def)

lemma run_count_record:
  "uint (run_count (foldr run_record ts run_cleared)) = min (2 ^ 32 - 1) (int (recent_run ts))"
proof (induction ts rule: recent_run.induct)
  case (3 t u ts)
  define run where "run = foldr run_record (u # ts) run_cleared"
  have "run_last run = Some u" by (simp add: run_def run_last_record del: foldr.simps)
  moreover have "max 0 (t - u) < FAILURE_WINDOW \<longleftrightarrow> t - u < FAILURE_WINDOW"
    by (simp add: FAILURE_WINDOW_def secs_def)
  ultimately have "run_count (run_record t run) =
      (if t - u < FAILURE_WINDOW then saturating_add (run_count run) 1 else 1)"
    by (simp add: run_record_def Let_def)
  moreover have "t - u < FAILURE_WINDOW \<Longrightarrow> uint (run_count run) = min (2 ^ 32 - 1) (int (recent_run (u # ts)))"
    using 3 unfolding run_def by blast
  moreover have "foldr run_record (t # u # ts) run_cleared = run_record t run" by (simp add: run_def)
  ultimately show ?case by (auto simp: uint_saturating_add min_def)
qed (simp_all add: run_cleared_def run_record_def Let_def)



end
