(* ===== verification/Service_World.thy ===== *)
theory Service_World
  imports Outside Registry_Queries Registry_Safety Job_Queue "HOL-Library.State_Monad"
begin

text \<open>
  What the services of \<open>dipper-service\<close> run in. They share the registry, push jobs, call the chain
  and read the clock; between any two calls of one service the others may have committed any
  writes. A \<open>world\<close> is the registry, what the service did so far and a list of moves, one for each
  call to come: the time, what the others committed before it, how the call fails, if it does, and
  what the chain and the indexers answer. A service is a program of the state monad over worlds, so
  that it reads like the code, and a theorem about every list of moves is a theorem about every
  interleaving, every failure and every answer.

  A failed or timed-out statement may have been committed all the same: \<open>Fails True\<close> and
  \<open>TimesOut True\<close>. \<open>w_past\<close> holds the moves so far, and the logs \<open>own_writes\<close>, \<open>pushed\<close> and \<open>sent\<close>
  record what the service itself did, each entry with the moves so far and the registry at that
  time; no program reads them.
\<close>

section \<open>Messages\<close>

text \<open>\<open>worker/messages.rs\<close> and the \<open>Message\<close> structs of \<open>worker/handlers\<close>.\<close>

record chain_accept =
  ac_at :: u64
  ac_tx :: string

datatype message =
    ReassessIndexingRequest (rr_request: request_id) (rr_deployment: deployment_id)
      (rr_chain: chain_id) (rr_num_candidates: int)
  | SendIndexingAgreementProposal (sp_url: string) (sp_agreement: agreement_id)
      (sp_request: request_id) (sp_deployment: deployment_id) (sp_chain: chain_id)
  | CancelRejectedAgreementOnChain (cr_agreement: agreement_id) (cr_accept: "chain_accept option")
  | SubmitOffer (so_agreement: agreement_id) (so_request: request_id) (so_url: string)
      (so_deployment: deployment_id) (so_chain: chain_id)

section \<open>Worlds\<close>

datatype fault = NoFault | Fails bool | TimesOut bool

record move =
  mv_now :: timestamp
  mv_env :: "registry \<Rightarrow> registry"
  mv_fault :: fault
  mv_chain :: chain_client
  mv_indexer :: indexer_client
  mv_network :: "indexer_id \<Rightarrow> string option"
  mv_status :: "string \<Rightarrow> string \<Rightarrow> json option"
  mv_select :: "deployment_id \<Rightarrow> nat \<Rightarrow> selection_context \<Rightarrow> selection_error + selected_indexer list"
  mv_dips_accepting :: "string \<Rightarrow> price_ceilings \<Rightarrow> selection_error + dips_accepting_snapshot"
  mv_stop :: bool

record world =
  w_db :: registry
  w_moves :: "move list"
  w_past :: "move list"
  w_now :: timestamp
  own_writes :: "(move list \<times> registry \<times> registry) list"
  pushed :: "(move list \<times> registry \<times> message job_builder) list"
  sent :: "(move list \<times> registry \<times> chain_tx) list"

type_synonym 'a prog = "(world, 'a) state"

text \<open>Nothing happens, and nobody answers, once the moves have run out.\<close>

definition quiet :: "timestamp \<Rightarrow> move" where
  "quiet now = \<lparr>mv_now = now, mv_env = id, mv_fault = NoFault,
     mv_chain = \<lparr>cc_offer_via_manager = (\<lambda>_. Inl RpcError),
       cc_cancel_via_manager = (\<lambda>_ _ _ _. Inl RpcError),
       cc_agreement_on_chain = (\<lambda>_. Inl RpcError), cc_latest_block_timestamp = Inl RpcError\<rparr>,
     mv_indexer = (\<lambda>_ _ _ _. None), mv_network = (\<lambda>_. None), mv_status = (\<lambda>_ _. None),
     mv_select = (\<lambda>_ _ _. Inl IisaServiceUnavailable),
     mv_dips_accepting = (\<lambda>_ _. Inl IisaServiceUnavailable), mv_stop = False\<rparr>"

definition next_move :: "world \<Rightarrow> move" where
  "next_move w = (case w_moves w of [] \<Rightarrow> quiet (w_now w) | m # _ \<Rightarrow> m)"

text \<open>Waiting for a call: the others run, and time passes.\<close>

definition elapse :: "world \<Rightarrow> world" where
  "elapse w = w\<lparr>w_db := mv_env (next_move w) (w_db w), w_moves := tl (w_moves w),
     w_past := w_past w @ take 1 (w_moves w), w_now := mv_now (next_move w)\<rparr>"

datatype call_error = Refused error | Unreachable

datatype 'a reply = Ok 'a | Err call_error | Elapsed

definition answer :: "fault \<Rightarrow> 'a reply \<Rightarrow> 'a reply" where
  "answer f r = (case f of NoFault \<Rightarrow> r | Fails _ \<Rightarrow> Err Unreachable | TimesOut _ \<Rightarrow> Elapsed)"

definition commits :: "fault \<Rightarrow> bool" where
  "commits f = (case f of NoFault \<Rightarrow> True | Fails c \<Rightarrow> c | TimesOut c \<Rightarrow> c)"

text \<open>\<open>tokio::time::timeout(limit, registry.write(...)).await\<close>.\<close>

definition timeout_await :: "(timestamp \<Rightarrow> 'a tx) \<Rightarrow> 'a reply prog" where
  "timeout_await f = State (\<lambda>w.
     let m = next_move w; w1 = elapse w in
     case f (mv_now m) (w_db w1) of
       Inl e \<Rightarrow> (answer (mv_fault m) (Err (Refused e)), w1)
     | Inr (x, db') \<Rightarrow> (answer (mv_fault m) (Ok x),
         if commits (mv_fault m)
         then w1\<lparr>w_db := db', own_writes := own_writes w1 @ [(w_past w1, w_db w1, db')]\<rparr> else w1))"

definition timeout_read :: "(timestamp \<Rightarrow> registry \<Rightarrow> error + 'a) \<Rightarrow> 'a reply prog" where
  "timeout_read q = State (\<lambda>w.
     let m = next_move w; w1 = elapse w in
     (answer (mv_fault m) (case q (mv_now m) (w_db w1) of Inl e \<Rightarrow> Err (Refused e) | Inr x \<Rightarrow> Ok x), w1))"

text \<open>
  \<open>registry.write(...).await\<close>: without a timeout around it the call only comes back with an answer
  or an error.
\<close>

definition no_timeout :: "'a reply \<Rightarrow> call_error + 'a" where
  "no_timeout r = (case r of Ok x \<Rightarrow> Inr x | Err e \<Rightarrow> Inl e | Elapsed \<Rightarrow> Inl Unreachable)"

definition await :: "(timestamp \<Rightarrow> 'a tx) \<Rightarrow> (call_error + 'a) prog" where
  "await f = do { r \<leftarrow> timeout_await f; State_Monad.return (no_timeout r) }"

definition await_read :: "(timestamp \<Rightarrow> registry \<Rightarrow> error + 'a) \<Rightarrow> (call_error + 'a) prog" where
  "await_read q = do { r \<leftarrow> timeout_read q; State_Monad.return (no_timeout r) }"

definition clock :: "timestamp prog" where
  "clock = State (\<lambda>w. (mv_now (next_move w), elapse w))"

text \<open>\<open>dipper_core::time::now_secs\<close>: 0 when the clock is before 1970.\<close>

definition now_secs :: "u64 prog" where
  "now_secs = do { t \<leftarrow> clock; State_Monad.return (if t < 0 then 0 else word_of_int (unix_secs t)) }"

definition timeout_push :: "message job_builder \<Rightarrow> unit reply prog" where
  "timeout_push b = State (\<lambda>w.
     let m = next_move w; w1 = elapse w in
     (answer (mv_fault m) (Ok ()),
      if commits (mv_fault m) then w1\<lparr>pushed := pushed w1 @ [(w_past w1, w_db w1, b)]\<rparr> else w1))"

definition await_push :: "message job_builder \<Rightarrow> (call_error + unit) prog" where
  "await_push b = do { r \<leftarrow> timeout_push b; State_Monad.return (no_timeout r) }"

definition chain_read :: "(chain_client \<Rightarrow> chain_client_error + 'a) \<Rightarrow> (chain_client_error + 'a) prog" where
  "chain_read q = State (\<lambda>w. (q (mv_chain (next_move w)), elapse w))"

definition chain_send :: "chain_tx \<Rightarrow> (chain_client \<Rightarrow> chain_client_error + 'a) \<Rightarrow>
    (chain_client_error + 'a) prog" where
  "chain_send tx q = State (\<lambda>w.
     (q (mv_chain (next_move w)), (elapse w)\<lparr>sent := sent w @ [(w_past (elapse w), w_db (elapse w), tx)]\<rparr>))"

text \<open>A call to an indexer or to the selection service, and a look at what a local handle shows.\<close>

definition outside_call :: "(move \<Rightarrow> 'a) \<Rightarrow> 'a prog" where
  "outside_call q = State (\<lambda>w. (q (next_move w), elapse w))"

definition look :: "(move \<Rightarrow> 'a) \<Rightarrow> 'a prog" where
  "look q = State (\<lambda>w. (q (next_move w), w))"

text \<open>\<open>rx_stop.try_recv().is_ok()\<close>: whether the service was told to stop, without waiting.\<close>

definition stop_requested :: "bool prog" where
  "stop_requested = look mv_stop"

text \<open>\<open>registry.write(...).await.map_err(h)?\<close> followed by the rest.\<close>

definition or_return :: "(call_error + 'a) prog \<Rightarrow> (call_error \<Rightarrow> 'b) \<Rightarrow> ('a \<Rightarrow> 'b prog) \<Rightarrow> 'b prog" where
  "or_return m h k = do { r \<leftarrow> m; case r of Inl e \<Rightarrow> State_Monad.return (h e) | Inr x \<Rightarrow> k x }"

text \<open>A loop over a list that may stop: the body says whether to go on.\<close>

fun for_each :: "('a \<Rightarrow> 's \<Rightarrow> (bool \<times> 's) prog) \<Rightarrow> 'a list \<Rightarrow> 's \<Rightarrow> 's prog" where
  "for_each body [] s = State_Monad.return s"
| "for_each body (x # xs) s =
     do { (go, s') \<leftarrow> body x s; if go then for_each body xs s' else State_Monad.return s' }"

text \<open>\<open>worker/queue.rs\<close>, \<open>worker/service_queue.rs\<close>: the jobs the services push.\<close>

definition queue_impl_job :: "message \<Rightarrow> job_priority \<Rightarrow> message job_builder" where
  "queue_impl_job msg p = with_priority p (job_builder_new msg)"

definition queue_impl_job_with_max_retries :: "message \<Rightarrow> job_priority \<Rightarrow> u32 \<Rightarrow> message job_builder" where
  "queue_impl_job_with_max_retries msg p n = max_retries n (with_priority p (job_builder_new msg))"

definition reassess_indexing_request_job :: "request_id \<Rightarrow> deployment_id \<Rightarrow> chain_id \<Rightarrow> int \<Rightarrow> job_priority \<Rightarrow>
    message job_builder" where
  "reassess_indexing_request_job i d chain n p = queue_impl_job (ReassessIndexingRequest i d chain n) p"

definition send_indexing_agreement_proposal_job :: "string \<Rightarrow> agreement_id \<Rightarrow> request_id \<Rightarrow> deployment_id \<Rightarrow>
    chain_id \<Rightarrow> job_priority \<Rightarrow> message job_builder" where
  "send_indexing_agreement_proposal_job url a i d chain p =
     queue_impl_job (SendIndexingAgreementProposal url a i d chain) p"

definition cancel_rejected_agreement_on_chain_job :: "agreement_id \<Rightarrow> chain_accept option \<Rightarrow> job_priority \<Rightarrow>
    message job_builder" where
  "cancel_rejected_agreement_on_chain_job a acc p = queue_impl_job (CancelRejectedAgreementOnChain a acc) p"

definition submit_offer_job :: "u32 \<Rightarrow> agreement_id \<Rightarrow> request_id \<Rightarrow> string \<Rightarrow> deployment_id \<Rightarrow> chain_id \<Rightarrow>
    job_priority \<Rightarrow> message job_builder" where
  "submit_offer_job submit_offer_max_retries a i url d chain p =
     queue_impl_job_with_max_retries (SubmitOffer a i url d chain) p submit_offer_max_retries"

definition queued_reassessments :: "message list \<Rightarrow> request_id list" where
  "queued_reassessments unfinished =
     remdups (List.map_filter (\<lambda>m. case m of ReassessIndexingRequest i _ _ _ \<Rightarrow> Some i | _ \<Rightarrow> None) unfinished)"

end
