(* ===== verification/Rely_Guarantee.thy ===== *)
theory Rely_Guarantee
  imports Service_World
begin

text \<open>
  Rely/guarantee reasoning about the services. The rely is the registry's step relation: whatever
  the others commit between two calls is a sequence of \<^const>\<open>registry_step\<close>. The guarantee of a
  program is a condition on each of its own writes, pushed jobs and transactions, given the moves so
  far and the registry at that time. \<open>safe G K m\<close>: run in a legal world that satisfies \<open>K\<close>, the
  program \<open>m\<close> leaves a legal world, moves the registry along the step relation and does nothing
  against \<open>G\<close>. What a program knows of its world is of use later only if it is \<open>lasting\<close>: neither a
  write nor the passing of time undoes it.
\<close>

section \<open>Legal worlds, guarantees and lasting knowledge\<close>

record guarantee =
  g_write :: "move list \<Rightarrow> registry \<Rightarrow> registry \<Rightarrow> bool"
  g_push :: "move list \<Rightarrow> registry \<Rightarrow> message job_builder \<Rightarrow> bool"
  g_send :: "move list \<Rightarrow> registry \<Rightarrow> chain_tx \<Rightarrow> bool"

definition legal :: "world \<Rightarrow> bool" where
  "legal w \<longleftrightarrow> reg_inv (w_db w) \<and>
     (\<forall>m \<in> set (w_moves w). \<forall>db. reg_inv db \<longrightarrow> registry_step\<^sup>*\<^sup>* db (mv_env m db))"

definition holds :: "guarantee \<Rightarrow> world \<Rightarrow> bool" where
  "holds G w \<longleftrightarrow>
     (\<forall>(p, db, db') \<in> set (own_writes w). g_write G p db db') \<and>
     (\<forall>(p, db, b) \<in> set (pushed w). g_push G p db b) \<and>
     (\<forall>(p, db, tx) \<in> set (sent w). g_send G p db tx)"

definition nothing_done :: "world \<Rightarrow> bool" where
  "nothing_done w \<longleftrightarrow> own_writes w = [] \<and> pushed w = [] \<and> sent w = [] \<and> w_past w = []"

definition later :: "world \<Rightarrow> world \<Rightarrow> bool" where
  "later w w' \<longleftrightarrow> registry_step\<^sup>*\<^sup>* (w_db w) (w_db w') \<and>
     (\<exists>ms. w_past w' = w_past w @ ms \<and> (w_now w' = w_now w \<or> w_now w' \<in> mv_now ` set ms))"

definition lasting :: "(world \<Rightarrow> bool) \<Rightarrow> bool" where
  "lasting K \<longleftrightarrow> (\<forall>w w'. reg_inv (w_db w) \<longrightarrow> later w w' \<longrightarrow> K w \<longrightarrow> K w')"

definition safe :: "guarantee \<Rightarrow> (world \<Rightarrow> bool) \<Rightarrow> 'a prog \<Rightarrow> bool" where
  "safe G K m \<longleftrightarrow> (\<forall>w x w'. legal w \<longrightarrow> holds G w \<longrightarrow> K w \<longrightarrow> run_state m w = (x, w') \<longrightarrow>
     legal w' \<and> holds G w' \<and> later w w')"

text \<open>What a program's result says of the world it leaves.\<close>

definition yields :: "(world \<Rightarrow> bool) \<Rightarrow> 'a prog \<Rightarrow> ('a \<Rightarrow> world \<Rightarrow> bool) \<Rightarrow> bool" where
  "yields K m F \<longleftrightarrow> (\<forall>w x w'. legal w \<longrightarrow> K w \<longrightarrow> run_state m w = (x, w') \<longrightarrow> F x w')"

named_theorems lasting_rules \<open>knowledge that no write undoes\<close>
named_theorems safe_rules \<open>rules for the programs of the services\<close>
named_theorems registry_writes \<open>calls that are steps of the registry\<close>

definition writes :: "(timestamp \<Rightarrow> 'a tx) \<Rightarrow> bool" where
  "writes f \<longleftrightarrow> (\<forall>now db x db'. f now db = Inr (x, db') \<longrightarrow> registry_step db db')"

lemma nothing_done_holds: "nothing_done w \<Longrightarrow> holds G w"
  by (simp add: nothing_done_def holds_def)

lemma later_refl [simp]: "later w w"
  by (simp add: later_def)

lemma later_trans: "later w w' \<Longrightarrow> later w' w'' \<Longrightarrow> later w w''"
  by (auto simp: later_def intro: rtranclp_trans)

text \<open>A time the clock showed: at the start, or at a call so far.\<close>

definition clock_showed :: "timestamp \<Rightarrow> timestamp \<Rightarrow> move list \<Rightarrow> bool" where
  "clock_showed t0 t p \<longleftrightarrow> t = t0 \<or> t \<in> mv_now ` set p"

lemma lastingD: "lasting K \<Longrightarrow> later w w' \<Longrightarrow> legal w \<Longrightarrow> K w \<Longrightarrow> K w'"
  unfolding lasting_def legal_def by blast

lemma lasting_step:
  assumes "\<And>db db'. reg_inv db \<Longrightarrow> registry_step db db' \<Longrightarrow> K db \<Longrightarrow> K db'"
  shows "lasting (\<lambda>w. K (w_db w))"
  unfolding lasting_def
proof (intro allI impI)
  fix w w'
  assume w: "reg_inv (w_db w)" "K (w_db w)" and "later w w'"
  then have "registry_step\<^sup>*\<^sup>* (w_db w) (w_db w')" by (simp add: later_def)
  then show "K (w_db w')"
  proof (induction rule: rtranclp_induct)
    case (step y z)
    from step.hyps(1) w(1) have "reg_inv y" by (rule registry_system.steps_inv)
    from assms [OF this step.hyps(2) step.IH] show ?case .
  qed (rule w(2))
qed

lemma lasting_True [lasting_rules]: "lasting (\<lambda>_. P)"
  by (simp add: lasting_def)

lemma lasting_conj [lasting_rules]: "lasting K \<Longrightarrow> lasting L \<Longrightarrow> lasting (\<lambda>w. K w \<and> L w)"
  unfolding lasting_def by blast

lemma lasting_disj [lasting_rules]: "lasting K \<Longrightarrow> lasting L \<Longrightarrow> lasting (\<lambda>w. K w \<or> L w)"
  unfolding lasting_def by blast

lemma lasting_all [lasting_rules]: "(\<And>x. lasting (K x)) \<Longrightarrow> lasting (\<lambda>w. \<forall>x. K x w)"
  unfolding lasting_def by blast

lemma lasting_ex [lasting_rules]: "(\<And>x. lasting (K x)) \<Longrightarrow> lasting (\<lambda>w. \<exists>x. K x w)"
  unfolding lasting_def by blast

lemma lasting_imp [lasting_rules]: "(P \<Longrightarrow> lasting K) \<Longrightarrow> lasting (\<lambda>w. P \<longrightarrow> K w)"
  unfolding lasting_def by blast

lemma lasting_ball [lasting_rules]: "(\<And>x. x \<in> A \<Longrightarrow> lasting (K x)) \<Longrightarrow> lasting (\<lambda>w. \<forall>x \<in> A. K x w)"
  unfolding lasting_def by blast

lemma lasting_past [lasting_rules]: "lasting (\<lambda>w. \<exists>m \<in> set (w_past w). P m)"
  by (auto simp: lasting_def later_def)

lemma lasting_clock_showed [lasting_rules]: "lasting (\<lambda>w. clock_showed t0 t (w_past w))"
  by (auto simp: lasting_def later_def clock_showed_def)

lemma lasting_timed [lasting_rules]: "lasting (\<lambda>w. clock_showed t0 (w_now w) (w_past w))"
  by (auto simp: lasting_def later_def clock_showed_def)

lemma lasting_row:
  assumes "\<And>r r'. P r \<Longrightarrow> row_step r r' \<Longrightarrow> P r'"
  shows "lasting (\<lambda>w. \<exists>r \<in> set (agreements (w_db w)). P r)"
proof (rule lasting_step)
  fix db db'
  assume db: "reg_inv db" "registry_step db db'" and "\<exists>r \<in> set (agreements db). P r"
  then obtain r where r: "r \<in> set (agreements db)" "P r" by blast
  from db have "evolves db db'" by (rule registry_system.step_grows)
  then have "extends row_step (agreements db) (agreements db')" by (simp add: evolves_def)
  from extends_memD [OF this r(1)] assms [OF r(2)] show "\<exists>r \<in> set (agreements db'). P r" by blast
qed

section \<open>Rules\<close>

lemma legal_reg_inv: "legal w \<Longrightarrow> reg_inv (w_db w)"
  by (simp add: legal_def)

lemma elapse_legal:
  assumes "legal w"
  shows "legal (elapse w)" "later w (elapse w)"
proof -
  have step: "registry_step\<^sup>*\<^sup>* (w_db w) (mv_env (next_move w) (w_db w))"
    using assms by (cases "w_moves w") (simp_all add: legal_def next_move_def quiet_def)
  then show "later w (elapse w)"
    by (cases "w_moves w") (simp_all add: elapse_def later_def next_move_def quiet_def)
  from registry_system.steps_inv [OF step legal_reg_inv [OF assms]] assms show "legal (elapse w)"
    by (cases "w_moves w") (simp_all add: legal_def elapse_def)
qed

lemma elapse_logs [simp]:
  "own_writes (elapse w) = own_writes w" "pushed (elapse w) = pushed w" "sent (elapse w) = sent w"
  by (simp_all add: elapse_def)

lemma elapse_holds [simp]: "holds G (elapse w) = holds G w"
  by (simp add: holds_def)

lemma elapse_lasting: "lasting K \<Longrightarrow> legal w \<Longrightarrow> K w \<Longrightarrow> K (elapse w)"
  by (rule lastingD [OF _ elapse_legal(2)])

text \<open>A move that was just answered with is part of the past, unless the moves had run out.\<close>

lemma next_move_past: "next_move w \<in> set (w_past (elapse w)) \<or> next_move w = quiet (w_now w)"
  by (cases "w_moves w") (simp_all add: next_move_def elapse_def)

lemma safeD:
  assumes "safe G K m" and "legal w" and "holds G w" and "K w" and "run_state m w = (x, w')"
  shows "legal w'" "holds G w'" "later w w'"
  using assms unfolding safe_def by blast+

lemma safe_return [safe_rules]: "safe G K (State_Monad.return x)"
  by (simp add: safe_def)

lemma safe_bind [safe_rules]:
  assumes "safe G K m" and "lasting K" and "\<And>x. safe G K (k x)"
  shows "safe G K (State_Monad.bind m k)"
  unfolding safe_def
proof (intro allI impI)
  fix w y w''
  assume w: "legal w" "holds G w" "K w" and run: "run_state (State_Monad.bind m k) w = (y, w'')"
  obtain x w' where m: "run_state m w = (x, w')" by fastforce
  with run have k: "run_state (k x) w' = (y, w'')" by simp
  note w' = safeD [OF assms(1) w m]
  have "K w'" by (rule lastingD [OF assms(2) w'(3) w(1,3)])
  from safeD [OF assms(3) w'(1,2) this k] later_trans [OF w'(3)]
  show "legal w'' \<and> holds G w'' \<and> later w w''" by simp
qed

lemma safe_weaken: "safe G K m \<Longrightarrow> (\<And>w. K' w \<Longrightarrow> K w) \<Longrightarrow> safe G K' m"
  unfolding safe_def by blast

lemma safe_learn:
  assumes m: "safe G K m" and F: "yields K m F"
    and st: "lasting K" "\<And>x. lasting (F x)" and k: "\<And>x. safe G (\<lambda>w. K w \<and> F x w) (k x)"
  shows "safe G K (State_Monad.bind m k)"
  unfolding safe_def
proof (intro allI impI)
  fix w y w''
  assume w: "legal w" "holds G w" "K w" and run: "run_state (State_Monad.bind m k) w = (y, w'')"
  obtain x w' where run': "run_state m w = (x, w')" by fastforce
  with run have run'': "run_state (k x) w' = (y, w'')" by simp
  note w' = safeD [OF m w run']
  have "K w'" by (rule lastingD [OF st(1) w'(3) w(1,3)])
  moreover have "F x w'" using F w run' by (simp add: yields_def)
  ultimately have "K w' \<and> F x w'" ..
  from safeD [OF k w'(1,2) this run''] later_trans [OF w'(3)]
  show "legal w'' \<and> holds G w'' \<and> later w w''" by simp
qed

lemma safe_timeout_await [safe_rules]:
  assumes "lasting K" and "writes f"
    and "\<And>now w x db'. reg_inv (w_db w) \<Longrightarrow> K w \<Longrightarrow> f now (w_db w) = Inr (x, db') \<Longrightarrow>
      g_write G (w_past w) (w_db w) db'"
  shows "safe G K (timeout_await f)"
  unfolding safe_def
proof (intro allI impI)
  fix w x w'
  assume w: "legal w" "holds G w" "K w" and run: "run_state (timeout_await f) w = (x, w')"
  let ?m = "next_move w" and ?w = "elapse w"
  note e = elapse_legal [OF w(1)] elapse_lasting [OF assms(1) w(1,3)]
  have logs: "holds G ?w" using w(2) by simp
  let ?committed = "\<lambda>db'. ?w\<lparr>w_db := db', own_writes := own_writes ?w @ [(w_past ?w, w_db ?w, db')]\<rparr>"
  have "w' = ?w \<or> (\<exists>y db'. f (mv_now ?m) (w_db ?w) = Inr (y, db') \<and> w' = ?committed db')"
  proof (cases "f (mv_now ?m) (w_db ?w)")
    case (Inl e)
    with run show ?thesis by (simp add: timeout_await_def Let_def)
  next
    case (Inr y)
    with run show ?thesis
      by (cases y) (auto simp: timeout_await_def Let_def split: if_splits)
  qed
  then consider "w' = ?w" | y db' where "f (mv_now ?m) (w_db ?w) = Inr (y, db')" "w' = ?committed db'"
    by blast
  then show "legal w' \<and> holds G w' \<and> later w w'"
  proof cases
    case 1
    with e(1,2) logs show ?thesis by simp
  next
    case 2
    from 2(1) assms(2) have step: "registry_step (w_db ?w) db'" unfolding writes_def by blast
    have inv: "reg_inv db'"
      by (rule registry_system.step_inv [OF legal_reg_inv [OF e(1)] step])
    have "g_write G (w_past ?w) (w_db ?w) db'"
      by (rule assms(3) [OF legal_reg_inv [OF e(1)] e(3) 2(1)])
    with logs 2(2) have "holds G w'" by (simp add: holds_def)
    moreover from e(1) inv 2(2) have "legal w'" by (simp add: legal_def)
    moreover from step 2(2) have "later ?w w'" by (auto simp: later_def)
    ultimately show ?thesis using later_trans [OF e(2)] by simp
  qed
qed

text \<open>Programs that only wait leave the registry to the others.\<close>

lemma safe_waits:
  assumes "\<And>w. snd (run_state m w) = elapse w"
  shows "safe G K m"
  unfolding safe_def
proof (intro allI impI)
  fix w x w'
  assume w: "legal w" "holds G w" "K w" and "run_state m w = (x, w')"
  with assms [of w] have "w' = elapse w" by simp
  with elapse_legal [OF w(1)] w(2) show "legal w' \<and> holds G w' \<and> later w w'"
    by simp
qed

lemma safe_timeout_read [safe_rules]: "safe G K (timeout_read q)"
  by (rule safe_waits) (simp add: timeout_read_def Let_def)

lemma safe_clock [safe_rules]: "safe G K clock"
  by (rule safe_waits) (simp add: clock_def)

lemma safe_chain_read [safe_rules]: "safe G K (chain_read q)"
  by (rule safe_waits) (simp add: chain_read_def)

lemma safe_outside_call [safe_rules]: "safe G K (outside_call q)"
  by (rule safe_waits) (simp add: outside_call_def)

lemma safe_look [safe_rules]: "safe G K (look q)"
  by (simp add: safe_def look_def)

lemma safe_stop_requested [safe_rules]: "safe G K stop_requested"
  unfolding stop_requested_def by (rule safe_look)

lemma safe_await [safe_rules]:
  assumes "lasting K" and "writes f"
    and "\<And>now w x db'. reg_inv (w_db w) \<Longrightarrow> K w \<Longrightarrow> f now (w_db w) = Inr (x, db') \<Longrightarrow>
      g_write G (w_past w) (w_db w) db'"
  shows "safe G K (await f)"
  unfolding await_def by (intro safe_rules assms)

lemma safe_await_read [safe_rules]: "lasting K \<Longrightarrow> safe G K (await_read q)"
  unfolding await_read_def by (intro safe_rules)

lemma safe_now_secs [safe_rules]: "lasting K \<Longrightarrow> safe G K now_secs"
  unfolding now_secs_def by (intro safe_rules)

lemma safe_acts:
  assumes "lasting K" and "\<And>w. snd (run_state m w) \<in> {elapse w, act (elapse w)}"
    and "\<And>w. legal w \<Longrightarrow> holds G w \<Longrightarrow> K w \<Longrightarrow>
      legal (act w) \<and> holds G (act w) \<and> w_db (act w) = w_db w \<and> w_past (act w) = w_past w \<and>
      w_now (act w) = w_now w"
  shows "safe G K m"
  unfolding safe_def
proof (intro allI impI)
  fix w x w'
  assume w: "legal w" "holds G w" "K w" and run: "run_state m w = (x, w')"
  note e = elapse_legal [OF w(1)] elapse_lasting [OF assms(1) w(1,3)]
  have "holds G (elapse w)" using w(2) by simp
  with assms(2) [of w] assms(3) [OF e(1) this e(3)] run e
  show "legal w' \<and> holds G w' \<and> later w w'"
    by (elim insertE) (simp_all add: later_def)
qed

lemma safe_timeout_push [safe_rules]:
  assumes "lasting K" and "\<And>w. reg_inv (w_db w) \<Longrightarrow> K w \<Longrightarrow> g_push G (w_past w) (w_db w) b"
  shows "safe G K (timeout_push b)"
  by (rule safe_acts [where act = "\<lambda>w. w\<lparr>pushed := pushed w @ [(w_past w, w_db w, b)]\<rparr>"])
    (simp_all add: assms timeout_push_def Let_def holds_def legal_def)

lemma safe_await_push [safe_rules]:
  assumes "lasting K" and "\<And>w. reg_inv (w_db w) \<Longrightarrow> K w \<Longrightarrow> g_push G (w_past w) (w_db w) b"
  shows "safe G K (await_push b)"
  unfolding await_push_def by (intro safe_rules assms)

lemma safe_chain_send [safe_rules]:
  assumes "lasting K" and "\<And>w. reg_inv (w_db w) \<Longrightarrow> K w \<Longrightarrow> g_send G (w_past w) (w_db w) tx"
  shows "safe G K (chain_send tx q)"
  by (rule safe_acts [where act = "\<lambda>w. w\<lparr>sent := sent w @ [(w_past w, w_db w, tx)]\<rparr>"])
    (simp_all add: assms chain_send_def holds_def legal_def)

lemma safe_or_return [safe_rules]:
  "safe G K m \<Longrightarrow> lasting K \<Longrightarrow> (\<And>x. safe G K (k x)) \<Longrightarrow> safe G K (or_return m h k)"
  unfolding or_return_def by (intro safe_bind) (auto intro: safe_return split: sum.split)

lemma safe_for_each [safe_rules]:
  assumes "lasting K" and "\<And>x s. x \<in> set xs \<Longrightarrow> safe G K (body x s)"
  shows "safe G K (for_each body xs s)"
  using assms(2)
proof (induction xs arbitrary: s)
  case (Cons x xs)
  show ?case
    by (auto intro!: safe_bind Cons assms(1) safe_return split: prod.split)
qed (simp add: safe_return)

lemma safe_if [safe_rules]:
  "(b \<Longrightarrow> safe G K m) \<Longrightarrow> (\<not> b \<Longrightarrow> safe G K m') \<Longrightarrow> safe G K (if b then m else m')"
  by simp

lemma safe_option [safe_rules]:
  "(x = None \<Longrightarrow> safe G K m) \<Longrightarrow> (\<And>y. x = Some y \<Longrightarrow> safe G K (k y)) \<Longrightarrow>
    safe G K (case x of None \<Rightarrow> m | Some y \<Rightarrow> k y)"
  by (cases x) simp_all

lemma safe_sum [safe_rules]:
  "(\<And>e. x = Inl e \<Longrightarrow> safe G K (h e)) \<Longrightarrow> (\<And>y. x = Inr y \<Longrightarrow> safe G K (k y)) \<Longrightarrow>
    safe G K (case x of Inl e \<Rightarrow> h e | Inr y \<Rightarrow> k y)"
  by (cases x) simp_all

lemma safe_reply [safe_rules]:
  "(\<And>y. x = Ok y \<Longrightarrow> safe G K (k y)) \<Longrightarrow> (\<And>e. x = Err e \<Longrightarrow> safe G K (h e)) \<Longrightarrow>
    (x = Elapsed \<Longrightarrow> safe G K m) \<Longrightarrow>
    safe G K (case x of Ok y \<Rightarrow> k y | Err e \<Rightarrow> h e | Elapsed \<Rightarrow> m)"
  by (cases x) simp_all

lemma safe_prod [safe_rules]: "(\<And>a b. x = (a, b) \<Longrightarrow> safe G K (k a b)) \<Longrightarrow> safe G K (case x of (a, b) \<Rightarrow> k a b)"
  by (cases x) simp

section \<open>What reads teach\<close>

lemma yields_timeout_read:
  assumes "lasting K" and "\<And>now w x. reg_inv (w_db w) \<Longrightarrow> K w \<Longrightarrow> q now (w_db w) = Inr x \<Longrightarrow> F x w"
  shows "yields K (timeout_read q) (\<lambda>r w. \<forall>x. r = Ok x \<longrightarrow> F x w)"
  unfolding yields_def
proof (intro allI impI)
  fix w r w' x
  assume w: "legal w" "K w" and run: "run_state (timeout_read q) w = (r, w')" and r: "r = Ok x"
  note e = legal_reg_inv [OF elapse_legal(1) [OF w(1)]] elapse_lasting [OF assms(1) w]
  from run r have "q (mv_now (next_move w)) (w_db (elapse w)) = Inr x" "w' = elapse w"
    by (auto simp: timeout_read_def Let_def answer_def split: fault.splits sum.splits)
  with assms(2) [OF e] show "F x w'" by blast
qed

lemma yields_await_read:
  assumes "lasting K" and "\<And>now w x. reg_inv (w_db w) \<Longrightarrow> K w \<Longrightarrow> q now (w_db w) = Inr x \<Longrightarrow> F x w"
  shows "yields K (await_read q) (\<lambda>r w. \<forall>x. r = Inr x \<longrightarrow> F x w)"
  using yields_timeout_read [OF assms]
  by (fastforce simp: yields_def await_read_def no_timeout_def split: prod.splits reply.splits)

lemma yields_timeout_await:
  assumes "lasting K"
    and "\<And>now w x w'. reg_inv (w_db w) \<Longrightarrow> K w \<Longrightarrow> f now (w_db w) = Inr (x, w_db w') \<Longrightarrow>
      w_past w' = w_past w \<Longrightarrow> F x w'"
  shows "yields K (timeout_await f) (\<lambda>r w. \<forall>x. r = Ok x \<longrightarrow> F x w)"
  unfolding yields_def
proof (intro allI impI)
  fix w r w' x
  assume w: "legal w" "K w" and run: "run_state (timeout_await f) w = (r, w')" and r: "r = Ok x"
  note e = legal_reg_inv [OF elapse_legal(1) [OF w(1)]] elapse_lasting [OF assms(1) w]
  from run r have "f (mv_now (next_move w)) (w_db (elapse w)) = Inr (x, w_db w')"
    "w_past w' = w_past (elapse w)"
    by (auto simp: timeout_await_def Let_def answer_def commits_def split: fault.splits sum.splits if_splits)
  with assms(2) [OF e] show "F x w'" by blast
qed

lemma yields_await:
  assumes "lasting K"
    and "\<And>now w x w'. reg_inv (w_db w) \<Longrightarrow> K w \<Longrightarrow> f now (w_db w) = Inr (x, w_db w') \<Longrightarrow>
      w_past w' = w_past w \<Longrightarrow> F x w'"
  shows "yields K (await f) (\<lambda>r w. \<forall>x. r = Inr x \<longrightarrow> F x w)"
  using yields_timeout_await [OF assms]
  by (fastforce simp: yields_def await_def no_timeout_def split: prod.splits reply.splits)

lemma safe_assume: "(P \<Longrightarrow> safe G K m) \<Longrightarrow> safe G (\<lambda>w. P \<and> K w) m"
  unfolding safe_def by blast

text \<open>
  Going on from a read or a write with what its answer tells: \<open>C x\<close> of the answer itself, \<open>F x\<close> of
  the registry from then on.
\<close>

lemma safe_then_timeout_read:
  assumes "lasting K" and "\<And>now w x. reg_inv (w_db w) \<Longrightarrow> K w \<Longrightarrow> q now (w_db w) = Inr x \<Longrightarrow> C x \<and> F x w"
    and "\<And>x. lasting (F x)" and "\<And>x. C x \<Longrightarrow> safe G (\<lambda>w. K w \<and> F x w) (k (Ok x))"
    and "\<And>e. safe G K (k (Err e))" and "safe G K (k Elapsed)"
  shows "safe G K (State_Monad.bind (timeout_read q) k)"
proof (rule safe_learn [OF safe_timeout_read yields_timeout_read [OF assms(1,2)] assms(1)])
  show "lasting (\<lambda>w. \<forall>x. r = Ok x \<longrightarrow> C x \<and> F x w)" for r
    by (intro lasting_rules assms(3))
  show "safe G (\<lambda>w. K w \<and> (\<forall>x. r = Ok x \<longrightarrow> C x \<and> F x w)) (k r)" for r
  proof (cases r)
    case (Ok x)
    have "safe G (\<lambda>w. C x \<and> (K w \<and> F x w)) (k r)"
      unfolding Ok by (rule safe_assume) (rule assms(4))
    then show ?thesis by (rule safe_weaken) (simp add: Ok)
  qed (auto intro: safe_weaken [OF assms(5)] safe_weaken [OF assms(6)])
qed

lemma safe_then_await_read:
  assumes "lasting K" and "\<And>now w x. reg_inv (w_db w) \<Longrightarrow> K w \<Longrightarrow> q now (w_db w) = Inr x \<Longrightarrow> C x \<and> F x w"
    and "\<And>x. lasting (F x)" and "\<And>x. C x \<Longrightarrow> safe G (\<lambda>w. K w \<and> F x w) (k (Inr x))"
    and "\<And>e. safe G K (k (Inl e))"
  shows "safe G K (State_Monad.bind (await_read q) k)"
  unfolding await_read_def bind_assoc
proof (rule safe_then_timeout_read [OF assms(1), where C = C and F = F])
  show "\<And>now w x. reg_inv (w_db w) \<Longrightarrow> K w \<Longrightarrow> q now (w_db w) = Inr x \<Longrightarrow> C x \<and> F x w"
    by (rule assms(2))
qed (simp_all add: no_timeout_def assms(3-5))

lemma safe_then_timeout_await:
  assumes "lasting K" and "writes f"
    and "\<And>now w x w'. reg_inv (w_db w) \<Longrightarrow> K w \<Longrightarrow> f now (w_db w) = Inr (x, w_db w') \<Longrightarrow>
      w_past w' = w_past w \<Longrightarrow> g_write G (w_past w) (w_db w) (w_db w') \<and> C x \<and> F x w'"
    and "\<And>x. lasting (F x)" and "\<And>x. C x \<Longrightarrow> safe G (\<lambda>w. K w \<and> F x w) (k (Ok x))"
    and "\<And>e. safe G K (k (Err e))" and "safe G K (k Elapsed)"
  shows "safe G K (State_Monad.bind (timeout_await f) k)"
proof (rule safe_learn [OF safe_timeout_await [OF assms(1,2)]
      yields_timeout_await [OF assms(1), where F = "\<lambda>x w. C x \<and> F x w"] assms(1)])
  show "lasting (\<lambda>w. \<forall>x. r = Ok x \<longrightarrow> C x \<and> F x w)" for r
    by (intro lasting_rules assms(4))
  show "safe G (\<lambda>w. K w \<and> (\<forall>x. r = Ok x \<longrightarrow> C x \<and> F x w)) (k r)" for r
  proof (cases r)
    case (Ok x)
    have "safe G (\<lambda>w. C x \<and> (K w \<and> F x w)) (k r)"
      unfolding Ok by (rule safe_assume) (rule assms(5))
    then show ?thesis by (rule safe_weaken) (simp add: Ok)
  qed (auto intro: safe_weaken [OF assms(6)] safe_weaken [OF assms(7)])
  show "g_write G (w_past w) (w_db w) db'"
    if "reg_inv (w_db w)" "K w" "f now (w_db w) = Inr (x, db')" for now w x db'
    using assms(3) [of w now x "w\<lparr>w_db := db'\<rparr>"] that by simp
  show "C x \<and> F x w'"
    if "reg_inv (w_db w)" "K w" "f now (w_db w) = Inr (x, w_db w')" "w_past w' = w_past w" for now w x w'
    using assms(3) [OF that] by blast
qed

lemma safe_then_await:
  assumes "lasting K" and "writes f"
    and "\<And>now w x w'. reg_inv (w_db w) \<Longrightarrow> K w \<Longrightarrow> f now (w_db w) = Inr (x, w_db w') \<Longrightarrow>
      w_past w' = w_past w \<Longrightarrow> g_write G (w_past w) (w_db w) (w_db w') \<and> C x \<and> F x w'"
    and "\<And>x. lasting (F x)" and "\<And>x. C x \<Longrightarrow> safe G (\<lambda>w. K w \<and> F x w) (k (Inr x))"
    and "\<And>e. safe G K (k (Inl e))"
  shows "safe G K (State_Monad.bind (await f) k)"
  unfolding await_def bind_assoc
proof (rule safe_then_timeout_await [OF assms(1,2), where C = C and F = F])
  show "\<And>now w x w'. reg_inv (w_db w) \<Longrightarrow> K w \<Longrightarrow> f now (w_db w) = Inr (x, w_db w') \<Longrightarrow>
      w_past w' = w_past w \<Longrightarrow> g_write G (w_past w) (w_db w) (w_db w') \<and> C x \<and> F x w'"
    by (rule assms(3))
qed (simp_all add: no_timeout_def assms(4-6))

text \<open>
  Going on from what the chain answers: a value is what it answered at a call now past. Nobody
  answers once the moves have run out.
\<close>

definition chain_said :: "(chain_client \<Rightarrow> chain_client_error + 'a) \<Rightarrow> 'a \<Rightarrow> move list \<Rightarrow> bool" where
  "chain_said q v p \<longleftrightarrow> (\<exists>m \<in> set p. q (mv_chain m) = Inr v)"

lemma lasting_chain_said [lasting_rules]: "lasting (\<lambda>w. chain_said q v (w_past w))"
  unfolding chain_said_def by (rule lasting_past)

lemma yields_chain:
  assumes "\<And>t. \<exists>e. q (mv_chain (quiet t)) = Inl e"
    and "\<And>w. fst (run_state m w) = q (mv_chain (next_move w))"
    and "\<And>w. w_past (snd (run_state m w)) = w_past (elapse w)"
  shows "yields K m (\<lambda>x w. \<forall>v. x = Inr v \<longrightarrow> chain_said q v (w_past w))"
  unfolding yields_def chain_said_def
proof (intro allI impI)
  fix w x w' v
  assume run: "run_state m w = (x, w')" and x: "x = Inr v"
  with assms(2) [of w] have v: "q (mv_chain (next_move w)) = Inr v" by simp
  with assms(1) [of "w_now w"] next_move_past [of w] have "next_move w \<in> set (w_past (elapse w))" by auto
  with v run assms(3) [of w] show "\<exists>m \<in> set (w_past w'). q (mv_chain m) = Inr v" by auto
qed

lemma safe_then_chain:
  assumes "safe G K m" and "yields K m (\<lambda>x w. \<forall>v. x = Inr v \<longrightarrow> chain_said q v (w_past w))"
    and "lasting K" and "\<And>e. safe G K (k (Inl e))"
    and "\<And>v. safe G (\<lambda>w. K w \<and> chain_said q v (w_past w)) (k (Inr v))"
  shows "safe G K (State_Monad.bind m k)"
proof (rule safe_learn [OF assms(1-3)])
  show "lasting (\<lambda>w. \<forall>v. x = Inr v \<longrightarrow> chain_said q v (w_past w))" for x
    by (intro lasting_rules)
  show "safe G (\<lambda>w. K w \<and> (\<forall>v. x = Inr v \<longrightarrow> chain_said q v (w_past w))) (k x)" for x
    by (cases x) (auto intro: safe_weaken [OF assms(4)] safe_weaken [OF assms(5)])
qed

lemma safe_then_chain_read:
  assumes "lasting K" and "\<And>t. \<exists>e. q (mv_chain (quiet t)) = Inl e" and "\<And>e. safe G K (k (Inl e))"
    and "\<And>v. safe G (\<lambda>w. K w \<and> chain_said q v (w_past w)) (k (Inr v))"
  shows "safe G K (State_Monad.bind (chain_read q) k)"
  by (rule safe_then_chain [OF safe_chain_read yields_chain [of q, OF assms(2)] assms(1,3,4)])
    (simp_all add: chain_read_def)

lemma safe_then_chain_send:
  assumes "lasting K" and "\<And>t. \<exists>e. q (mv_chain (quiet t)) = Inl e"
    and "\<And>w. reg_inv (w_db w) \<Longrightarrow> K w \<Longrightarrow> g_send G (w_past w) (w_db w) tx" and "\<And>e. safe G K (k (Inl e))"
    and "\<And>v. safe G (\<lambda>w. K w \<and> chain_said q v (w_past w)) (k (Inr v))"
  shows "safe G K (State_Monad.bind (chain_send tx q) k)"
  by (rule safe_then_chain [OF safe_chain_send [OF assms(1,3)] yields_chain [of q, OF assms(2)] assms(1,4,5)])
    (simp_all add: chain_send_def)

section \<open>Programs with a result\<close>

text \<open>\<open>safe\<close> together with what the result says of the world it is returned in.\<close>

definition ensures :: "guarantee \<Rightarrow> (world \<Rightarrow> bool) \<Rightarrow> 'a prog \<Rightarrow> ('a \<Rightarrow> world \<Rightarrow> bool) \<Rightarrow> bool" where
  "ensures G K m F \<longleftrightarrow> (\<forall>w x w'. legal w \<longrightarrow> holds G w \<longrightarrow> K w \<longrightarrow> run_state m w = (x, w') \<longrightarrow>
     legal w' \<and> holds G w' \<and> later w w' \<and> F x w')"

named_theorems ensures_rules \<open>rules for programs with a result\<close>

lemma ensures_safe: "ensures G K m F \<Longrightarrow> safe G K m"
  unfolding ensures_def safe_def by blast

lemma safe_ensures: "safe G K m \<Longrightarrow> (\<And>x w. F x w) \<Longrightarrow> ensures G K m F"
  unfolding ensures_def safe_def by blast

lemma ensuresI: "safe G K m \<Longrightarrow> yields K m F \<Longrightarrow> ensures G K m F"
  unfolding ensures_def safe_def yields_def by blast

lemma ensuresD:
  assumes "ensures G K m F" and "legal w" and "holds G w" and "K w" and "run_state m w = (x, w')"
  shows "legal w'" "holds G w'" "later w w'" "F x w'"
  using assms unfolding ensures_def by blast+

lemma ensures_weaken:
  "ensures G K m F \<Longrightarrow> (\<And>w. K' w \<Longrightarrow> K w) \<Longrightarrow> (\<And>x w. F x w \<Longrightarrow> F' x w) \<Longrightarrow> ensures G K' m F'"
  unfolding ensures_def by blast

lemma ensures_return [ensures_rules]: "(\<And>w. K w \<Longrightarrow> F x w) \<Longrightarrow> ensures G K (State_Monad.return x) F"
  by (simp add: ensures_def)

lemma ensures_bind:
  assumes "ensures G K m M" and "lasting K" and "\<And>x. ensures G (\<lambda>w. K w \<and> M x w) (k x) F"
  shows "ensures G K (State_Monad.bind m k) F"
  unfolding ensures_def
proof (intro allI impI)
  fix w y w''
  assume w: "legal w" "holds G w" "K w" and run: "run_state (State_Monad.bind m k) w = (y, w'')"
  obtain x w' where run': "run_state m w = (x, w')" by fastforce
  with run have run'': "run_state (k x) w' = (y, w'')" by simp
  note w' = ensuresD [OF assms(1) w run']
  have "K w'" by (rule lastingD [OF assms(2) w'(3) w(1,3)])
  with w'(4) have "K w' \<and> M x w'" by simp
  from ensuresD [OF assms(3) w'(1,2) this run''] later_trans [OF w'(3)]
  show "legal w'' \<and> holds G w'' \<and> later w w'' \<and> F y w''" by simp
qed

lemma ensures_then [ensures_rules]:
  assumes "safe G K m" and "lasting K" and "\<And>x. ensures G K (k x) F"
  shows "ensures G K (State_Monad.bind m k) F"
  by (rule ensures_bind [OF safe_ensures [OF assms(1), of "\<lambda>_ _. True"] assms(2)]) (simp_all add: assms(3))

lemma safe_after:
  assumes "ensures G K m M" and "lasting K" and "\<And>x. safe G (\<lambda>w. K w \<and> M x w) (k x)"
  shows "safe G K (State_Monad.bind m k)"
  by (rule ensures_safe [OF ensures_bind [OF assms(1,2) safe_ensures [OF assms(3)]]]) simp

lemma ensures_if [ensures_rules]:
  "(b \<Longrightarrow> ensures G K m F) \<Longrightarrow> (\<not> b \<Longrightarrow> ensures G K m' F) \<Longrightarrow> ensures G K (if b then m else m') F"
  by simp

lemma ensures_option [ensures_rules]:
  "(x = None \<Longrightarrow> ensures G K m F) \<Longrightarrow> (\<And>y. x = Some y \<Longrightarrow> ensures G K (k y) F) \<Longrightarrow>
    ensures G K (case x of None \<Rightarrow> m | Some y \<Rightarrow> k y) F"
  by (cases x) simp_all

lemma ensures_sum [ensures_rules]:
  "(\<And>e. x = Inl e \<Longrightarrow> ensures G K (h e) F) \<Longrightarrow> (\<And>y. x = Inr y \<Longrightarrow> ensures G K (k y) F) \<Longrightarrow>
    ensures G K (case x of Inl e \<Rightarrow> h e | Inr y \<Rightarrow> k y) F"
  by (cases x) simp_all

lemma ensures_chain:
  assumes "safe G K m" and "lasting K" and "yields K m (\<lambda>x w. \<forall>v. x = Inr v \<longrightarrow> chain_said q v (w_past w))"
    and "\<And>x w. K w \<Longrightarrow> (\<And>v. x = Inr v \<Longrightarrow> chain_said q v (w_past w)) \<Longrightarrow> F x w"
  shows "ensures G K m F"
  unfolding ensures_def
proof (intro allI impI)
  fix w x w'
  assume w: "legal w" "holds G w" "K w" and run: "run_state m w = (x, w')"
  note s = safeD [OF assms(1) w run]
  from assms(3) w run have "\<And>v. x = Inr v \<Longrightarrow> chain_said q v (w_past w')" unfolding yields_def by blast
  with assms(4) [OF lastingD [OF assms(2) s(3) w(1,3)]] s
  show "legal w' \<and> holds G w' \<and> later w w' \<and> F x w'" by blast
qed

lemma ensures_chain_read:
  assumes "lasting K" and "\<And>t. \<exists>e. q (mv_chain (quiet t)) = Inl e"
    and "\<And>x w. K w \<Longrightarrow> (\<And>v. x = Inr v \<Longrightarrow> chain_said q v (w_past w)) \<Longrightarrow> F x w"
  shows "ensures G K (chain_read q) F"
  by (rule ensures_chain [OF safe_chain_read assms(1) yields_chain [of q, OF assms(2)] assms(3)])
    (simp_all add: chain_read_def)

lemma ensures_chain_send:
  assumes "lasting K" and "\<And>t. \<exists>e. q (mv_chain (quiet t)) = Inl e"
    and "\<And>w. reg_inv (w_db w) \<Longrightarrow> K w \<Longrightarrow> g_send G (w_past w) (w_db w) tx"
    and "\<And>x w. K w \<Longrightarrow> (\<And>v. x = Inr v \<Longrightarrow> chain_said q v (w_past w)) \<Longrightarrow> F x w"
  shows "ensures G K (chain_send tx q) F"
  by (rule ensures_chain [OF safe_chain_send [OF assms(1,3)] assms(1) yields_chain [of q, OF assms(2)] assms(4)])
    (simp_all add: chain_send_def)

lemma ensures_clock:
  assumes "lasting K" and "\<And>t w. K w \<Longrightarrow> clock_showed t0 t (w_past w) \<Longrightarrow> F t w"
    and "\<And>w. K w \<Longrightarrow> clock_showed t0 (w_now w) (w_past w)"
  shows "ensures G K clock F"
  unfolding ensures_def
proof (intro allI impI)
  fix w t w'
  assume w: "legal w" "holds G w" "K w" and run: "run_state clock w = (t, w')"
  note s = safeD [OF safe_clock [of G K] w run]
  have K: "K w'" by (rule lastingD [OF assms(1) s(3) w(1,3)])
  from run have "t = w_now w'" by (auto simp: clock_def elapse_def)
  with s assms(2) [OF K] assms(3) [OF K] show "legal w' \<and> holds G w' \<and> later w w' \<and> F t w'" by simp
qed

lemma ensures_keeps:
  assumes "safe G K m" and "lasting K" and "\<And>x w. K w \<Longrightarrow> F x w"
  shows "ensures G K m F"
  unfolding ensures_def
proof (intro allI impI)
  fix w x w'
  assume w: "legal w" "holds G w" "K w" and run: "run_state m w = (x, w')"
  note s = safeD [OF assms(1) w run]
  from s assms(3) [OF lastingD [OF assms(2) s(3) w(1,3)]]
  show "legal w' \<and> holds G w' \<and> later w w' \<and> F x w'" by blast
qed

lemma ensures_await:
  assumes "lasting K" and "writes f"
    and "\<And>now w x w'. reg_inv (w_db w) \<Longrightarrow> K w \<Longrightarrow> f now (w_db w) = Inr (x, w_db w') \<Longrightarrow>
      w_past w' = w_past w \<Longrightarrow> g_write G (w_past w) (w_db w) (w_db w') \<and> F x w'"
  shows "ensures G K (await f) (\<lambda>r w. \<forall>x. r = Inr x \<longrightarrow> F x w)"
proof (rule ensuresI [OF safe_await [OF assms(1,2)] yields_await [OF assms(1)]])
  show "g_write G (w_past w) (w_db w) db'"
    if "reg_inv (w_db w)" "K w" "f now (w_db w) = Inr (x, db')" for now w x db'
    using assms(3) [of w now x "w\<lparr>w_db := db'\<rparr>"] that by simp
  show "F x w'"
    if "reg_inv (w_db w)" "K w" "f now (w_db w) = Inr (x, w_db w')" "w_past w' = w_past w" for now w x w'
    using assms(3) [OF that] by blast
qed

lemma ensures_timeout_await:
  assumes "lasting K" and "writes f"
    and "\<And>now w x w'. reg_inv (w_db w) \<Longrightarrow> K w \<Longrightarrow> f now (w_db w) = Inr (x, w_db w') \<Longrightarrow>
      w_past w' = w_past w \<Longrightarrow> g_write G (w_past w) (w_db w) (w_db w') \<and> F x w'"
  shows "ensures G K (timeout_await f) (\<lambda>r w. \<forall>x. r = Ok x \<longrightarrow> F x w)"
proof (rule ensuresI [OF safe_timeout_await [OF assms(1,2)] yields_timeout_await [OF assms(1)]])
  show "g_write G (w_past w) (w_db w) db'"
    if "reg_inv (w_db w)" "K w" "f now (w_db w) = Inr (x, db')" for now w x db'
    using assms(3) [of w now x "w\<lparr>w_db := db'\<rparr>"] that by simp
  show "F x w'"
    if "reg_inv (w_db w)" "K w" "f now (w_db w) = Inr (x, w_db w')" "w_past w' = w_past w" for now w x w'
    using assms(3) [OF that] by blast
qed

lemma nothing_sent:
  assumes "holds G w" and "\<And>p db tx. \<not> g_send G p db tx"
  shows "sent w = []"
proof (cases "sent w")
  case (Cons e es)
  with assms(1) have "case e of (p, db, x) \<Rightarrow> g_send G p db x" by (simp add: holds_def)
  with assms(2) show ?thesis by (cases e) simp
qed

lemma nothing_pushed:
  assumes "holds G w" and "\<And>p db b. \<not> g_push G p db b"
  shows "pushed w = []"
proof (cases "pushed w")
  case (Cons e es)
  with assms(1) have "case e of (p, db, x) \<Rightarrow> g_push G p db x" by (simp add: holds_def)
  with assms(2) show ?thesis by (cases e) simp
qed

section \<open>The contract of a service\<close>

text \<open>
  What a service promises the others: from a legal world in which it has done nothing yet, its
  program moves the registry along the steps the others rely on and keeps its guarantee.
\<close>

locale service =
  fixes G :: guarantee and K :: "world \<Rightarrow> bool" and program :: "'a prog"
  assumes program_safe: "safe G K program"
begin

lemma run:
  assumes "legal w" and "nothing_done w" and "K w" and "run_state program w = (x, w')"
  shows "legal w'" "holds G w'" "registry_step\<^sup>*\<^sup>* (w_db w) (w_db w')" "later w w'"
  using safeD [OF program_safe assms(1) nothing_done_holds [OF assms(2)] assms(3,4)]
  by (simp_all add: later_def)

end

lemma lasting_since [lasting_rules]: "lasting (\<lambda>w. registry_step\<^sup>*\<^sup>* db0 (w_db w))"
  by (auto simp: lasting_def later_def)

section \<open>Undisturbed worlds\<close>

text \<open>With no moves left nobody else runs and nothing fails.\<close>

lemma quiet_elapse: "w_moves w = [] \<Longrightarrow> elapse w = w"
  by (simp add: elapse_def next_move_def quiet_def)

lemma quiet_next: "w_moves w = [] \<Longrightarrow> next_move w = quiet (w_now w)"
  by (simp add: next_move_def)

lemma quiet_calls [simp]: "mv_now (quiet t) = t" "mv_fault (quiet t) = NoFault" "mv_stop (quiet t) = False"
  by (simp_all add: quiet_def)

lemma quiet_answer [simp]: "answer NoFault r = r" "commits NoFault"
  by (simp_all add: answer_def commits_def)

lemma quiet_read:
  "w_moves w = [] \<Longrightarrow> run_state (timeout_read q) w =
    ((case q (w_now w) (w_db w) of Inl e \<Rightarrow> Err (Refused e) | Inr x \<Rightarrow> Ok x), w)"
  by (simp add: timeout_read_def Let_def quiet_elapse quiet_next)

lemma quiet_await:
  "w_moves w = [] \<Longrightarrow> run_state (timeout_await f) w = (case f (w_now w) (w_db w) of
      Inl e \<Rightarrow> (Err (Refused e), w)
    | Inr (x, db') \<Rightarrow> (Ok x, w\<lparr>w_db := db', own_writes := own_writes w @ [(w_past w, w_db w, db')]\<rparr>))"
  by (simp add: timeout_await_def Let_def quiet_elapse quiet_next split: sum.split)

lemma quiet_push:
  "w_moves w = [] \<Longrightarrow> run_state (timeout_push b) w = (Ok (), w\<lparr>pushed := pushed w @ [(w_past w, w_db w, b)]\<rparr>)"
  by (simp add: timeout_push_def Let_def quiet_elapse quiet_next)

section \<open>The calls of the registry\<close>

lemma writes_calls [registry_writes]:
  "writes (\<lambda>now. set_indexing_target_candidates now i who d ch n)"
  "writes (\<lambda>_. set_indexing_request_shortfall_active rid act)"
  "writes (\<lambda>now. register_new_indexing_agreement now p)"
  "writes (\<lambda>now. register_agreement_with_pending_cancellation now p old_id)"
  "writes (\<lambda>_. delete_pending_cancellations_by_new_agreement aid)"
  "writes (\<lambda>now. mark_indexing_agreement_as_unresponsive now aid)"
  "writes (\<lambda>now. mark_indexing_agreement_as_expired now aid)"
  "writes (\<lambda>now. mark_indexing_agreement_as_rejected now aid reason)"
  "writes (\<lambda>now. mark_indexing_agreement_as_canceled_by_requester now aid)"
  "writes (\<lambda>now. mark_indexing_agreement_as_abandoned_by_indexer now aid)"
  "writes (\<lambda>now. mark_indexing_agreement_as_cancelling now aid)"
  "writes (\<lambda>now. mark_indexing_agreement_as_abandoning now aid)"
  "writes (\<lambda>now. reopen_indexing_agreement_cancel now aid live)"
  "writes (\<lambda>now. update_offer_tx_hash now aid h)"
  "writes (\<lambda>now. record_cancel_check now aid failed ended)"
  "writes (\<lambda>now. apply_reconciliation now aid accept cancel)"
  "writes (\<lambda>_. record_accepted_audit aid sec tx)"
  "writes (\<lambda>_. record_cancel_audit aid sec whom end_tx)"
  "writes (\<lambda>_. mark_replacement_queued aid)"
  "writes (\<lambda>_. update_agreement_sync_progress aid height progress)"
  "writes (\<lambda>now. apply_reconciliation_batch now items)"
  "writes (\<lambda>_. delete_pending_cancellation aid old_id)"
  "writes (\<lambda>_. record_accept_and_cancel_audit aid sec tx end_sec whom end_tx)"
  "writes (\<lambda>now. mark_terminated_event_emitted now aid)"
  "writes (\<lambda>now. mark_accepted_event_emitted now aid)"
  "writes (\<lambda>now. mark_expired_event_emitted now aid)"
  "writes (\<lambda>now. update_chain_listener_state now net block last_id ts)"
  "writes (\<lambda>now. record_dips_info_checks now missing added)"
  "writes (\<lambda>now. block_missing_dips_info now ixs for_secs)"
  unfolding writes_def by (intro allI impI, erule registry_step.intros)+

section \<open>What a write does to the rows\<close>

text \<open>Every status a write changes it changes as \<open>P\<close> says.\<close>

definition status_moves :: "(agreement_row \<Rightarrow> agreement_row \<Rightarrow> bool) \<Rightarrow> registry \<Rightarrow> registry \<Rightarrow> bool" where
  "status_moves P db db' \<longleftrightarrow> (\<forall>r \<in> set (agreements db). \<forall>r' \<in> set (agreements db').
     a_id r' = a_id r \<longrightarrow> a_status r' \<noteq> a_status r \<longrightarrow> P r r')"

lemma status_moves_same:
  assumes "reg_inv db" and "map (\<lambda>r. (a_id r, a_status r)) (agreements db') = map (\<lambda>r. (a_id r, a_status r)) (agreements db)"
  shows "status_moves P db db'"
proof -
  have "a_status r' = a_status r" if "r \<in> set (agreements db)" "r' \<in> set (agreements db')" "a_id r' = a_id r" for r r'
  proof -
    have "(a_id r', a_status r') \<in> (\<lambda>r. (a_id r, a_status r)) ` set (agreements db)"
      using that(2) assms(2) by (metis (no_types, lifting) image_eqI image_set)
    then obtain q where "q \<in> set (agreements db)" "a_id q = a_id r'" "a_status q = a_status r'" by auto
    moreover from this that assms(1) have "q = r"
      by (auto simp: reg_inv_def dest: distinct_map_keyD)
    ultimately show ?thesis by simp
  qed
  then show ?thesis by (auto simp: status_moves_def)
qed

lemma status_moves_update:
  assumes "reg_inv db" and "\<And>r. a_id (f r) = a_id r"
    and "\<And>r. r \<in> set (agreements db) \<Longrightarrow> Q r \<Longrightarrow> P r (f r)"
  shows "status_moves P db (db\<lparr>agreements := sql_update Q f (agreements db)\<rparr>)"
  unfolding status_moves_def
proof (intro ballI impI)
  fix r r'
  assume r: "r \<in> set (agreements db)" and r': "r' \<in> set (agreements (db\<lparr>agreements := sql_update Q f (agreements db)\<rparr>))"
    and same: "a_id r' = a_id r" and change: "a_status r' \<noteq> a_status r"
  from r' obtain q where q: "q \<in> set (agreements db)" "r' = (if Q q then f q else q)"
    by (auto simp: set_sql_update)
  with same assms(2) have "a_id q = a_id r" by (simp split: if_splits)
  with q(1) r assms(1) have "q = r" by (auto simp: reg_inv_def dest: distinct_map_keyD)
  with q(2) change r assms(3) show "P r r'" by (auto split: if_splits)
qed

lemma any_row_update_status:
  assumes "any_row (update_status Q f) db = Inr (u, db')"
  shows "db' = db\<lparr>agreements := sql_update Q f (agreements db)\<rparr>" "\<exists>r \<in> set (agreements db). Q r"
proof -
  from assms have "db' = db\<lparr>agreements := sql_update Q f (agreements db)\<rparr> \<and> filter Q (agreements db) \<noteq> []"
    by (auto simp: any_row_def some_row_def tx_bind_def update_status_def Let_def sql_returning_def
        split: if_splits list.splits sum.splits)
  then show "db' = db\<lparr>agreements := sql_update Q f (agreements db)\<rparr>" "\<exists>r \<in> set (agreements db). Q r"
    by (auto simp: filter_empty_conv)
qed

text \<open>The row an agreement handed out was read from: what identifies it never changes.\<close>

definition read_from :: "indexing_agreement \<Rightarrow> agreement_row \<Rightarrow> bool" where
  "read_from a r \<longleftrightarrow> a_id r = ia_id a \<and> a_request_id r = ia_request_id a \<and> a_indexer_id r = ia_indexer_id a \<and>
     a_terms r = ia_terms a \<and> a_terms_version_hash r = ia_terms_version_hash a \<and> may_become (ia_status a) (a_status r)"

lemma read_from_row [simp]: "read_from (agreement_from_row r) r"
  by (simp add: read_from_def agreement_from_row_def)

lemma read_from_step: "read_from a r \<Longrightarrow> row_step r r' \<Longrightarrow> read_from a r'"
  by (auto simp: read_from_def row_step_def same_identity_def intro: may_become_trans)

lemma lasting_read_from [lasting_rules]: "lasting (\<lambda>w. \<exists>r \<in> set (agreements (w_db w)). read_from a r)"
  by (rule lasting_row) (rule read_from_step)

text \<open>A background reassessment of the request an agreement serves.\<close>

definition reassessment_of :: "agreement_row \<Rightarrow> message job_builder \<Rightarrow> bool" where
  "reassessment_of r b \<longleftrightarrow> (\<exists>n. b = reassess_indexing_request_job (a_request_id r)
     (m_subgraph_deployment_id (t_metadata (a_terms r))) (m_chain_id (t_metadata (a_terms r))) n Background)"

section \<open>Sample worlds\<close>

text \<open>Worlds used to instantiate the properties of the services.\<close>

definition sample_world :: "registry \<Rightarrow> move list \<Rightarrow> world" where
  "sample_world db ms = \<lparr>w_db = db, w_moves = ms, w_past = [], w_now = 5, own_writes = [], pushed = [], sent = []\<rparr>"

lemma sample_world_legal:
  assumes "reachable db" and "\<forall>m \<in> set ms. mv_env m = id"
  shows "legal (sample_world db ms)" "nothing_done (sample_world db ms)"
proof -
  from assms(1) have "reg_inv db" unfolding reachable_def by (rule registry_system.reachable_inv [OF refl])
  with assms(2) show "legal (sample_world db ms)" "nothing_done (sample_world db ms)"
    by (simp_all add: sample_world_def legal_def nothing_done_def)
qed

definition sample_listened :: registry where
  "sample_listened = (sample_registry Created)\<lparr>listener_states :=
     [\<lparr>ls_chain_id = 42161, ls_last_processed_block = 8, ls_last_processed_id = None,
       ls_last_processed_block_timestamp = Some 5000, ls_updated_at = 5\<rparr>]\<rparr>"

lemma sample_listened_reachable: "reachable sample_listened"
proof -
  have "update_chain_listener_state 5 42161 8 None (Some 5000) (sample_registry Created) = Inr ((), sample_listened)"
    by (simp add: update_chain_listener_state_def sample_listened_def as_i64_small sample_registry_def empty_registry_def)
  then have "registry_step (sample_registry Created) sample_listened" by (rule registry_step.intros)
  with sample_created show ?thesis by (rule reachable_step)
qed

end
