(* ===== verification/Expiration.thy ===== *)
theory Expiration
  imports Rely_Guarantee
begin

text \<open>
  \<open>network/service/expiration.rs\<close>: the service that marks offers nobody accepted in time
  \<open>Expired\<close> and queues a reassessment of their requests. It measures time by the chain, as far as the
  chain listener has processed it, and holds back by a grace period.
\<close>

section \<open>The service\<close>

record expiration_config =
  ex_batch_size :: int
  ex_grace :: u64

record scan =
  sc_marked :: nat
  sc_queued :: nat
  sc_failed :: nat

datatype scan_outcome = Dormant | QueryFailed | NothingExpired | Stopping | Scanned scan

text \<open>The chain's time as the listener left it; an error reads as no time.\<close>

definition listener_time :: "u64 option \<Rightarrow> u64 option prog" where
  "listener_time chain = (case chain of
       None \<Rightarrow> State_Monad.return None
     | Some cid \<Rightarrow> do {
         r \<leftarrow> await_read (\<lambda>_ db. Inr (get_chain_listener_state cid db));
         State_Monad.return (case r of
             Inr (Some state) \<Rightarrow> cl_last_processed_block_timestamp state
           | Inr None \<Rightarrow> None
           | Inl _ \<Rightarrow> None) })"

text \<open>Queueing the reassessment of an expired agreement's request; whether a job was queued.\<close>

definition queue_expired :: "indexing_agreement \<Rightarrow> bool prog" where
  "queue_expired agreement = do {
     r \<leftarrow> timeout_read (\<lambda>_ db. Inr (get_indexing_request_by_id (ia_request_id agreement) db));
     case r of
       Ok request \<Rightarrow> (case request of
           Some req \<Rightarrow> do {
             p \<leftarrow> timeout_push (reassess_indexing_request_job (ia_request_id agreement)
               (m_subgraph_deployment_id (t_metadata (ia_terms agreement)))
               (m_chain_id (t_metadata (ia_terms agreement)))
               (ir_num_candidates req) Background);
             State_Monad.return (case p of Ok _ \<Rightarrow> True | Err _ \<Rightarrow> False | Elapsed \<Rightarrow> False) }
         | None \<Rightarrow> State_Monad.return False)
     | Err _ \<Rightarrow> State_Monad.return False
     | Elapsed \<Rightarrow> State_Monad.return False }"

text \<open>One turn of the loop: the first component says whether to go on.\<close>

definition expire_one :: "indexing_agreement \<Rightarrow> scan \<Rightarrow> (bool \<times> scan) prog" where
  "expire_one agreement s = do {
     stop \<leftarrow> stop_requested;
     if stop then State_Monad.return (False, s)
     else do {
       r \<leftarrow> timeout_await (\<lambda>now. mark_indexing_agreement_as_expired now (ia_id agreement));
       case r of
         Ok _ \<Rightarrow> do {
           _ \<leftarrow> await (\<lambda>_. delete_pending_cancellations_by_new_agreement (ia_id agreement));
           queued \<leftarrow> queue_expired agreement;
           State_Monad.return (True, s\<lparr>sc_marked := sc_marked s + 1,
             sc_queued := (if queued then sc_queued s + 1 else sc_queued s)\<rparr>) }
       | Err _ \<Rightarrow> State_Monad.return (True, s\<lparr>sc_failed := sc_failed s + 1\<rparr>)
       | Elapsed \<Rightarrow> State_Monad.return (True, s\<lparr>sc_failed := sc_failed s + 1\<rparr>) } }"

fun expire_all :: "indexing_agreement list \<Rightarrow> scan \<Rightarrow> scan_outcome prog" where
  "expire_all [] s = State_Monad.return (Scanned s)"
| "expire_all (a # as) s = do {
     (go, s') \<leftarrow> expire_one a s;
     if go then expire_all as s' else State_Monad.return Stopping }"

text \<open>The scan of a tick, once the chain's time is known.\<close>

definition expiration_scan :: "expiration_config \<Rightarrow> u64 \<Rightarrow> scan_outcome prog" where
  "expiration_scan cfg ts = do {
     r \<leftarrow> timeout_read (\<lambda>_ db. Inr (get_expired_created_agreements (ex_batch_size cfg)
            (saturating_sub ts (ex_grace cfg)) db));
     case r of
       Ok expired \<Rightarrow>
         if expired = [] then State_Monad.return NothingExpired
         else expire_all expired \<lparr>sc_marked = 0, sc_queued = 0, sc_failed = 0\<rparr>
     | Err _ \<Rightarrow> State_Monad.return QueryFailed
     | Elapsed \<Rightarrow> State_Monad.return QueryFailed }"

text \<open>One tick of the service's loop, with its counter of ticks without a chain time.\<close>

definition expiration_tick :: "expiration_config \<Rightarrow> u64 option \<Rightarrow> u32 \<Rightarrow> (u32 \<times> scan_outcome) prog" where
  "expiration_tick cfg chain dormant_cycles = do {
     chain_ts \<leftarrow> listener_time chain;
     case chain_ts of
       None \<Rightarrow> State_Monad.return (dormant_cycles + 1, Dormant)
     | Some ts \<Rightarrow> do { out \<leftarrow> expiration_scan cfg ts; State_Monad.return (0, out) } }"

section \<open>What it guarantees\<close>

definition overdue :: "u64 \<Rightarrow> u64 \<Rightarrow> agreement_terms \<Rightarrow> bool" where
  "overdue grace ts t \<longleftrightarrow> uint (t_deadline t) + uint grace < uint ts"

text \<open>A time of the chain that the listener had on record at some point since \<open>db0\<close>.\<close>

definition listener_saw :: "registry \<Rightarrow> u64 option \<Rightarrow> u64 \<Rightarrow> bool" where
  "listener_saw db0 chain ts \<longleftrightarrow> (\<exists>db cid st. registry_step\<^sup>*\<^sup>* db0 db \<and> chain = Some cid \<and>
     get_chain_listener_state cid db = Some st \<and> cl_last_processed_block_timestamp st = Some ts)"

definition expiration_guarantee :: "registry \<Rightarrow> u64 option \<Rightarrow> u64 \<Rightarrow> guarantee" where
  "expiration_guarantee db0 chain grace = \<lparr>
     g_write = (\<lambda>_. status_moves (\<lambda>r r'. a_status r = Created \<and> a_status r' = Expired \<and>
       (\<exists>ts. listener_saw db0 chain ts \<and> overdue grace ts (a_terms r)))),
     g_push = (\<lambda>_ db b. \<exists>r \<in> set (agreements db). a_status r \<noteq> Created \<and> reassessment_of r b),
     g_send = (\<lambda>_ _ _. False)\<rparr>"

lemma mark_expired_moves:
  assumes "reg_inv db" and "mark_indexing_agreement_as_expired now i db = Inr (u, db')"
    and "\<And>r. r \<in> set (agreements db) \<Longrightarrow> a_id r = i \<Longrightarrow> P r"
  shows "status_moves (\<lambda>r r'. a_status r = Created \<and> a_status r' = Expired \<and> P r) db db'"
  unfolding any_row_update_status(1) [OF assms(2) [unfolded mark_indexing_agreement_as_expired_def]]
  by (rule status_moves_update) (auto simp: assms)

lemma mark_expired_row:
  assumes "mark_indexing_agreement_as_expired now i db = Inr (u, db')"
    and "reg_inv db" and "r \<in> set (agreements db)" and "a_id r = i"
  shows "\<exists>r' \<in> set (agreements db'). a_status r' = Expired \<and> same_identity r r'"
proof -
  note m = any_row_update_status [OF assms(1) [unfolded mark_indexing_agreement_as_expired_def]]
  from m(2) obtain q where "q \<in> set (agreements db)" "a_id q = i" "a_status q = Created" by blast
  moreover from this assms(2-4) have "q = r" by (auto simp: reg_inv_def dest: distinct_map_keyD)
  ultimately show ?thesis
    by (intro bexI [of _ "r\<lparr>a_status := Expired, a_updated_at := now\<rparr>"])
      (auto simp: m(1) set_sql_update same_identity_def)
qed

lemma deleted_pending_moves:
  assumes "reg_inv db" and "delete_pending_cancellations_by_new_agreement i db = Inr (u, db')"
  shows "status_moves P db db'"
  using assms by (intro status_moves_same) (auto simp: delete_pending_cancellations_by_new_agreement_def)

definition ended_row :: "indexing_agreement \<Rightarrow> agreement_row \<Rightarrow> bool" where
  "ended_row a r \<longleftrightarrow> a_status r \<noteq> Created \<and> a_request_id r = ia_request_id a \<and> a_terms r = ia_terms a"

lemma lasting_ended_row [lasting_rules]: "lasting (\<lambda>w. \<exists>r \<in> set (agreements (w_db w)). ended_row a r)"
proof (rule lasting_row)
  fix r r'
  assume "ended_row a r" "row_step r r'"
  then show "ended_row a r'"
    by (cases "a_status r") (auto simp: ended_row_def row_step_def same_identity_def ending_def)
qed

lemma safe_queue_expired:
  "safe (expiration_guarantee db0 chain grace) (\<lambda>w. \<exists>r \<in> set (agreements (w_db w)). ended_row a r)
    (queue_expired a)"
  unfolding queue_expired_def
  by (intro safe_rules lasting_rules)
    (fastforce simp: expiration_guarantee_def ended_row_def reassessment_of_def)+

lemma safe_expire_one:
  assumes "listener_saw db0 chain ts" and "overdue grace ts (ia_terms a)"
  shows "safe (expiration_guarantee db0 chain grace)
    (\<lambda>w. \<exists>r \<in> set (agreements (w_db w)). read_from a r) (expire_one a s)"
    (is "safe ?G ?K _")
proof -
  have marked: "safe ?G ?K (timeout_await (\<lambda>now. mark_indexing_agreement_as_expired now (ia_id a)))"
  proof (intro safe_timeout_await lasting_rules registry_writes)
    fix now and w :: world and x db'
    let ?db = "w_db w"
    assume db: "reg_inv ?db" "?K w" "mark_indexing_agreement_as_expired now (ia_id a) ?db = Inr (x, db')"
    have "a_terms r = ia_terms a" if "r \<in> set (agreements ?db)" "a_id r = ia_id a" for r
      using db(1,2) that by (auto simp: read_from_def reg_inv_def dest: distinct_map_keyD)
    then have "\<exists>ts. listener_saw db0 chain ts \<and> overdue grace ts (a_terms r)"
      if "r \<in> set (agreements ?db)" "a_id r = ia_id a" for r
      using assms that by auto
    from mark_expired_moves [OF db(1,3) this] show "g_write ?G (w_past w) ?db db'"
      by (simp add: expiration_guarantee_def)
  qed
  have learned: "yields ?K (timeout_await (\<lambda>now. mark_indexing_agreement_as_expired now (ia_id a)))
    (\<lambda>r w. \<forall>x. r = Ok x \<longrightarrow> (\<exists>r \<in> set (agreements (w_db w)). ended_row a r))"
  proof (intro yields_timeout_await lasting_rules)
    fix now x and w w' :: world
    let ?db = "w_db w" and ?db' = "w_db w'"
    assume db: "reg_inv ?db" "?K w" "mark_indexing_agreement_as_expired now (ia_id a) ?db = Inr (x, ?db')"
    then obtain r where "r \<in> set (agreements ?db)" "read_from a r" by blast
    moreover from this mark_expired_row [OF db(3,1)] obtain r' where
      "r' \<in> set (agreements ?db')" "a_status r' = Expired" "same_identity r r'"
      by (auto simp: read_from_def)
    ultimately show "\<exists>r \<in> set (agreements ?db'). ended_row a r"
      by (intro bexI [of _ r']) (auto simp: read_from_def ended_row_def same_identity_def)
  qed
  have rest: "safe ?G (\<lambda>w. \<exists>r \<in> set (agreements (w_db w)). ended_row a r)
      (do { _ \<leftarrow> await (\<lambda>_. delete_pending_cancellations_by_new_agreement (ia_id a));
            queued \<leftarrow> queue_expired a;
            State_Monad.return (k queued) })" for k :: "bool \<Rightarrow> bool \<times> scan"
    by (intro safe_rules lasting_ended_row registry_writes safe_queue_expired)
      (auto simp: expiration_guarantee_def intro: deleted_pending_moves)
  show ?thesis
    unfolding expire_one_def
    by (intro safe_bind [OF safe_stop_requested] lasting_read_from safe_if safe_return
        safe_learn [OF marked learned] lasting_rules safe_reply lasting_ended_row
        safe_weaken [OF rest]) auto
qed


lemma safe_expire_all:
  assumes "listener_saw db0 chain ts"
    and "\<And>a. a \<in> set as \<Longrightarrow> overdue grace ts (ia_terms a)"
  shows "safe (expiration_guarantee db0 chain grace)
    (\<lambda>w. \<forall>a \<in> set as. \<exists>r \<in> set (agreements (w_db w)). read_from a r) (expire_all as s)"
  using assms(2)
proof (induction as arbitrary: s)
  case (Cons a as)
  have "safe (expiration_guarantee db0 chain grace)
      (\<lambda>w. \<forall>a \<in> set (a # as). \<exists>r \<in> set (agreements (w_db w)). read_from a r) (expire_one a s)"
    by (rule safe_weaken [OF safe_expire_one [OF assms(1)]]) (auto intro: Cons.prems)
  moreover have "safe (expiration_guarantee db0 chain grace)
      (\<lambda>w. \<forall>a \<in> set (a # as). \<exists>r \<in> set (agreements (w_db w)). read_from a r) (expire_all as s')" for s'
    by (rule safe_weaken [OF Cons.IH]) (auto intro: Cons.prems)
  ultimately show ?case
    unfolding expire_all.simps by (intro safe_bind safe_prod safe_if safe_return lasting_rules)
qed (simp add: safe_return)

lemma expired_created_overdue:
  assumes "reg_inv db" and "a \<in> set (get_expired_created_agreements n (saturating_sub ts grace) db)"
  shows "overdue grace ts (ia_terms a)" "\<exists>r \<in> set (agreements db). read_from a r"
proof -
  from assms(2) obtain r where r: "r \<in> set (agreements db)" "a = agreement_from_row r"
    "deadline_secs r < as_i64 (saturating_sub ts grace)"
    by (auto simp: get_expired_created_agreements_def limit_if_positive_def dest!: in_set_takeD split: if_splits)
  have "deadline_secs r < max 0 (uint ts - uint grace)"
    using r(3) as_i64_le_uint [of "saturating_sub ts grace"] by (simp add: uint_saturating_sub)
  moreover have "0 \<le> deadline_secs r" by simp
  ultimately have "deadline_secs r + uint grace < uint ts" by linarith
  with r(2) show "overdue grace ts (ia_terms a)"
    by (simp add: overdue_def agreement_from_row_def)
  from r(1,2) read_from_row show "\<exists>r \<in> set (agreements db). read_from a r" by blast
qed


lemma safe_expiration_scan:
  assumes "listener_saw db0 chain ts"
  shows "safe (expiration_guarantee db0 chain (ex_grace cfg)) (\<lambda>_. True) (expiration_scan cfg ts)"
  unfolding expiration_scan_def
proof (rule safe_then_timeout_read [where C = "\<lambda>as. \<forall>a \<in> set as. overdue (ex_grace cfg) ts (ia_terms a)"
      and F = "\<lambda>as w. \<forall>a \<in> set as. \<exists>r \<in> set (agreements (w_db w)). read_from a r"])
  fix as :: "indexing_agreement list"
  assume "\<forall>a \<in> set as. overdue (ex_grace cfg) ts (ia_terms a)"
  then have "safe (expiration_guarantee db0 chain (ex_grace cfg))
      (\<lambda>w. \<forall>a \<in> set as. \<exists>r \<in> set (agreements (w_db w)). read_from a r) (expire_all as s)" for s
    by (intro safe_expire_all [OF assms]) auto
  then show "safe (expiration_guarantee db0 chain (ex_grace cfg))
      (\<lambda>w. True \<and> (\<forall>a \<in> set as. \<exists>r \<in> set (agreements (w_db w)). read_from a r))
      (case Ok as of
         Ok expired \<Rightarrow>
           if expired = [] then State_Monad.return NothingExpired
           else expire_all expired \<lparr>sc_marked = 0, sc_queued = 0, sc_failed = 0\<rparr>
       | Err _ \<Rightarrow> State_Monad.return QueryFailed
       | Elapsed \<Rightarrow> State_Monad.return QueryFailed)"
    by (simp add: safe_return)
qed (auto intro!: lasting_rules safe_return dest: expired_created_overdue)

lemma safe_expiration_tick:
  "safe (expiration_guarantee db0 chain (ex_grace cfg)) (\<lambda>w. registry_step\<^sup>*\<^sup>* db0 (w_db w))
    (expiration_tick cfg chain n)"
proof (cases chain)
  case (Some cid)
  let ?G = "expiration_guarantee db0 chain (ex_grace cfg)"
  let ?go = "\<lambda>x. case x of None \<Rightarrow> State_Monad.return (n + 1, Dormant)
      | Some ts \<Rightarrow> do { out \<leftarrow> expiration_scan cfg ts; State_Monad.return (0, out) }"
  have go: "safe ?G (\<lambda>_. True) (?go x)" if "\<And>ts. x = Some ts \<Longrightarrow> listener_saw db0 chain ts" for x
    using that by (intro safe_option safe_return safe_bind [OF safe_expiration_scan] lasting_rules) auto
  show ?thesis
    unfolding expiration_tick_def listener_time_def Some option.case bind_assoc bind_left_identity
  proof (rule safe_then_await_read [where F = "\<lambda>_ _. True"
        and C = "\<lambda>x. \<forall>st ts. x = Some st \<longrightarrow> cl_last_processed_block_timestamp st = Some ts \<longrightarrow>
          listener_saw db0 chain ts"])
    fix x
    assume "\<forall>st ts. x = Some st \<longrightarrow> cl_last_processed_block_timestamp st = Some ts \<longrightarrow>
        listener_saw db0 chain ts"
    then have "safe ?G (\<lambda>_. True) (?go (case x of None \<Rightarrow> None | Some st \<Rightarrow> cl_last_processed_block_timestamp st))"
      by (intro go) (auto split: option.splits)
    then show "safe (expiration_guarantee db0 (Some cid) (ex_grace cfg)) (\<lambda>w. registry_step\<^sup>*\<^sup>* db0 (w_db w) \<and> True)
      (?go (case Inr x of Inr (Some state) \<Rightarrow> cl_last_processed_block_timestamp state
           | Inr None \<Rightarrow> None | Inl _ \<Rightarrow> None))"
      unfolding Some [symmetric] by (cases x) (auto elim: safe_weaken)
  qed (auto simp: listener_saw_def Some safe_return intro: lasting_rules)
qed (simp add: expiration_tick_def listener_time_def safe_return)

interpretation expiration_service: service "expiration_guarantee db0 chain (ex_grace cfg)"
    "\<lambda>w. registry_step\<^sup>*\<^sup>* db0 (w_db w)" "expiration_tick cfg chain n" for db0 chain cfg n
  by unfold_locales (rule safe_expiration_tick)




section \<open>Undisturbed, it expires everything that is due\<close>

lemma unique_active_shrinks:
  assumes "unique_active t" and "\<And>r. \<not> active (f r)"
  shows "unique_active (sql_update Q f t)"
proof -
  have "filter active (sql_update Q f t) = filter (\<lambda>r. active r \<and> \<not> Q r) t"
    using assms(2) by (induction t) auto
  moreover have "distinct (map slot (filter (\<lambda>r. \<not> Q r) (filter active t)))"
    using assms(1) distinct_map_filterI [of slot "filter active t"] by (simp add: unique_active_def)
  ultimately show ?thesis
    by (simp add: unique_active_def conj_commute [of "active _"])
qed

definition expired_at :: "timestamp \<Rightarrow> agreement_row \<Rightarrow> agreement_row" where
  "expired_at now r = r\<lparr>a_status := Expired, a_updated_at := now\<rparr>"

lemma mark_expired_succeeds:
  assumes "reg_inv db" and "r \<in> set (agreements db)" and "a_status r = Created"
  shows "mark_indexing_agreement_as_expired now (a_id r) db =
    Inr ((), db\<lparr>agreements := sql_update (\<lambda>q. a_id q = a_id r \<and> a_status q = Created) (expired_at now) (agreements db)\<rparr>)"
proof -
  let ?Q = "\<lambda>q. a_id q = a_id r \<and> a_status q = Created"
  have "unique_active (sql_update ?Q (expired_at now) (agreements db))"
    using assms(1) by (intro unique_active_shrinks) (simp_all add: reg_inv_def active_def expired_at_def)
  moreover have "filter ?Q (agreements db) \<noteq> []" using assms(2,3) by (auto simp: filter_empty_conv)
  moreover have "(\<lambda>r. r\<lparr>a_status := Expired, a_updated_at := now\<rparr>) = expired_at now"
    by (simp add: expired_at_def fun_eq_iff)
  ultimately show ?thesis
    by (auto simp: mark_indexing_agreement_as_expired_def any_row_def some_row_def tx_bind_def
        update_status_def Let_def sql_returning_def split: list.split)
qed

text \<open>What one turn of the loop does to an undisturbed world.\<close>

lemma quiet_expire_one:
  assumes "w_moves w = []" and "reg_inv (w_db w)" and "r \<in> set (agreements (w_db w))" and "a_status r = Created"
  shows "\<exists>w'. run_state (expire_one (agreement_from_row r) s) w =
      ((True, s\<lparr>sc_marked := sc_marked s + 1, sc_queued := sc_queued s + 1\<rparr>), w') \<and>
    w_moves w' = [] \<and> w_now w' = w_now w \<and> reg_inv (w_db w') \<and>
    agreements (w_db w') =
      sql_update (\<lambda>q. a_id q = a_id r \<and> a_status q = Created) (expired_at (w_now w)) (agreements (w_db w)) \<and>
    length (pushed w') = length (pushed w) + 1"
proof -
  note m = mark_expired_succeeds [OF assms(2-4)]
  let ?db = "(w_db w)\<lparr>agreements := sql_update (\<lambda>q. a_id q = a_id r \<and> a_status q = Created)
    (expired_at (w_now w)) (agreements (w_db w))\<rparr>"
  have inv: "reg_inv ?db"
    using m registry_system.step_inv [OF assms(2)] registry_step.intros(8) by blast
  obtain db' where d: "delete_pending_cancellations_by_new_agreement (a_id r) ?db = Inr ((), db')"
    "agreements db' = agreements ?db" "requests db' = requests ?db"
    by (simp add: delete_pending_cancellations_by_new_agreement_def)
  have inv': "reg_inv db'"
    using d(1) registry_system.step_inv [OF inv] registry_step.intros(5) by blast
  from assms(2,3) have "a_request_id r \<in> r_id ` set (requests (w_db w))"
    by (auto simp: reg_inv_def)
  then have "find_row r_id (a_request_id r) (requests (w_db w)) \<noteq> None"
    by (simp add: find_row_None)
  then obtain req where "get_indexing_request_by_id (a_request_id r) db' = Some req"
    using d(3) by (auto simp: get_indexing_request_by_id_def)
  with inv' d(2) assms(1) m d(1) show ?thesis
    by (simp add: expire_one_def queue_expired_def stop_requested_def look_def quiet_next
        await_def quiet_await quiet_read quiet_push agreement_from_row_def)
qed


lemma quiet_expire_all:
  assumes "w_moves w = []" and "reg_inv (w_db w)" and "distinct (map a_id rs)"
    and "set rs \<subseteq> set (agreements (w_db w))" and "\<forall>r \<in> set rs. a_status r = Created"
  shows "\<exists>w'. run_state (expire_all (map agreement_from_row rs) s) w =
      (Scanned (s\<lparr>sc_marked := sc_marked s + length rs, sc_queued := sc_queued s + length rs\<rparr>), w') \<and>
    agreements (w_db w') =
      sql_update (\<lambda>q. a_id q \<in> a_id ` set rs \<and> a_status q = Created) (expired_at (w_now w)) (agreements (w_db w)) \<and>
    length (pushed w') = length (pushed w) + length rs"
  using assms
proof (induction rs arbitrary: w s)
  case Nil
  then show ?case by (simp add: sql_update_none)
next
  case (Cons r rs)
  from quiet_expire_one [OF Cons.prems(1,2), of r s] Cons.prems(4,5) obtain w1 where
    one: "run_state (expire_one (agreement_from_row r) s) w =
      ((True, s\<lparr>sc_marked := sc_marked s + 1, sc_queued := sc_queued s + 1\<rparr>), w1)"
    and w1: "w_moves w1 = []" "w_now w1 = w_now w" "reg_inv (w_db w1)"
      "agreements (w_db w1) =
        sql_update (\<lambda>q. a_id q = a_id r \<and> a_status q = Created) (expired_at (w_now w)) (agreements (w_db w))"
      "length (pushed w1) = length (pushed w) + 1"
    by auto
  have "set rs \<subseteq> set (agreements (w_db w1))"
    using Cons.prems(3,4) by (force simp: w1(4) set_sql_update image_iff)
  with Cons.IH [OF w1(1,3), of "s\<lparr>sc_marked := sc_marked s + 1, sc_queued := sc_queued s + 1\<rparr>"]
    Cons.prems(3,5) obtain w2 where
    two: "run_state (expire_all (map agreement_from_row rs)
        (s\<lparr>sc_marked := sc_marked s + 1, sc_queued := sc_queued s + 1\<rparr>)) w1 =
      (Scanned (s\<lparr>sc_marked := sc_marked s + length (r # rs), sc_queued := sc_queued s + length (r # rs)\<rparr>), w2)"
    and w2: "agreements (w_db w2) = sql_update (\<lambda>q. a_id q \<in> a_id ` set rs \<and> a_status q = Created)
        (expired_at (w_now w)) (agreements (w_db w1))"
      "length (pushed w2) = length (pushed w1) + length rs"
    by (auto simp: w1(2))
  have "agreements (w_db w2) = sql_update (\<lambda>q. a_id q \<in> a_id ` set (r # rs) \<and> a_status q = Created)
      (expired_at (w_now w)) (agreements (w_db w))"
    unfolding w2(1) w1(4) by (auto simp: sql_update_def expired_at_def)
  with one two w2(2) w1(5) show ?case by simp
qed



end
