(* ===== verification/Cancel_Dispatch.thy ===== *)
theory Cancel_Dispatch
  imports Rely_Guarantee
begin

text \<open>
  \<open>cancel_dispatch.rs\<close>: how dipper ends an agreement. It is marked \<open>Cancelling\<close> first, then cancelled
  through the manager contract if the chain shows it live, and marked ended once the chain confirms
  it. The texts of addresses and hashes come with the configuration.
\<close>

section \<open>The dispatch\<close>

record agreement_config =
  ag_recurring_collector :: address
  ag_recurring_agreement_manager :: address
  ag_show_address :: "address \<Rightarrow> string"
  ag_show_hash :: "b256 \<Rightarrow> string"

definition SCOPE_ACTIVE :: u16 where "SCOPE_ACTIVE = 1"
definition SCOPE_PENDING :: u16 where "SCOPE_PENDING = 2"
definition SCOPE_BOTH :: u16 where "SCOPE_BOTH = or SCOPE_ACTIVE SCOPE_PENDING"

datatype live_cancel =
    NothingLive (ended_by_indexer: bool)
  | CancelEnded "b256 option"
  | ReadFailed chain_client_error
  | Unconfirmed "b256 option" chain_client_error
  | CancelFailed chain_client_error

text \<open>\<open>B256::from_slice\<close>: the bytes in order, the first one the most significant.\<close>

definition b256_from_slice :: "u8 list \<Rightarrow> b256" where
  "b256_from_slice bs = foldl (\<lambda>acc b. push_bit 8 acc + ucast b) 0 bs"

definition cancel_hash :: "indexing_agreement \<Rightarrow> b256 option" where
  "cancel_hash a = (case ia_terms_version_hash a of
       None \<Rightarrow> None
     | Some h \<Rightarrow> if length h = 32 then Some (b256_from_slice h) else None)"

definition read_on_chain :: "indexing_agreement \<Rightarrow> (chain_client_error + agreement_on_chain) prog" where
  "read_on_chain a = chain_read (\<lambda>c. cc_agreement_on_chain c (ia_id a))"

definition cancel_agreement_on_chain :: "agreement_config \<Rightarrow> indexing_agreement \<Rightarrow> live_cancel prog" where
  "cancel_agreement_on_chain cfg a = (case cancel_hash a of
       None \<Rightarrow> State_Monad.return (CancelFailed MissingTermsVersionHash)
     | Some h \<Rightarrow> do {
         r \<leftarrow> chain_send (Cancel (ia_id a) h SCOPE_BOTH)
           (\<lambda>c. cc_cancel_via_manager c (ag_recurring_collector cfg) (ia_id a) h SCOPE_BOTH);
         case r of
           Inl err \<Rightarrow> State_Monad.return (CancelFailed err)
         | Inr tx_hash \<Rightarrow> do {
             seen \<leftarrow> read_on_chain a;
             State_Monad.return (case seen of
                 Inr NotLive \<Rightarrow> CancelEnded tx_hash
               | Inr EndedByIndexer \<Rightarrow> NothingLive True
               | Inr Live \<Rightarrow> CancelFailed CancelNotConfirmed
               | Inl err \<Rightarrow> Unconfirmed tx_hash err) } })"

definition cancel_if_live :: "agreement_config \<Rightarrow> indexing_agreement \<Rightarrow> live_cancel prog" where
  "cancel_if_live cfg a = do {
     seen \<leftarrow> read_on_chain a;
     case seen of
       Inl err \<Rightarrow> State_Monad.return (ReadFailed err)
     | Inr s \<Rightarrow> if s = Live then cancel_agreement_on_chain cfg a
         else State_Monad.return (NothingLive (s = EndedByIndexer)) }"

datatype cancel_reason = NotWanted | Abandoned

fun ended_status :: "cancel_reason \<Rightarrow> agreement_status" where
  "ended_status NotWanted = CanceledByRequester"
| "ended_status Abandoned = AbandonedByIndexer"

datatype cancel_started = StartedEnded | StartedNotLive | StartedMayBeLive

fun mark_cancelling_tx :: "cancel_reason \<Rightarrow> agreement_id \<Rightarrow> timestamp \<Rightarrow> unit tx" where
  "mark_cancelling_tx NotWanted i now = mark_indexing_agreement_as_cancelling now i"
| "mark_cancelling_tx Abandoned i now = mark_indexing_agreement_as_abandoning now i"

definition mark_cancelling :: "indexing_agreement \<Rightarrow> cancel_reason \<Rightarrow> (call_error + unit) prog" where
  "mark_cancelling a reason = await (mark_cancelling_tx reason (ia_id a))"

fun mark_ended_tx :: "cancel_reason \<Rightarrow> agreement_id \<Rightarrow> timestamp \<Rightarrow> unit tx" where
  "mark_ended_tx NotWanted i now = mark_indexing_agreement_as_canceled_by_requester now i"
| "mark_ended_tx Abandoned i now = mark_indexing_agreement_as_abandoned_by_indexer now i"

definition mark_ended :: "indexing_agreement \<Rightarrow> cancel_reason \<Rightarrow> (call_error + unit) prog" where
  "mark_ended a reason = await (mark_ended_tx reason (ia_id a))"

definition record_cancel :: "agreement_config \<Rightarrow> indexing_agreement \<Rightarrow> b256 option \<Rightarrow> unit prog" where
  "record_cancel cfg a tx_hash = do {
     t \<leftarrow> now_secs;
     _ \<leftarrow> await (\<lambda>_. record_cancel_audit (ia_id a) t
       (ag_show_address cfg (ag_recurring_agreement_manager cfg)) (map_option (ag_show_hash cfg) tx_hash));
     State_Monad.return () }"

definition confirm_cancelled :: "agreement_config \<Rightarrow> indexing_agreement \<Rightarrow> cancel_reason \<Rightarrow> b256 option \<Rightarrow> bool prog" where
  "confirm_cancelled cfg a reason tx_hash = do {
     _ \<leftarrow> (if tx_hash \<noteq> None then record_cancel cfg a tx_hash else State_Monad.return ());
     r \<leftarrow> mark_ended a reason;
     State_Monad.return (case r of
         Inr _ \<Rightarrow> True
       | Inl e \<Rightarrow> e = Refused NoRecordsUpdated) }"

definition finish_marked_cancel :: "agreement_config \<Rightarrow> indexing_agreement \<Rightarrow> cancel_reason \<Rightarrow> live_cancel \<Rightarrow>
    cancel_started prog" where
  "finish_marked_cancel cfg a reason cancel = (case cancel of
       CancelEnded tx_hash \<Rightarrow>
         if ia_status a \<noteq> AcceptedOnChain then State_Monad.return StartedNotLive
         else do {
           confirmed \<leftarrow> confirm_cancelled cfg a reason tx_hash;
           State_Monad.return (if confirmed then StartedEnded else StartedNotLive) }
     | NothingLive _ \<Rightarrow> State_Monad.return StartedNotLive
     | ReadFailed _ \<Rightarrow> State_Monad.return StartedMayBeLive
     | CancelFailed _ \<Rightarrow> State_Monad.return StartedMayBeLive
     | Unconfirmed _ _ \<Rightarrow> State_Monad.return StartedMayBeLive)"

definition send_marked_cancel :: "agreement_config \<Rightarrow> indexing_agreement \<Rightarrow> cancel_reason \<Rightarrow> cancel_started prog" where
  "send_marked_cancel cfg a reason = do {
     cancel \<leftarrow> cancel_if_live cfg a;
     finish_marked_cancel cfg a reason cancel }"

definition start_cancel :: "agreement_config \<Rightarrow> indexing_agreement \<Rightarrow> cancel_reason \<Rightarrow>
    (call_error + cancel_started) prog" where
  "start_cancel cfg a reason = or_return (mark_cancelling a reason) Inl (\<lambda>_. do {
     started \<leftarrow> send_marked_cancel cfg a reason;
     State_Monad.return (Inr started) })"

definition start_cancel_seen_live :: "agreement_config \<Rightarrow> indexing_agreement \<Rightarrow> cancel_reason \<Rightarrow>
    (call_error + cancel_started) prog" where
  "start_cancel_seen_live cfg a reason = or_return (mark_cancelling a reason) Inl (\<lambda>_. do {
     cancel \<leftarrow> cancel_agreement_on_chain cfg a;
     started \<leftarrow> finish_marked_cancel cfg a reason cancel;
     State_Monad.return (Inr started) })"

datatype reopen = Reopened | LeftAsIs | Unread chain_client_error

text \<open>The write of \<open>reopen_if_live\<close>, once it is decided to reopen.\<close>

definition reopen_cancel :: "indexing_agreement \<Rightarrow> bool \<Rightarrow> (call_error + reopen) prog" where
  "reopen_cancel a seen_live = do {
     r \<leftarrow> await (\<lambda>now. reopen_indexing_agreement_cancel now (ia_id a) seen_live);
     State_Monad.return (case r of
         Inr _ \<Rightarrow> Inr Reopened
       | Inl e \<Rightarrow> if e = Refused NoRecordsUpdated then Inr LeftAsIs else Inl e) }"

definition reopen_if_live :: "indexing_agreement \<Rightarrow> (call_error + reopen) prog" where
  "reopen_if_live a = do {
     seen \<leftarrow> read_on_chain a;
     case seen of
       Inr s \<Rightarrow> if s = Live then reopen_cancel a True else State_Monad.return (Inr LeftAsIs)
     | Inl err \<Rightarrow> if ia_status a \<noteq> Rejected then State_Monad.return (Inr (Unread err))
         else reopen_cancel a False }"

section \<open>What its writes do\<close>

lemma set_status_from_run:
  assumes "set_status_from now i s allowed db = Inr (u, db')"
  shows "db' = db\<lparr>agreements := sql_update (\<lambda>r. a_id r = i \<and> a_status r \<in> set allowed)
      (\<lambda>r. r\<lparr>a_status := s, a_updated_at := now\<rparr>) (agreements db)\<rparr>"
    "\<exists>r \<in> set (agreements db). a_id r = i \<and> a_status r \<in> set allowed"
proof -
  let ?Q = "\<lambda>r. a_id r = i \<and> a_status r \<in> set allowed"
  from assms have "db' = db\<lparr>agreements := sql_update ?Q (\<lambda>r. r\<lparr>a_status := s, a_updated_at := now\<rparr>) (agreements db)\<rparr> \<and>
      filter ?Q (agreements db) \<noteq> []"
    by (auto simp: set_status_from_def update_status_from_def batch_update_status_from_def batch_set_status_def
        tx_bind_def update_status_def Let_def sql_returning_def split: if_splits list.splits sum.splits)
  then show "db' = db\<lparr>agreements := sql_update ?Q (\<lambda>r. r\<lparr>a_status := s, a_updated_at := now\<rparr>) (agreements db)\<rparr>"
    "\<exists>r \<in> set (agreements db). ?Q r"
    by (auto simp: filter_empty_conv)
qed

lemma set_status_from_moves:
  assumes "reg_inv db" and "set_status_from now i s allowed db = Inr (u, db')"
  shows "status_moves (\<lambda>r r'. a_id r = i \<and> a_status r \<in> set allowed \<and> a_status r' = s) db db'"
  unfolding set_status_from_run(1) [OF assms(2)] by (rule status_moves_update) (auto simp: assms(1))

lemma set_status_from_row:
  assumes "reg_inv db" and "set_status_from now i s allowed db = Inr (u, db')"
    and "r \<in> set (agreements db)" and "a_id r = i"
  shows "r\<lparr>a_status := s, a_updated_at := now\<rparr> \<in> set (agreements db')"
proof -
  note run = set_status_from_run [OF assms(2)]
  from run(2) obtain q where q: "q \<in> set (agreements db)" "a_id q = i" "a_status q \<in> set allowed" by blast
  with assms(1,3,4) have "q = r" by (auto simp: reg_inv_def dest: distinct_map_keyD)
  with q show ?thesis by (auto simp: run(1) set_sql_update)
qed

lemma writes_mark_cancelling [registry_writes]: "writes (mark_cancelling_tx reason i)"
  unfolding writes_def
  by (cases reason; simp only: mark_cancelling_tx.simps; intro allI impI; erule registry_step.intros)

lemma writes_mark_ended [registry_writes]: "writes (mark_ended_tx reason i)"
  unfolding writes_def
  by (cases reason; simp only: mark_ended_tx.simps; intro allI impI; erule registry_step.intros)

text \<open>Statuses are all the marks change of an agreement, but for the flags of an abandoned one.\<close>

definition open_statuses :: "agreement_status list" where
  "open_statuses = [Created, AcceptedOnChain, Rejected, Expired]"

lemma mark_abandoning_moves:
  assumes "reg_inv db" and "mark_cancelling_tx Abandoned i now db = Inr (u, db')"
  shows "status_moves (\<lambda>r r'. a_id r = i \<and> a_status r = AcceptedOnChain \<and> a_status r' = Cancelling) db db'"
proof -
  from assms(2) have run: "mark_indexing_agreement_as_abandoning now i db = Inr (u, db')" by simp
  show ?thesis
    unfolding any_row_update_status(1) [OF run [unfolded mark_indexing_agreement_as_abandoning_def]]
    by (rule status_moves_update) (auto simp: assms(1))
qed

lemma mark_cancelling_moves:
  assumes "reg_inv db" and "mark_cancelling_tx reason i now db = Inr (u, db')"
  shows "status_moves (\<lambda>r r'. a_id r = i \<and> a_status r \<in> set open_statuses \<and> a_status r' = Cancelling) db db'"
proof (cases reason)
  case NotWanted
  with assms(2) have "set_status_from now i Cancelling open_statuses db = Inr (u, db')"
    by (simp add: mark_indexing_agreement_as_cancelling_def open_statuses_def)
  from set_status_from_moves [OF assms(1) this] show ?thesis .
next
  case Abandoned
  from mark_abandoning_moves [OF assms(1) assms(2) [unfolded Abandoned]] show ?thesis
    by (auto simp: status_moves_def open_statuses_def)
qed

lemma mark_cancelling_row:
  assumes "reg_inv db" and "mark_cancelling_tx reason i now db = Inr (u, db')"
    and "r \<in> set (agreements db)" and "a_id r = i"
  shows "\<exists>r' \<in> set (agreements db'). a_status r' = Cancelling \<and> same_identity r r'"
proof (cases reason)
  case NotWanted
  with assms(2) have "set_status_from now i Cancelling open_statuses db = Inr (u, db')"
    by (simp add: mark_indexing_agreement_as_cancelling_def open_statuses_def)
  from set_status_from_row [OF assms(1) this assms(3,4)] show ?thesis
    by (rule bexI [rotated]) (simp add: same_identity_def)
next
  case Abandoned
  with assms(2) have run: "mark_indexing_agreement_as_abandoning now i db = Inr (u, db')" by simp
  note m = any_row_update_status [OF run [unfolded mark_indexing_agreement_as_abandoning_def]]
  from m(2) obtain q where q: "q \<in> set (agreements db)" "a_id q = i" "a_status q = AcceptedOnChain" by blast
  with assms(1,3,4) have "q = r" by (auto simp: reg_inv_def dest: distinct_map_keyD)
  with q show ?thesis
    by (intro bexI [of _ "r\<lparr>a_status := Cancelling, a_abandoned := True, a_replacement_pending := True, a_updated_at := now\<rparr>"])
      (auto simp: m(1) set_sql_update same_identity_def)
qed

lemma mark_cancelling_read:
  assumes "reg_inv db" and "mark_cancelling_tx reason i now db = Inr (u, db')"
    and "r \<in> set (agreements db)" and "read_from a r" and "i = ia_id a"
  shows "\<exists>r' \<in> set (agreements db'). a_status r' = Cancelling \<and> read_from a r'"
proof -
  have "writes (mark_cancelling_tx reason i)" by (rule writes_mark_cancelling)
  then have "registry_step db db'" using assms(2) unfolding writes_def by blast
  with assms(1) have "evolves db db'" by (rule registry_system.step_grows)
  then have "extends row_step (agreements db) (agreements db')" by (simp add: evolves_def)
  from extends_memD [OF this assms(3)] obtain r' where r': "r' \<in> set (agreements db')" "row_step r r'" by blast
  from mark_cancelling_row [OF assms(1,2,3)] assms(4,5) obtain q where
    q: "q \<in> set (agreements db')" "a_status q = Cancelling" "same_identity r q" by (auto simp: read_from_def)
  have "reg_inv db'" by (rule registry_system.step_inv [OF assms(1) \<open>registry_step db db'\<close>])
  with q r' have "q = r'" by (auto simp: row_step_def same_identity_def reg_inv_def dest: distinct_map_keyD)
  with q r' read_from_step [OF assms(4) r'(2)] show ?thesis by blast
qed

lemma mark_ended_moves:
  assumes "reg_inv db" and "mark_ended_tx reason i now db = Inr (u, db')"
  shows "status_moves (\<lambda>r r'. a_id r = i \<and> a_status r' = ended_status reason) db db'"
proof -
  obtain allowed where "set_status_from now i (ended_status reason) allowed db = Inr (u, db')"
    using assms(2) by (cases reason) (simp_all add: mark_indexing_agreement_as_canceled_by_requester_def
        mark_indexing_agreement_as_abandoned_by_indexer_def)
  from set_status_from_moves [OF assms(1) this] show ?thesis by (auto simp: status_moves_def)
qed

lemma cancel_audit_moves:
  assumes "reg_inv db" and "record_cancel_audit i sec whom tx db = Inr (c, db')"
  shows "status_moves P db db'"
proof (rule status_moves_same [OF assms(1)])
  let ?f = "\<lambda>r. write_end (a_accepted_at r) (as_i64 sec) whom tx r"
  from assms(2) have "agreements db' = sql_update (\<lambda>r. a_id r = i) ?f (agreements db)"
    by (auto simp: record_cancel_audit_def correction_of_rows_def update_returning_old_def
        update_columns_def tx_bind_def)
  then show "map (\<lambda>r. (a_id r, a_status r)) (agreements db') = map (\<lambda>r. (a_id r, a_status r)) (agreements db)"
    by (simp add: sql_update_def write_end_def)
qed

section \<open>What a cancel guarantees\<close>

abbreviation shown :: "agreement_id \<Rightarrow> agreement_on_chain \<Rightarrow> move list \<Rightarrow> bool" where
  "shown i \<equiv> chain_said (\<lambda>c. cc_agreement_on_chain c i)"

text \<open>The agreement is on record as being cancelled or ended, which it never leaves again.\<close>

definition marked :: "indexing_agreement \<Rightarrow> registry \<Rightarrow> bool" where
  "marked a db \<longleftrightarrow> (\<exists>r \<in> set (agreements db). read_from a r \<and> a_status r \<in> set ending)"

lemma lasting_marked [lasting_rules]: "lasting (\<lambda>w. marked a (w_db w))"
  unfolding marked_def
proof (rule lasting_row)
  fix r r'
  assume r: "read_from a r \<and> a_status r \<in> set ending" "row_step r r'"
  moreover from r have "a_status r' \<in> set ending" by (auto simp: row_step_def ending_def)
  ultimately show "read_from a r' \<and> a_status r' \<in> set ending" using read_from_step by blast
qed

text \<open>
  A cancel is sent for an agreement so marked, with its stored hash and both scopes, after the chain
  showed it live.
\<close>

definition marked_cancel :: "agreement_id \<Rightarrow> move list \<Rightarrow> registry \<Rightarrow> chain_tx \<Rightarrow> bool" where
  "marked_cancel i p db tx \<longleftrightarrow> shown i Live p \<and> (\<exists>r \<in> set (agreements db). \<exists>h. a_id r = i \<and>
     a_status r \<in> set ending \<and> a_terms_version_hash r = Some h \<and> length h = 32 \<and>
     tx = Cancel i (b256_from_slice h) SCOPE_BOTH)"

text \<open>What a cancel found holds: the chain showed it, and a cancel said to have ended it was mined.\<close>

definition cancel_mined :: "agreement_id \<Rightarrow> b256 option \<Rightarrow> move list \<Rightarrow> bool" where
  "cancel_mined i tx_hash p \<longleftrightarrow> (\<exists>collector h.
     chain_said (\<lambda>c. cc_cancel_via_manager c collector i h SCOPE_BOTH) tx_hash p)"

lemma lasting_cancel_mined [lasting_rules]: "lasting (\<lambda>w. cancel_mined i tx_hash (w_past w))"
  unfolding cancel_mined_def by (intro lasting_rules)

fun cancel_found :: "indexing_agreement \<Rightarrow> live_cancel \<Rightarrow> move list \<Rightarrow> bool" where
  "cancel_found a (CancelEnded tx_hash) p \<longleftrightarrow> shown (ia_id a) NotLive p \<and> cancel_mined (ia_id a) tx_hash p"
| "cancel_found a (NothingLive True) p \<longleftrightarrow> shown (ia_id a) EndedByIndexer p"
| "cancel_found a (NothingLive False) p \<longleftrightarrow> shown (ia_id a) NotLive p"
| "cancel_found a _ p \<longleftrightarrow> True"

lemma lasting_cancel_found [lasting_rules]: "lasting (\<lambda>w. cancel_found a x (w_past w))"
proof (cases x)
  case (NothingLive by_indexer)
  then show ?thesis by (cases by_indexer) (auto intro: lasting_rules)
qed (auto intro: lasting_rules)

lemma ensures_read_on_chain:
  assumes "lasting K"
  shows "ensures G K (read_on_chain a) (\<lambda>seen w. \<forall>s. seen = Inr s \<longrightarrow> shown (ia_id a) s (w_past w))"
  unfolding read_on_chain_def
  by (rule ensures_chain_read [OF assms]) (simp_all add: quiet_def)

lemma ensures_cancel_agreement_on_chain:
  assumes "lasting K" and "\<And>w. K w \<Longrightarrow> marked a (w_db w) \<and> shown (ia_id a) Live (w_past w)"
    and "\<And>p db tx. marked_cancel (ia_id a) p db tx \<Longrightarrow> g_send G p db tx"
  shows "ensures G K (cancel_agreement_on_chain cfg a) (\<lambda>x w. cancel_found a x (w_past w))"
proof (cases "cancel_hash a")
  case None
  then show ?thesis
    by (auto simp: cancel_agreement_on_chain_def intro: ensures_return)
next
  case (Some h)
  then have h: "\<exists>bs. ia_terms_version_hash a = Some bs \<and> length bs = 32 \<and> h = b256_from_slice bs"
    by (auto simp: cancel_hash_def split: option.splits if_splits)
  have sent: "ensures G K (chain_send (Cancel (ia_id a) h SCOPE_BOTH)
      (\<lambda>c. cc_cancel_via_manager c (ag_recurring_collector cfg) (ia_id a) h SCOPE_BOTH))
      (\<lambda>x w. \<forall>tx_hash. x = Inr tx_hash \<longrightarrow> cancel_mined (ia_id a) tx_hash (w_past w))"
  proof (rule ensures_chain_send [OF assms(1)])
    fix w :: world
    assume "K w"
    from assms(2) [OF this] h show "g_send G (w_past w) (w_db w) (Cancel (ia_id a) h SCOPE_BOTH)"
      by (intro assms(3)) (auto simp: marked_cancel_def marked_def read_from_def)
  qed (auto simp: quiet_def cancel_mined_def)
  show ?thesis
    unfolding cancel_agreement_on_chain_def Some option.case
    by (intro ensures_bind [OF sent] assms(1) ensures_sum ensures_return
        ensures_bind [OF ensures_read_on_chain] lasting_rules)
      (auto split: sum.splits agreement_on_chain.splits)
qed

lemma ensures_cancel_if_live:
  assumes "lasting K" and "\<And>w. K w \<Longrightarrow> marked a (w_db w)"
    and "\<And>p db tx. marked_cancel (ia_id a) p db tx \<Longrightarrow> g_send G p db tx"
  shows "ensures G K (cancel_if_live cfg a) (\<lambda>x w. cancel_found a x (w_past w))"
  unfolding cancel_if_live_def
proof (rule ensures_bind [OF ensures_read_on_chain [OF assms(1)] assms(1)], rule ensures_sum)
  fix seen :: "chain_client_error + agreement_on_chain" and s
  let ?K = "\<lambda>w. K w \<and> (\<forall>s. seen = Inr s \<longrightarrow> shown (ia_id a) s (w_past w))"
  assume seen: "seen = Inr s"
  have "ensures G ?K (cancel_agreement_on_chain cfg a) (\<lambda>x w. cancel_found a x (w_past w))" if "s = Live"
    by (rule ensures_cancel_agreement_on_chain)
      (auto simp: seen that assms(2) intro!: lasting_rules assms(1,3))
  moreover have "ensures G ?K (State_Monad.return (NothingLive (s = EndedByIndexer))) (\<lambda>x w. cancel_found a x (w_past w))"
    if "s \<noteq> Live"
    using that by (cases s) (auto simp: seen intro!: ensures_return)
  ultimately show "ensures G ?K (if s = Live then cancel_agreement_on_chain cfg a
      else State_Monad.return (NothingLive (s = EndedByIndexer))) (\<lambda>x w. cancel_found a x (w_past w))"
    by (rule ensures_if)
qed (auto intro: ensures_return)

lemma safe_record_cancel:
  assumes "lasting K" and "\<And>w db'. reg_inv (w_db w) \<Longrightarrow> K w \<Longrightarrow> status_moves (\<lambda>_ _. False) (w_db w) db' \<Longrightarrow>
      g_write G (w_past w) (w_db w) db'"
  shows "safe G K (record_cancel cfg a tx_hash)"
  unfolding record_cancel_def
  by (intro safe_rules assms registry_writes) (auto intro: assms(2) cancel_audit_moves)

text \<open>What a mark of an end needs: the service may set that status on that agreement.\<close>

lemma safe_confirm_cancelled:
  assumes "lasting K" and "\<And>w db'. reg_inv (w_db w) \<Longrightarrow> K w \<Longrightarrow>
      status_moves (\<lambda>r r'. a_id r = ia_id a \<and> a_status r' = ended_status reason) (w_db w) db' \<Longrightarrow>
      g_write G (w_past w) (w_db w) db'"
  shows "safe G K (confirm_cancelled cfg a reason tx_hash)"
proof -
  have "safe G K (record_cancel cfg a tx_hash)"
    by (rule safe_record_cancel [OF assms(1)]) (auto simp: status_moves_def intro!: assms(2))
  moreover have "safe G K (mark_ended a reason)"
    unfolding mark_ended_def
    by (intro safe_await assms registry_writes) (auto intro: mark_ended_moves)
  ultimately show ?thesis
    unfolding confirm_cancelled_def by (intro safe_bind safe_if safe_return assms(1))
qed

lemma safe_finish_marked_cancel:
  assumes "lasting K" and "\<And>w. K w \<Longrightarrow> cancel_found a x (w_past w)"
    and "\<And>w db'. reg_inv (w_db w) \<Longrightarrow> K w \<Longrightarrow> ia_status a = AcceptedOnChain \<Longrightarrow> shown (ia_id a) NotLive (w_past w) \<Longrightarrow>
      status_moves (\<lambda>r r'. a_id r = ia_id a \<and> a_status r' = ended_status reason) (w_db w) db' \<Longrightarrow>
      g_write G (w_past w) (w_db w) db'"
  shows "safe G K (finish_marked_cancel cfg a reason x)"
proof (cases x)
  case (CancelEnded tx_hash)
  have "safe G K (confirm_cancelled cfg a reason tx_hash)" if "ia_status a = AcceptedOnChain"
    using assms(2) by (intro safe_confirm_cancelled assms(1) assms(3) that) (auto simp: CancelEnded)
  then show ?thesis
    unfolding finish_marked_cancel_def CancelEnded live_cancel.case by (intro safe_rules assms(1)) auto
qed (auto simp: finish_marked_cancel_def intro: safe_return)

lemma ensures_mark_cancelling:
  assumes "lasting K" and "\<And>w. K w \<Longrightarrow> \<exists>r \<in> set (agreements (w_db w)). read_from a r"
    and "\<And>w db'. reg_inv (w_db w) \<Longrightarrow> K w \<Longrightarrow>
      status_moves (\<lambda>r r'. a_id r = ia_id a \<and> a_status r \<in> set open_statuses \<and> a_status r' = Cancelling) (w_db w) db' \<Longrightarrow>
      g_write G (w_past w) (w_db w) db'"
  shows "ensures G K (mark_cancelling a reason) (\<lambda>x w. \<forall>y. x = Inr y \<longrightarrow> marked a (w_db w))"
  unfolding mark_cancelling_def
proof (intro ensures_await assms(1) registry_writes conjI)
  fix now x and w w' :: world
  assume w: "reg_inv (w_db w)" "K w" and run: "mark_cancelling_tx reason (ia_id a) now (w_db w) = Inr (x, w_db w')"
  show "g_write G (w_past w) (w_db w) (w_db w')"
    by (rule assms(3) [OF w mark_cancelling_moves [OF w(1) run]])
  from assms(2) [OF w(2)] obtain r where r: "r \<in> set (agreements (w_db w))" "read_from a r" by blast
  from mark_cancelling_read [OF w(1) run r refl] show "marked a (w_db w')"
    by (auto simp: marked_def ending_def)
qed

definition start_guarantee :: "indexing_agreement \<Rightarrow> cancel_reason \<Rightarrow> guarantee" where
  "start_guarantee a reason = \<lparr>
     g_write = (\<lambda>p. status_moves (\<lambda>r r'. a_id r = ia_id a \<and>
       (a_status r \<in> set open_statuses \<and> a_status r' = Cancelling \<or>
        ia_status a = AcceptedOnChain \<and> a_status r' = ended_status reason \<and> shown (ia_id a) NotLive p))),
     g_push = (\<lambda>_ _ _. False),
     g_send = marked_cancel (ia_id a)\<rparr>"

lemma start_guarantee_marks:
  "status_moves (\<lambda>r r'. a_id r = ia_id a \<and> a_status r \<in> set open_statuses \<and> a_status r' = Cancelling) db db' \<Longrightarrow>
    g_write (start_guarantee a reason) p db db'"
  "ia_status a = AcceptedOnChain \<Longrightarrow> shown (ia_id a) NotLive p \<Longrightarrow>
    status_moves (\<lambda>r r'. a_id r = ia_id a \<and> a_status r' = ended_status reason) db db' \<Longrightarrow>
    g_write (start_guarantee a reason) p db db'"
  by (auto simp: start_guarantee_def status_moves_def)

lemma safe_finish_start:
  assumes "lasting M"
  shows "safe (start_guarantee a reason) (\<lambda>w. M w \<and> cancel_found a c (w_past w)) (finish_marked_cancel cfg a reason c)"
  by (intro safe_finish_marked_cancel lasting_rules assms) (auto intro: start_guarantee_marks)

lemma safe_start_cancel:
  "safe (start_guarantee a reason) (\<lambda>w. \<exists>r \<in> set (agreements (w_db w)). read_from a r) (start_cancel cfg a reason)"
    (is "safe ?G ?K _")
proof -
  have go_on: "safe ?G (\<lambda>w. ?K w \<and> (\<forall>y. x = Inr y \<longrightarrow> marked a (w_db w)))
      (case x of Inl e \<Rightarrow> State_Monad.return (Inl e)
       | Inr _ \<Rightarrow> do { started \<leftarrow> send_marked_cancel cfg a reason; State_Monad.return (Inr started) })"
    (is "safe _ ?M _") for x :: "call_error + unit"
  proof (rule safe_sum)
    fix y
    assume x: "x = Inr y"
    have M: "lasting ?M" by (intro lasting_rules)
    have "ensures ?G ?M (cancel_if_live cfg a) (\<lambda>x w. cancel_found a x (w_past w))"
      by (rule ensures_cancel_if_live [OF M]) (simp_all add: x start_guarantee_def)
    from safe_after [OF this M safe_finish_start [OF M]] have "safe ?G ?M (send_marked_cancel cfg a reason)"
      unfolding send_marked_cancel_def .
    then show "safe ?G ?M (do { started \<leftarrow> send_marked_cancel cfg a reason; State_Monad.return (Inr started) })"
      by (intro safe_bind safe_return M)
  qed (rule safe_return)
  have "ensures ?G ?K (mark_cancelling a reason) (\<lambda>x w. \<forall>y. x = Inr y \<longrightarrow> marked a (w_db w))"
    by (intro ensures_mark_cancelling lasting_rules start_guarantee_marks(1))
  from safe_after [OF this lasting_read_from go_on] show ?thesis
    unfolding start_cancel_def or_return_def .
qed

lemma safe_start_cancel_seen_live:
  "safe (start_guarantee a reason)
    (\<lambda>w. (\<exists>r \<in> set (agreements (w_db w)). read_from a r) \<and> shown (ia_id a) Live (w_past w))
    (start_cancel_seen_live cfg a reason)"
    (is "safe ?G ?K _")
proof -
  have K: "lasting ?K" by (intro lasting_rules)
  have go_on: "safe ?G (\<lambda>w. ?K w \<and> (\<forall>y. x = Inr y \<longrightarrow> marked a (w_db w)))
      (case x of Inl e \<Rightarrow> State_Monad.return (Inl e)
       | Inr _ \<Rightarrow> do { cancel \<leftarrow> cancel_agreement_on_chain cfg a;
           started \<leftarrow> finish_marked_cancel cfg a reason cancel; State_Monad.return (Inr started) })"
    (is "safe _ ?M _") for x :: "call_error + unit"
  proof (rule safe_sum)
    fix y
    assume x: "x = Inr y"
    have M: "lasting ?M" by (intro lasting_rules)
    have "ensures ?G ?M (cancel_agreement_on_chain cfg a) (\<lambda>x w. cancel_found a x (w_past w))"
      by (rule ensures_cancel_agreement_on_chain [OF M]) (auto simp: x start_guarantee_def)
    moreover have "safe ?G (\<lambda>w. ?M w \<and> cancel_found a c (w_past w))
        (do { started \<leftarrow> finish_marked_cancel cfg a reason c; State_Monad.return (Inr started) })" for c
      by (intro safe_bind safe_return safe_finish_start lasting_rules M)
    ultimately show "safe ?G ?M (do { cancel \<leftarrow> cancel_agreement_on_chain cfg a;
        started \<leftarrow> finish_marked_cancel cfg a reason cancel; State_Monad.return (Inr started) })"
      by (rule safe_after [OF _ M])
  qed (rule safe_return)
  have "ensures ?G ?K (mark_cancelling a reason) (\<lambda>x w. \<forall>y. x = Inr y \<longrightarrow> marked a (w_db w))"
    by (intro ensures_mark_cancelling K start_guarantee_marks(1)) auto
  from safe_after [OF this K go_on] show ?thesis
    unfolding start_cancel_seen_live_def or_return_def .
qed

interpretation start_cancel_service: service "start_guarantee a reason"
    "\<lambda>w. \<exists>r \<in> set (agreements (w_db w)). read_from a r" "start_cancel cfg a reason" for a reason cfg
  by unfold_locales (rule safe_start_cancel)

lemma await_sends_nothing:
  assumes "run_state (await f) w = (x, w')"
  shows "sent w' = sent w" "pushed w' = pushed w"
  using assms by (auto simp: await_def timeout_await_def Let_def split: sum.splits prod.splits if_splits)

lemma unmarked_sends_nothing:
  assumes "run_state (start_cancel cfg a reason) w = (Inl e, w')"
  shows "sent w' = sent w"
proof -
  obtain y w1 where m: "run_state (mark_cancelling a reason) w = (y, w1)" by fastforce
  from m assms have "w' = w1"
    by (cases y) (auto simp: start_cancel_def or_return_def split: prod.splits)
  with m await_sends_nothing show ?thesis unfolding mark_cancelling_def by blast
qed

text \<open>
  C28: a cancel dipper starts is on record before it goes out, and an agreement is marked ended only
  once the chain confirms it. Whatever the other services do meanwhile and however its calls fail,
  \<open>start_cancel\<close> sends only cancels of this agreement, with its stored hash and both scopes, each
  after the chain showed it live and at a time its row is \<open>Cancelling\<close> or ended for good; it sends
  nothing when the mark could not be written; it moves this agreement alone, into \<open>Cancelling\<close>, or,
  one known as accepted, into the end its reason asks for after the chain showed it ended and not
  by the indexer; and it queues no job.
\<close>

theorem cancels_are_marked_first:
  assumes "legal w" and "nothing_done w" and "\<exists>r \<in> set (agreements (w_db w)). read_from a r"
    and "run_state (start_cancel cfg a reason) w = (x, w')"
  shows "registry_step\<^sup>*\<^sup>* (w_db w) (w_db w') \<and> pushed w' = [] \<and> (\<forall>e. x = Inl e \<longrightarrow> sent w' = []) \<and>
    (\<forall>(p, db, tx) \<in> set (sent w'). shown (ia_id a) Live p \<and>
      (\<exists>r \<in> set (agreements db). \<exists>h. a_id r = ia_id a \<and> a_terms_version_hash r = Some h \<and> length h = 32 \<and>
        a_status r \<in> {Cancelling, CanceledByRequester, CanceledByIndexer, AbandonedByIndexer} \<and>
        tx = Cancel (ia_id a) (b256_from_slice h) 3)) \<and>
    (\<forall>(p, db, db') \<in> set (own_writes w'). \<forall>r \<in> set (agreements db). \<forall>r' \<in> set (agreements db').
      a_id r' = a_id r \<and> a_status r' \<noteq> a_status r \<longrightarrow> a_id r = ia_id a \<and>
      (a_status r' = Cancelling \<or>
       ia_status a = AcceptedOnChain \<and> a_status r' = ended_status reason \<and> shown (ia_id a) NotLive p))"
proof -
  note run = start_cancel_service.run [OF assms]
  have scope: "SCOPE_BOTH = 3" by (simp add: SCOPE_BOTH_def SCOPE_ACTIVE_def SCOPE_PENDING_def)
  have "pushed w' = []"
    by (rule nothing_pushed [OF run(2)]) (simp add: start_guarantee_def)
  moreover from assms(2,4) have "x = Inl e \<Longrightarrow> sent w' = []" for e
    using unmarked_sends_nothing by (auto simp: nothing_done_def)
  ultimately show ?thesis
    using run(2,3) unfolding holds_def start_guarantee_def status_moves_def marked_cancel_def ending_def scope
    by fastforce
qed

definition sample_move :: "agreement_on_chain \<Rightarrow> move" where
  "sample_move s = (quiet 5)\<lparr>mv_chain := \<lparr>cc_offer_via_manager = (\<lambda>_. Inr (Some 1)),
     cc_cancel_via_manager = (\<lambda>_ _ _ _. Inr (Some 1)), cc_agreement_on_chain = (\<lambda>_. Inr s),
     cc_latest_block_timestamp = Inr 5000\<rparr>\<rparr>"

definition sample_config :: agreement_config where
  "sample_config = \<lparr>ag_recurring_collector = 1, ag_recurring_agreement_manager = 2,
     ag_show_address = (\<lambda>_. ''0x''), ag_show_hash = (\<lambda>_. ''0x'')\<rparr>"

definition sample_agreement :: indexing_agreement where
  "sample_agreement = agreement_from_row (hd (agreements (sample_registry Created)))"

lemma sample_moves_legal:
  assumes "reachable db"
  shows "legal (sample_world db (map sample_move ss))" "nothing_done (sample_world db (map sample_move ss))"
proof -
  have "\<forall>m \<in> set (map sample_move ss). mv_env m = id" by (simp add: sample_move_def quiet_def)
  from sample_world_legal [OF assms this] show "legal (sample_world db (map sample_move ss))"
    "nothing_done (sample_world db (map sample_move ss))" .
qed

lemma sample_agreement_read: "\<exists>r \<in> set (agreements (w_db (sample_world (sample_registry Created) ms))). read_from sample_agreement r"
  by (simp add: sample_world_def sample_registry_def sample_agreement_def)

lemma sample_cancel_sent:
  "map (\<lambda>(p, db, tx). tx) (sent (snd (run_state (start_cancel sample_config sample_agreement NotWanted)
     (sample_world (sample_registry Created) (map sample_move [Live, Live, Live, NotLive]))))) =
   [Cancel sample_id (b256_from_slice (replicate 32 7)) 3]"
  by (simp add: start_cancel_def or_return_def mark_cancelling_def await_def timeout_await_def Let_def
      send_marked_cancel_def cancel_if_live_def read_on_chain_def chain_read_def chain_send_def
      cancel_agreement_on_chain_def cancel_hash_def finish_marked_cancel_def no_timeout_def
      sample_world_def sample_move_def next_move_def elapse_def quiet_def
      sample_agreement_def agreement_from_row_def
      mark_indexing_agreement_as_cancelling_def set_status_from_def update_status_from_def
      batch_update_status_from_def batch_set_status_def tx_bind_def update_status_def unique_active_def
      active_def sql_returning_def sample_defs SCOPE_BOTH_def SCOPE_ACTIVE_def SCOPE_PENDING_def)

theorem cancels_are_marked_first_witness:
  "let w = sample_world (sample_registry Created) (map sample_move [Live, Live, Live, NotLive]);
       w' = snd (run_state (start_cancel sample_config sample_agreement NotWanted) w)
   in legal w \<and> nothing_done w \<and> sent w' \<noteq> [] \<and> registry_step\<^sup>*\<^sup>* (w_db w) (w_db w') \<and> pushed w' = []"
proof -
  let ?w = "sample_world (sample_registry Created) (map sample_move [Live, Live, Live, NotLive])"
  note w = sample_moves_legal [OF sample_created, of "[Live, Live, Live, NotLive]"]
  note run = cancels_are_marked_first [OF w sample_agreement_read prod.collapse [symmetric]]
  have "sent (snd (run_state (start_cancel sample_config sample_agreement NotWanted) ?w)) \<noteq> []"
    using sample_cancel_sent by (metis list.distinct(1) list.map_disc_iff)
  then show ?thesis
    unfolding Let_def by (intro conjI w conjunct1 [OF run] conjunct1 [OF conjunct2 [OF run]])
qed

end
