(* ===== verification/Liveness_Policy.thy ===== *)
theory Liveness_Policy
  imports Outside Sql "HOL-Library.Monad_Syntax"
begin

text \<open>
  The decisions of \<open>network/service/liveness_checker.rs\<close>, apart from the calls it makes: how long an
  indexer may go without progress, when so many cannot be reached that none is abandoned for it
  (\<open>UnreachableBreaker\<close>), what to do about one agreement (\<open>decide_liveness_action\<close>) and how an indexer's
  answer is read (\<open>query_indexer_status\<close>).
\<close>

section \<open>Tolerance\<close>

definition days :: "int \<Rightarrow> timestamp" where
  "days n = secs (86400 * n)"

definition tolerance_duration :: "deployment_id \<Rightarrow> (deployment_id \<Rightarrow> nat option) \<Rightarrow> u32 \<Rightarrow> timestamp" where
  "tolerance_duration d active_counts max_tolerance_days = (
     let count = (case active_counts d of None \<Rightarrow> 1 | Some n \<Rightarrow> n) in
     days (uint (max (min (word_of_nat count) max_tolerance_days) 1)))"

datatype liveness_action =
    InitializeTracking u64
  | ResetProgress u64
  | WithinTolerance
  | CancelAndReassess

text \<open>The last two arms of \<open>decide_liveness_action\<close>: no progress seen.\<close>

definition no_progress_action :: "timestamp option \<Rightarrow> timestamp \<Rightarrow> deployment_id \<Rightarrow>
    (deployment_id \<Rightarrow> nat option) \<Rightarrow> u32 \<Rightarrow> liveness_action" where
  "no_progress_action last_progress_at now d active_counts max_days = (
     let last_progress = (case last_progress_at of None \<Rightarrow> now | Some t \<Rightarrow> t) in
     if now - last_progress > tolerance_duration d active_counts max_days
     then CancelAndReassess else WithinTolerance)"

definition decide_liveness_action :: "u64 option \<Rightarrow> u64 option \<Rightarrow> timestamp option \<Rightarrow> timestamp \<Rightarrow>
    deployment_id \<Rightarrow> (deployment_id \<Rightarrow> nat option) \<Rightarrow> u32 \<Rightarrow> liveness_action" where
  "decide_liveness_action last_block_height current_block last_progress_at now d active_counts max_days =
     (case (last_block_height, current_block) of
        (None, Some block) \<Rightarrow> InitializeTracking block
      | (None, None) \<Rightarrow> InitializeTracking 0
      | (Some prior, Some current) \<Rightarrow>
          if current \<noteq> prior then ResetProgress current
          else no_progress_action last_progress_at now d active_counts max_days
      | (Some _, None) \<Rightarrow> no_progress_action last_progress_at now d active_counts max_days)"

section \<open>The breaker\<close>

record liveness_config =
  lv_batch_size :: int
  lv_max_tolerance_days :: u32
  lv_unreachable_trip_fraction :: f64
  lv_unreachable_trip_min_indexers :: nat

definition unreachable_trips :: "nat \<Rightarrow> nat \<Rightarrow> f64 \<Rightarrow> nat \<Rightarrow> bool" where
  "unreachable_trips checked unreachable trip_fraction min_indexers \<longleftrightarrow>
     checked > 0 \<and> checked \<ge> min_indexers \<and>
     f64_le trip_fraction (f64_div (f64_of_nat unreachable) (f64_of_nat checked))"

record held_span =
  hs_from :: timestamp
  hs_to :: timestamp

datatype unreachable_policy =
    Hold
  | Judge (held_spans: "held_span list") (max_grace: timestamp)

definition held_since :: "held_span list \<Rightarrow> timestamp \<Rightarrow> timestamp" where
  "held_since held t = sum_list (map (\<lambda>s. max (hs_to s - max (hs_from s) t) 0) held)"

fun progress_clock :: "unreachable_policy \<Rightarrow> timestamp option \<Rightarrow> timestamp option" where
  "progress_clock Hold last_progress_at = last_progress_at"
| "progress_clock (Judge held grace) last_progress_at =
     map_option (\<lambda>t. t + min (held_since held t) grace) last_progress_at"

definition UNREACHABLE_CLEAR_CYCLES :: u32 where "UNREACHABLE_CLEAR_CYCLES = 3"
definition UNREACHABLE_ALERT_REPEAT :: timestamp where "UNREACHABLE_ALERT_REPEAT = secs (6 * 3600)"

record unreachable_breaker =
  ub_tripped_since :: "timestamp option"
  ub_quiet_cycles :: u32
  ub_held :: "held_span list"
  ub_alerted_at :: "timestamp option"

definition new_breaker :: unreachable_breaker where
  "new_breaker = \<lparr>ub_tripped_since = None, ub_quiet_cycles = 0, ub_held = [], ub_alerted_at = None\<rparr>"

definition note_trip :: "timestamp \<Rightarrow> unreachable_breaker \<Rightarrow> unreachable_breaker" where
  "note_trip now b = (let b = b\<lparr>ub_quiet_cycles := 0\<rparr> in
     if ub_tripped_since b = None then b\<lparr>ub_tripped_since := Some now, ub_alerted_at := None\<rparr> else b)"

definition note_quiet_cycle :: "unreachable_breaker \<Rightarrow> unreachable_breaker" where
  "note_quiet_cycle b = (let b = b\<lparr>ub_quiet_cycles := ub_quiet_cycles b + 1\<rparr> in
     if ub_quiet_cycles b < UNREACHABLE_CLEAR_CYCLES then b
     else b\<lparr>ub_tripped_since := None, ub_quiet_cycles := 0\<rparr>)"

definition report_hold :: "timestamp \<Rightarrow> unreachable_breaker \<Rightarrow> unreachable_breaker" where
  "report_hold now b =
     (if (case ub_alerted_at b of None \<Rightarrow> True | Some t \<Rightarrow> now - t \<ge> UNREACHABLE_ALERT_REPEAT)
      then b\<lparr>ub_alerted_at := Some now\<rparr> else b)"

definition give_up :: "timestamp \<Rightarrow> timestamp \<Rightarrow> unreachable_breaker \<Rightarrow> unreachable_breaker" where
  "give_up now max_hold b = (case ub_tripped_since b of
       None \<Rightarrow> b
     | Some since \<Rightarrow>
         if (case ub_alerted_at b of None \<Rightarrow> False | Some t \<Rightarrow> t - since > max_hold) then b
         else b\<lparr>ub_alerted_at := Some now\<rparr>)"

definition extend_held :: "timestamp \<Rightarrow> timestamp \<Rightarrow> held_span list \<Rightarrow> held_span list" where
  "extend_held since now held =
     (if held \<noteq> [] \<and> hs_from (last held) = since
      then butlast held @ [(last held)\<lparr>hs_to := now\<rparr>]
      else held @ [\<lparr>hs_from = since, hs_to = now\<rparr>])"

definition max_hold :: "liveness_config \<Rightarrow> timestamp" where
  "max_hold cfg = days (uint (max (lv_max_tolerance_days cfg) 1))"

definition evaluate :: "liveness_config \<Rightarrow> nat \<Rightarrow> nat \<Rightarrow> timestamp \<Rightarrow> unreachable_breaker \<Rightarrow>
    unreachable_policy \<times> unreachable_breaker" where
  "evaluate cfg checked unreachable now b = (
     let trips = unreachable_trips checked unreachable (lv_unreachable_trip_fraction cfg)
           (lv_unreachable_trip_min_indexers cfg);
         b = (if trips then note_trip now b
              else if ub_tripped_since b \<noteq> None then note_quiet_cycle b else b);
         hold = max_hold cfg;
         b = b\<lparr>ub_held := filter (\<lambda>s. now - hs_to s \<le> hold + hold) (ub_held b)\<rparr>;
         judge = Judge (ub_held b) hold
     in case ub_tripped_since b of
          None \<Rightarrow> (judge, b)
        | Some since \<Rightarrow>
            if now - since > hold then (judge, give_up now hold b)
            else let b = report_hold now b in
              (Hold, b\<lparr>ub_held := extend_held since now (ub_held b)\<rparr>))"

section \<open>Reading an indexer's answer\<close>

text \<open>\<open>serde_json\<close>'s \<open>get\<close>, \<open>as_array\<close>, \<open>as_str\<close> and \<open>as_u64\<close>.\<close>

fun json_get :: "string \<Rightarrow> json \<Rightarrow> json option" where
  "json_get k (JObject kvs) = map_of kvs k"
| "json_get k _ = None"

fun as_array :: "json \<Rightarrow> json list option" where
  "as_array (JArray xs) = Some xs"
| "as_array _ = None"

fun as_str :: "json \<Rightarrow> string option" where
  "as_str (JString s) = Some s"
| "as_str _ = None"

fun as_u64_json :: "json \<Rightarrow> u64 option" where
  "as_u64_json (JInt n) = (if 0 \<le> n \<and> n < 2 ^ 64 then Some (word_of_int n) else None)"
| "as_u64_json _ = None"

text \<open>\<open>str::parse::<u64>()\<close>: an optional plus sign, then decimal digits that fit.\<close>

definition digit_value :: "char \<Rightarrow> nat option" where
  "digit_value c = (let n = of_char c in if 48 \<le> n \<and> n \<le> 57 then Some (n - 48) else None)"

fun decimal_value :: "nat \<Rightarrow> string \<Rightarrow> nat option" where
  "decimal_value acc [] = Some acc"
| "decimal_value acc (c # cs) =
     (case digit_value c of None \<Rightarrow> None | Some d \<Rightarrow> decimal_value (10 * acc + d) cs)"

definition parse_u64 :: "string \<Rightarrow> u64 option" where
  "parse_u64 s = (
     let digits = (case s of c # cs \<Rightarrow> if c = CHR ''+'' then cs else s | [] \<Rightarrow> s) in
     if digits = [] then None
     else case decimal_value 0 digits of
       None \<Rightarrow> None
     | Some n \<Rightarrow> if n < 2 ^ 64 then Some (word_of_nat n) else None)"

definition block_number :: "json \<Rightarrow> u64 option" where
  "block_number status = do {
     chains \<leftarrow> json_get ''chains'' status;
     arr \<leftarrow> as_array chains;
     chain \<leftarrow> (case arr of [] \<Rightarrow> None | c # _ \<Rightarrow> Some c);
     latest \<leftarrow> json_get ''latestBlock'' chain;
     n \<leftarrow> json_get ''number'' latest;
     case as_str n of Some s \<Rightarrow> parse_u64 s | None \<Rightarrow> as_u64_json n }"

fun insert_statuses :: "json list \<Rightarrow> (string \<Rightarrow> u64 option option) \<Rightarrow> string \<Rightarrow> u64 option option" where
  "insert_statuses [] result = result"
| "insert_statuses (status # statuses) result =
     (case Option.bind (json_get ''subgraph'' status) as_str of
        None \<Rightarrow> insert_statuses statuses result
      | Some subgraph \<Rightarrow> insert_statuses statuses (result(subgraph \<mapsto> block_number status)))"

definition status_heights :: "json \<Rightarrow> string \<Rightarrow> u64 option option" where
  "status_heights answer =
     (case do { data \<leftarrow> json_get ''data'' answer; statuses \<leftarrow> json_get ''indexingStatuses'' data;
                as_array statuses } of
        None \<Rightarrow> Map.empty
      | Some arr \<Rightarrow> insert_statuses arr Map.empty)"

fun join_comma :: "string list \<Rightarrow> string" where
  "join_comma [] = ''''"
| "join_comma [s] = s"
| "join_comma (s # ss) = s @ '', '' @ join_comma ss"

definition status_query :: "string list \<Rightarrow> string" where
  "status_query ids = ''{ indexingStatuses(subgraphs: ['' @
     join_comma (map (\<lambda>i. CHR 0x22 # i @ [CHR 0x22]) ids) @
     '']) { subgraph chains { latestBlock { number } } } }''"

section \<open>What the breaker promises\<close>

text \<open>A cycle: the indexers checked, those that could not be reached, and the time.\<close>

type_synonym cycle = "nat \<times> nat \<times> timestamp"

fun cycle_time :: "cycle \<Rightarrow> timestamp" where
  "cycle_time (_, _, now) = now"

fun cycle_trips :: "liveness_config \<Rightarrow> cycle \<Rightarrow> bool" where
  "cycle_trips cfg (checked, unreachable, _) \<longleftrightarrow> unreachable_trips checked unreachable
     (lv_unreachable_trip_fraction cfg) (lv_unreachable_trip_min_indexers cfg)"

definition breaker_step :: "liveness_config \<Rightarrow> unreachable_breaker \<Rightarrow> cycle \<Rightarrow> unreachable_policy \<times> unreachable_breaker" where
  "breaker_step cfg b c = (case c of (checked, unreachable, now) \<Rightarrow> evaluate cfg checked unreachable now b)"

definition breaker_after :: "liveness_config \<Rightarrow> cycle list \<Rightarrow> unreachable_breaker" where
  "breaker_after cfg cs = foldl (\<lambda>b c. snd (breaker_step cfg b c)) new_breaker cs"

fun policies :: "liveness_config \<Rightarrow> unreachable_breaker \<Rightarrow> cycle list \<Rightarrow> unreachable_policy list" where
  "policies cfg b [] = []"
| "policies cfg b (c # cs) = (case breaker_step cfg b c of (p, b') \<Rightarrow> p # policies cfg b' cs)"

text \<open>Spans in order, one ending before the next begins.\<close>

fun spaced :: "timestamp \<Rightarrow> held_span list \<Rightarrow> timestamp \<Rightarrow> bool" where
  "spaced lo [] hi \<longleftrightarrow> lo \<le> hi"
| "spaced lo (s # ss) hi \<longleftrightarrow> lo \<le> hs_from s \<and> hs_from s \<le> hs_to s \<and> spaced (hs_to s) ss hi"

lemma spaced_bounds: "spaced lo ss hi \<Longrightarrow> lo \<le> hi"
  by (induction ss arbitrary: lo) (auto, force)

lemma spaced_later: "spaced lo ss hi \<Longrightarrow> hi \<le> hi' \<Longrightarrow> spaced lo ss hi'"
  by (induction ss arbitrary: lo) auto

lemma spaced_earlier: "spaced lo ss hi \<Longrightarrow> lo' \<le> lo \<Longrightarrow> spaced lo' ss hi"
  by (cases ss) auto

lemma spaced_filter: "spaced lo ss hi \<Longrightarrow> spaced lo (filter P ss) hi"
proof (induction ss arbitrary: lo)
  case (Cons s ss)
  then have "spaced (hs_to s) (filter P ss) hi" "lo \<le> hs_from s" "hs_from s \<le> hs_to s" by auto
  then show ?case using spaced_earlier [of "hs_to s" "filter P ss" hi lo] by auto
qed simp

lemma spaced_snoc: "spaced lo (ss @ [s]) hi \<longleftrightarrow> spaced lo ss (hs_from s) \<and> hs_from s \<le> hs_to s \<and> hs_to s \<le> hi"
  by (induction ss arbitrary: lo) auto

lemma spaced_extend:
  assumes "since \<le> now" and "spaced lo held since \<or> (held \<noteq> [] \<and> hs_from (last held) = since \<and> spaced lo held now)"
  shows "spaced lo (extend_held since now held) now"
    "extend_held since now held \<noteq> []" "hs_from (last (extend_held since now held)) = since"
proof -
  show "spaced lo (extend_held since now held) now"
  proof (cases "held \<noteq> [] \<and> hs_from (last held) = since")
    case True
    then have held: "held = butlast held @ [last held]" by simp
    from assms(2) have "spaced lo (butlast held) since"
      using True spaced_snoc [of lo "butlast held" "last held"] held by metis
    with True assms(1) show ?thesis by (simp add: extend_held_def spaced_snoc)
  next
    case False
    with assms show ?thesis by (auto simp: extend_held_def spaced_snoc)
  qed
  show "extend_held since now held \<noteq> []" "hs_from (last (extend_held since now held)) = since"
    by (auto simp: extend_held_def)
qed

lemma held_since_bounds:
  assumes "spaced lo ss hi"
  shows "0 \<le> held_since ss t \<and> held_since ss t \<le> max 0 (hi - max lo t)"
  using assms
proof (induction ss arbitrary: lo)
  case (Cons s ss)
  from Cons.prems have s: "lo \<le> hs_from s" "hs_from s \<le> hs_to s" "spaced (hs_to s) ss hi" by auto
  from spaced_bounds [OF s(3)] have "hs_to s \<le> hi" .
  with Cons.IH [OF s(3)] s(1,2)
  show ?case
    by (auto simp: held_since_def max_def split: if_splits)
qed (simp_all add: held_since_def)

definition breaker_inv :: "unreachable_breaker \<Rightarrow> timestamp \<Rightarrow> bool" where
  "breaker_inv b now \<longleftrightarrow> ub_quiet_cycles b < UNREACHABLE_CLEAR_CYCLES \<and>
     (\<exists>lo. spaced lo (ub_held b) now \<and>
       (\<forall>since. ub_tripped_since b = Some since \<longrightarrow> since \<le> now \<and>
         (spaced lo (ub_held b) since \<or>
          (ub_held b \<noteq> [] \<and> hs_from (last (ub_held b)) = since \<and> spaced lo (ub_held b) now))))"

lemma breaker_inv_later: "breaker_inv b now \<Longrightarrow> now \<le> now' \<Longrightarrow> breaker_inv b now'"
  unfolding breaker_inv_def by (meson order_trans spaced_later)

lemma new_breaker_inv: "breaker_inv new_breaker now"
  by (auto simp: breaker_inv_def new_breaker_def UNREACHABLE_CLEAR_CYCLES_def)

lemma retain_inv:
  assumes "breaker_inv b now"
  shows "breaker_inv (b\<lparr>ub_held := filter P (ub_held b)\<rparr>) now"
proof -
  let ?held = "ub_held b"
  from assms obtain lo where lo: "spaced lo ?held now"
    and since: "\<And>since. ub_tripped_since b = Some since \<Longrightarrow> since \<le> now \<and>
      (spaced lo ?held since \<or> (?held \<noteq> [] \<and> hs_from (last ?held) = since \<and> spaced lo ?held now))"
    and quiet: "ub_quiet_cycles b < UNREACHABLE_CLEAR_CYCLES"
    by (auto simp: breaker_inv_def)
  have "spaced lo (filter P ?held) since \<or>
      (filter P ?held \<noteq> [] \<and> hs_from (last (filter P ?held)) = since \<and> spaced lo (filter P ?held) now)"
    if t: "ub_tripped_since b = Some since" for since
  proof (cases "spaced lo ?held since")
    case False
    with since [OF t] have h: "?held \<noteq> []" "hs_from (last ?held) = since" by auto
    then have held: "?held = butlast ?held @ [last ?held]" by simp
    from lo held h(2) have but: "spaced lo (butlast ?held) since"
      by (metis spaced_snoc)
    show ?thesis
    proof (cases "P (last ?held)")
      case True
      have "filter P ?held = filter P (butlast ?held) @ [last ?held]"
        using True by (subst held) simp
      with h spaced_filter [OF lo, of P] show ?thesis by simp
    next
      case False
      have "filter P ?held = filter P (butlast ?held)"
        using False by (subst held) simp
      with but show ?thesis by (simp add: spaced_filter)
    qed
  qed (simp add: spaced_filter)
  with lo since quiet show ?thesis by (auto simp: breaker_inv_def spaced_filter intro!: exI [of _ lo])
qed

lemma noted_inv:
  assumes "breaker_inv b now"
  shows "breaker_inv (note_trip now b) now" "ub_tripped_since b \<noteq> None \<Longrightarrow> breaker_inv (note_quiet_cycle b) now"
proof -
  show "breaker_inv (note_trip now b) now"
    using assms by (auto simp: breaker_inv_def note_trip_def Let_def UNREACHABLE_CLEAR_CYCLES_def)
  have "ub_quiet_cycles b + 1 < 3 \<or> \<not> ub_quiet_cycles b + 1 < 3" by simp
  then show "breaker_inv (note_quiet_cycle b) now"
    using assms by (auto simp: breaker_inv_def note_quiet_cycle_def Let_def UNREACHABLE_CLEAR_CYCLES_def)
qed

text \<open>One cycle, with the breaker as it stands once the cycle is noted and old spans dropped.\<close>

definition noted :: "liveness_config \<Rightarrow> cycle \<Rightarrow> unreachable_breaker \<Rightarrow> unreachable_breaker" where
  "noted cfg c b = (let
     b = (if cycle_trips cfg c then note_trip (cycle_time c) b
          else if ub_tripped_since b \<noteq> None then note_quiet_cycle b else b)
     in b\<lparr>ub_held := filter (\<lambda>s. cycle_time c - hs_to s \<le> max_hold cfg + max_hold cfg) (ub_held b)\<rparr>)"

lemma breaker_step_noted:
  "breaker_step cfg b c = (let b = noted cfg c b; now = cycle_time c; hold = max_hold cfg in
     case ub_tripped_since b of
       None \<Rightarrow> (Judge (ub_held b) hold, b)
     | Some since \<Rightarrow>
         if now - since > hold then (Judge (ub_held b) hold, give_up now hold b)
         else let b = report_hold now b in (Hold, b\<lparr>ub_held := extend_held since now (ub_held b)\<rparr>))"
  by (cases c) (simp only: breaker_step_def evaluate_def noted_def Let_def cycle_time.simps cycle_trips.simps prod.case)

lemma noted_cycle_inv: "breaker_inv b (cycle_time c) \<Longrightarrow> breaker_inv (noted cfg c b) (cycle_time c)"
  unfolding noted_def Let_def by (rule retain_inv) (auto intro: noted_inv)

lemma step_inv:
  assumes "breaker_inv b (cycle_time c)"
  shows "breaker_inv (snd (breaker_step cfg b c)) (cycle_time c)"
proof -
  let ?b = "noted cfg c b" and ?now = "cycle_time c"
  note b = noted_cycle_inv [OF assms, of cfg]
  have alerts: "breaker_inv (give_up now hold b') t = breaker_inv b' t"
    "breaker_inv (report_hold now b') t = breaker_inv b' t"
    "ub_held (report_hold now b') = ub_held b'" for now hold b' t
    by (auto simp: breaker_inv_def give_up_def report_hold_def split: option.split)
  have "breaker_inv ((report_hold ?now ?b)\<lparr>ub_held := extend_held since ?now (ub_held ?b)\<rparr>) ?now"
    if t: "ub_tripped_since ?b = Some since" for since
  proof -
    from b t obtain lo where "since \<le> ?now" "spaced lo (ub_held ?b) since \<or>
        (ub_held ?b \<noteq> [] \<and> hs_from (last (ub_held ?b)) = since \<and> spaced lo (ub_held ?b) ?now)"
      "ub_quiet_cycles ?b < UNREACHABLE_CLEAR_CYCLES"
      by (auto simp: breaker_inv_def)
    from spaced_extend [OF this(1,2)] this(1,3) t show ?thesis
      by (auto simp: breaker_inv_def report_hold_def intro!: exI [of _ lo])
  qed
  with b show ?thesis by (auto simp: breaker_step_noted Let_def alerts split: option.split)
qed

lemma breaker_after_inv:
  assumes "sorted (map cycle_time cs)" and "\<forall>c \<in> set cs. cycle_time c \<le> now"
  shows "breaker_inv (breaker_after cfg cs) now"
  using assms
proof (induction cs arbitrary: now rule: rev_induct)
  case (snoc c cs)
  have "breaker_inv (breaker_after cfg cs) (cycle_time c)"
    using snoc.prems by (intro snoc.IH) (auto simp: sorted_append)
  from breaker_inv_later [OF step_inv [OF this], of now] snoc.prems show ?case
    by (simp add: breaker_after_def)
qed (simp add: breaker_after_def new_breaker_inv)

lemma held_trip_stays:
  assumes "breaker_step cfg b c = (Hold, b')"
  shows "\<exists>since. ub_tripped_since (noted cfg c b) = Some since \<and> ub_tripped_since b' = Some since \<and>
    cycle_time c - since \<le> max_hold cfg"
  using assms by (auto simp: breaker_step_noted Let_def report_hold_def split: option.splits if_splits)

lemma noted_trip_stays: "ub_tripped_since b = Some since \<Longrightarrow> ub_tripped_since (noted cfg c b) \<in> {None, Some since}"
  by (auto simp: noted_def Let_def note_trip_def note_quiet_cycle_def)

lemma policies_Cons:
  "policies cfg b (c # cs) = fst (breaker_step cfg b c) # policies cfg (snd (breaker_step cfg b c)) cs"
  by (simp split: prod.split)

lemma held_run:
  assumes "ub_tripped_since b = Some since" and "\<forall>p \<in> set (policies cfg b cs). p = Hold" and "c \<in> set cs"
  shows "cycle_time c - since \<le> max_hold cfg"
  using assms
proof (induction cs arbitrary: b)
  case (Cons d ds)
  obtain p b' where step: "breaker_step cfg b d = (p, b')" by fastforce
  with Cons.prems(2) have step': "breaker_step cfg b d = (Hold, b')" by simp
  from held_trip_stays [OF step'] noted_trip_stays [OF Cons.prems(1), of cfg d]
  have b': "ub_tripped_since b' = Some since" "cycle_time d - since \<le> max_hold cfg" by auto
  show ?case
  proof (cases "c \<in> set ds")
    case True
    from Cons.IH [OF b'(1) _ True] Cons.prems(2) step show ?thesis by simp
  qed (use Cons.prems(3) b'(2) in simp)
qed simp

lemma quiet_cycles_count:
  assumes "\<not> cycle_trips cfg c" and "ub_tripped_since (snd (breaker_step cfg b c)) \<noteq> None"
  shows "ub_tripped_since b \<noteq> None" "ub_quiet_cycles (snd (breaker_step cfg b c)) = ub_quiet_cycles b + 1"
    "ub_quiet_cycles b + 1 < 3"
  using assms by (auto simp: breaker_step_noted noted_def Let_def note_quiet_cycle_def give_up_def report_hold_def
      UNREACHABLE_CLEAR_CYCLES_def split: option.splits if_splits)

lemma three_quiet_cycles_clear:
  assumes "ub_quiet_cycles b < 3" and "\<not> cycle_trips cfg c1" and "\<not> cycle_trips cfg c2" and "\<not> cycle_trips cfg c3"
  shows "\<exists>ps held g. policies cfg b [c1, c2, c3] = ps @ [Judge held g]"
proof (rule ccontr)
  assume no: "\<not> ?thesis"
  define b1 where "b1 = snd (breaker_step cfg b c1)"
  define b2 where "b2 = snd (breaker_step cfg b1 c2)"
  obtain p3 b3 where step3: "breaker_step cfg b2 c3 = (p3, b3)" by fastforce
  have "policies cfg b [c1, c2, c3] = [fst (breaker_step cfg b c1), fst (breaker_step cfg b1 c2), p3]"
    using step3 by (simp add: policies_Cons b1_def b2_def del: policies.simps(2))
  with no have "p3 = Hold" by (cases p3) (auto simp: append_eq_Cons_conv)
  from held_trip_stays [OF step3 [unfolded this]] step3
  have "ub_tripped_since (snd (breaker_step cfg b2 c3)) \<noteq> None" by auto
  note q3 = quiet_cycles_count [OF assms(4) this]
  note q2 = quiet_cycles_count [OF assms(3) q3(1) [unfolded b2_def], folded b2_def]
  note q1 = quiet_cycles_count [OF assms(2) q2(1) [unfolded b1_def], folded b1_def]
  from q3(3) have "ub_quiet_cycles b + 1 + 1 + 1 < 3" by (simp only: q2(2) q1(2))
  with assms(1) show False by unat_arith simp
qed

lemma tolerance_bounds:
  "days 1 \<le> tolerance_duration d counts (lv_max_tolerance_days cfg)"
  "tolerance_duration d counts (lv_max_tolerance_days cfg) \<le> max_hold cfg"
proof -
  have "uint (1 :: u32) \<le> uint (max (min k (lv_max_tolerance_days cfg)) 1)"
    "uint (max (min k (lv_max_tolerance_days cfg)) 1) \<le> uint (max (lv_max_tolerance_days cfg) 1)" for k :: u32
    unfolding word_le_def [symmetric] by (simp_all add: max.coboundedI1 min.coboundedI2)
  then show "days 1 \<le> tolerance_duration d counts (lv_max_tolerance_days cfg)"
    "tolerance_duration d counts (lv_max_tolerance_days cfg) \<le> max_hold cfg"
    by (simp_all add: tolerance_duration_def max_hold_def days_def secs_def Let_def)
qed

lemma held_since_filter:
  assumes "\<And>s. s \<in> set held \<Longrightarrow> \<not> P s \<Longrightarrow> hs_to s \<le> t"
  shows "held_since (filter P held) t = held_since held t"
  using assms
proof (induction held)
  case (Cons s held)
  then have "held_since (filter P held) t = held_since held t" by simp
  moreover have "\<not> P s \<Longrightarrow> hs_to s \<le> t" using Cons.prems by simp
  ultimately show ?case by (auto simp: held_since_def max_def)
qed (simp add: held_since_def)

lemma hold_run_bounded:
  assumes "breaker_inv b (cycle_time c)" and "\<forall>p \<in> set (policies cfg b (c # ds)). p = Hold" and "d \<in> set ds"
  shows "cycle_time d - cycle_time c \<le> max_hold cfg"
proof -
  obtain b' where step: "breaker_step cfg b c = (Hold, b')"
    using assms(2) by (cases "breaker_step cfg b c") simp
  from held_trip_stays [OF step] obtain since where since: "ub_tripped_since (noted cfg c b) = Some since"
    "ub_tripped_since b' = Some since" by auto
  from noted_cycle_inv [OF assms(1), of cfg] since(1) have "since \<le> cycle_time c" by (auto simp: breaker_inv_def)
  moreover from held_run [OF since(2) _ assms(3)] assms(2) step have "cycle_time d - since \<le> max_hold cfg" by simp
  ultimately show ?thesis by simp
qed

lemma grace_bounded:
  assumes "breaker_inv b (cycle_time c)" and "fst (breaker_step cfg b c) = Judge held grace" and "t \<le> cycle_time c"
  shows "\<exists>t'. progress_clock (Judge held grace) (Some t) = Some t' \<and> t \<le> t' \<and> t' \<le> cycle_time c \<and>
    t' \<le> t + max_hold cfg"
proof -
  from assms(2) have held: "held = ub_held (noted cfg c b)" and grace: "grace = max_hold cfg"
    by (auto simp: breaker_step_noted Let_def split: option.splits if_splits)
  from noted_cycle_inv [OF assms(1), of cfg] obtain lo where "spaced lo held (cycle_time c)"
    by (auto simp: held breaker_inv_def)
  from held_since_bounds [OF this, of t] tolerance_bounds [of undefined undefined cfg] assms(3)
  show ?thesis by (auto simp: grace days_def secs_def)
qed



definition sample_liveness :: liveness_config where
  "sample_liveness = \<lparr>lv_batch_size = 500, lv_max_tolerance_days = 4,
     lv_unreachable_trip_fraction = Fin (1 / 2), lv_unreachable_trip_min_indexers = 3\<rparr>"

lemma sample_trips: "cycle_trips sample_liveness (4, 4, t)"
proof -
  have "f64_round 1 = Fin 1" using f64_round_pow2 [of 0] by (simp add: pow2_def)
  then show ?thesis by (simp add: sample_liveness_def unreachable_trips_def f64_of_nat_exact)
qed

lemma sample_hold: "policies sample_liveness new_breaker [(4, 4, 0), (4, 4, 300)] = [Hold, Hold]"
  using sample_trips
  by (simp add: breaker_step_noted noted_def note_trip_def new_breaker_def report_hold_def Let_def max_hold_def
      days_def secs_def UNREACHABLE_ALERT_REPEAT_def sample_liveness_def)


end
