(* ===== verification/Registry_Reconcile.thy ===== *)
theory Registry_Reconcile
  imports Registry_Safety
begin

text \<open>
  What the reconciliation writes do, row by row. \<open>reconciled_row\<close> and \<open>reconciled_outcome\<close> are the
  specification of one item on one row; the batched transaction, which partitions the items into
  four groups and runs set-based updates, implements it for every row at once, and so does the
  item-by-item loop of the registry trait. The audit writes that replace an end are described the
  same way, and the target upsert refines a plain map from request keys to targets.
\<close>

section \<open>Specification of one item\<close>

definition accepts :: "reconciliation_item \<Rightarrow> agreement_row \<Rightarrow> bool" where
  "accepts it r \<longleftrightarrow> ri_apply_accept it \<and> a_status r \<in> {Created, Expired}"

definition accepted_row :: "timestamp \<Rightarrow> reconciliation_item \<Rightarrow> agreement_row \<Rightarrow> agreement_row" where
  "accepted_row now it r =
     (if accepts it r then r\<lparr>a_status := AcceptedOnChain, a_updated_at := now\<rparr> else r)"

fun cancel_from :: "cancel_kind \<Rightarrow> agreement_status list" where
  "cancel_from ByRequester = [Created, AcceptedOnChain, Rejected, Cancelling]"
| "cancel_from ByIndexer = [AcceptedOnChain, Cancelling]"

fun cancel_to :: "cancel_kind \<Rightarrow> agreement_row \<Rightarrow> agreement_status" where
  "cancel_to ByRequester r = (if a_abandoned r then AbandonedByIndexer else CanceledByRequester)"
| "cancel_to ByIndexer r = CanceledByIndexer"

definition cancels :: "reconciliation_item \<Rightarrow> agreement_row \<Rightarrow> bool" where
  "cancels it r \<longleftrightarrow> (case ri_cancel it of None \<Rightarrow> False | Some k \<Rightarrow> a_status r \<in> set (cancel_from k))"

definition canceled_row :: "timestamp \<Rightarrow> reconciliation_item \<Rightarrow> agreement_row \<Rightarrow> agreement_row" where
  "canceled_row now it r =
     (if cancels it r then r\<lparr>a_status := cancel_to (the (ri_cancel it)) r, a_updated_at := now\<rparr> else r)"

definition reconciled_outcome :: "timestamp \<Rightarrow> reconciliation_item \<Rightarrow> agreement_row \<Rightarrow>
    reconciliation_outcome" where
  "reconciled_outcome now it r =
     \<lparr>did_accept = accepts it r, did_cancel = cancels it (accepted_row now it r)\<rparr>"

definition audited_row :: "reconciliation_audit \<Rightarrow> reconciliation_outcome \<Rightarrow> agreement_row \<Rightarrow>
    agreement_row" where
  "audited_row au oc r =
     (let r' = (if did_accept oc then accept_audit_row au r else r) in
      if did_cancel oc then cancel_audit_row au r' else r')"

definition reconciled_row :: "timestamp \<Rightarrow> reconciliation_item \<Rightarrow> agreement_row \<Rightarrow> agreement_row" where
  "reconciled_row now it r =
     audited_row (ri_audit it) (reconciled_outcome now it r)
       (canceled_row now it (accepted_row now it r))"

definition item_outcome :: "timestamp \<Rightarrow> registry \<Rightarrow> reconciliation_item \<Rightarrow> reconciliation_outcome" where
  "item_outcome now db it =
     (case find_row a_id (ri_agreement_id it) (agreements db) of
        None \<Rightarrow> no_outcome
      | Some r \<Rightarrow> reconciled_outcome now it r)"

section \<open>Tables mapped row by row\<close>

definition table_map :: "(agreement_row \<Rightarrow> agreement_row) \<Rightarrow> registry \<Rightarrow> registry" where
  "table_map g db = db\<lparr>agreements := map g (agreements db)\<rparr>"

lemma table_map_table_map [simp]: "table_map g (table_map h db) = table_map (g \<circ> h) db"
  by (simp add: table_map_def)

lemma table_map_id: "(\<And>r. r \<in> set (agreements db) \<Longrightarrow> g r = r) \<Longrightarrow> table_map g db = db"
  by (simp add: table_map_def map_idI)

lemma table_map_cong:
  "(\<And>r. r \<in> set (agreements db) \<Longrightarrow> g r = h r) \<Longrightarrow> table_map g db = table_map h db"
  by (simp add: table_map_def)

lemma agreements_table_map [simp]: "agreements (table_map g db) = map g (agreements db)"
  by (simp add: table_map_def)

lemma find_row_map:
  "(\<And>r. key (g r) = key r) \<Longrightarrow> find_row key k (map g t) = map_option g (find_row key k t)"
  by (induction t) auto

lemma filter_key_ne:
  assumes "distinct (map key t)"
  shows "filter (\<lambda>r. key r = k \<and> P r) t \<noteq> [] \<longleftrightarrow>
    (case find_row key k t of None \<Rightarrow> False | Some r \<Rightarrow> P r)"
  using assms by (auto simp: filter_empty_conv find_row_iff find_row_None image_iff
      split: option.split dest: distinct_map_keyD)

lemma update_status_done:
  "update_status P f db = Inr (rows, db') \<Longrightarrow>
    rows = sql_returning P f (agreements db) \<and> db' = table_map (\<lambda>r. if P r then f r else r) db"
  by (auto simp: update_status_def Let_def table_map_def sql_update_def split: if_splits)

lemma update_status_error: "update_status P f db = Inl e \<Longrightarrow> e = DbError UniqueViolation"
  by (auto simp: update_status_def Let_def split: if_splits)

definition set_row_status :: "timestamp \<Rightarrow> (agreement_row \<Rightarrow> bool) \<Rightarrow>
    (agreement_row \<Rightarrow> agreement_status) \<Rightarrow> agreement_row \<Rightarrow> agreement_row" where
  "set_row_status now P new_status r =
     (if P r then r\<lparr>a_status := new_status r, a_updated_at := now\<rparr> else r)"

lemma batch_set_status_done:
  assumes "batch_set_status now ids new_status fr db = Inr (res, db')"
  shows "db' = table_map (set_row_status now (\<lambda>r. a_id r \<in> set ids \<and> a_status r \<in> set fr) new_status) db \<and>
    res = map a_id (filter (\<lambda>r. a_id r \<in> set ids \<and> a_status r \<in> set fr) (agreements db))"
proof (cases "ids = []")
  case True
  with assms show ?thesis
    by (auto simp: batch_set_status_def table_map_def set_row_status_def map_idI)
next
  case False
  with assms show ?thesis
    by (auto simp: batch_set_status_def tx_bind_def sql_returning_def set_row_status_def [abs_def] comp_def
        dest!: update_status_done split: sum.splits prod.splits)
qed

lemma batch_set_status_error:
  "batch_set_status now ids new_status fr db = Inl e \<Longrightarrow> e = DbError UniqueViolation"
  by (auto simp: batch_set_status_def tx_bind_def split: if_splits sum.splits prod.splits
      dest: update_status_error)

lemma batch_apply_cancel_eq:
  "batch_apply_cancel now ids k = batch_set_status now ids (cancel_to k) (cancel_from k)"
proof -
  have "cancel_to ByRequester = (\<lambda>r. if a_abandoned r then AbandonedByIndexer else CanceledByRequester)"
    "cancel_to ByIndexer = (\<lambda>_. CanceledByIndexer)"
    by (simp_all add: fun_eq_iff)
  then show ?thesis
    by (cases k) (simp_all add: batch_apply_cancel_def batch_update_status_from_def
        CANCEL_BY_REQUESTER_FROM_def CANCEL_BY_INDEXER_FROM_def)
qed

lemma tx_bind_done:
  assumes "tx_bind m k db = Inr (b, db')"
  obtains a db1 where "m db = Inr (a, db1)" and "k a db1 = Inr (b, db')"
  using assms by (auto simp: tx_bind_def split: sum.splits prod.splits)

section \<open>One item\<close>

text \<open>Whether the row with id \<open>i\<close>, if there is one, satisfies \<open>P\<close>.\<close>

definition row_is :: "agreement_id \<Rightarrow> (agreement_row \<Rightarrow> bool) \<Rightarrow> registry \<Rightarrow> bool" where
  "row_is i P db = (case find_row a_id i (agreements db) of None \<Rightarrow> False | Some r \<Rightarrow> P r)"

lemma row_is_table_map:
  "(\<And>r. a_id (g r) = a_id r) \<Longrightarrow> row_is i P (table_map g db) = row_is i (\<lambda>r. P (g r)) db"
  by (simp add: row_is_def find_row_map split: option.split)

lemma update_status_from_done:
  assumes "distinct (map a_id (agreements db))" and "update_status_from now i s fr db = Inr (b, db')"
  shows "db' = table_map (set_row_status now (\<lambda>r. a_id r = i \<and> a_status r \<in> set fr) (\<lambda>_. s)) db \<and>
    b = row_is i (\<lambda>r. a_status r \<in> set fr) db"
  using assms filter_key_ne [OF assms(1), of i "\<lambda>r. a_status r \<in> set fr"]
  by (auto simp: update_status_from_def batch_update_status_from_def tx_bind_def row_is_def
      dest!: batch_set_status_done split: sum.splits prod.splits)

lemma apply_cancel_done:
  assumes "distinct (map a_id (agreements db))" and "apply_cancel now i k db = Inr (b, db')"
  shows "db' = table_map (set_row_status now (\<lambda>r. a_id r = i \<and> a_status r \<in> set (cancel_from k)) (cancel_to k)) db \<and>
    b = row_is i (\<lambda>r. a_status r \<in> set (cancel_from k)) db"
  using assms filter_key_ne [OF assms(1), of i "\<lambda>r. a_status r \<in> set (cancel_from k)"]
  by (auto simp: apply_cancel_def batch_apply_cancel_eq tx_bind_def row_is_def
      dest!: batch_set_status_done split: sum.splits prod.splits)

lemma a_id_set_row_status [simp]: "a_id (set_row_status now P s r) = a_id r"
  by (simp add: set_row_status_def)

lemma a_id_reconciled [simp]:
  "a_id (accepted_row now it r) = a_id r" "a_id (canceled_row now it r) = a_id r"
  "a_id (audited_row au oc r) = a_id r" "a_id (reconciled_row now it r) = a_id r"
  by (simp_all add: accepted_row_def canceled_row_def reconciled_row_def audited_row_def Let_def
      accept_audit_row_def cancel_audit_row_def)

lemma accept_then_cancel:
  assumes ids: "distinct (map a_id (agreements db))"
    and it: "ri_agreement_id it = i" "ri_apply_accept it" "ri_cancel it = Some k"
    and acc: "update_status_from now i AcceptedOnChain ACCEPT_FROM db = Inr (acc, db1)"
    and can: "apply_cancel now i k db1 = Inr (can, db2)"
  shows "db2 = table_map (\<lambda>r. if a_id r = i then canceled_row now it (accepted_row now it r) else r) db \<and>
    \<lparr>did_accept = acc, did_cancel = can\<rparr> = item_outcome now db it"
proof -
  let ?g = "set_row_status now (\<lambda>r. a_id r = i \<and> a_status r \<in> set ACCEPT_FROM) (\<lambda>_. AcceptedOnChain)"
  from update_status_from_done [OF ids acc] have db1: "db1 = table_map ?g db"
    "acc = row_is i (\<lambda>r. a_status r \<in> set ACCEPT_FROM) db" by auto
  have g: "?g r = (if a_id r = i then accepted_row now it r else r)" for r
    using it by (simp add: set_row_status_def accepted_row_def accepts_def ACCEPT_FROM_def)
  have "distinct (map a_id (agreements db1))"
    using ids by (simp add: db1 comp_def)
  from apply_cancel_done [OF this can] db1(1) have
    db2: "db2 = table_map (\<lambda>r. set_row_status now (\<lambda>r. a_id r = i \<and> a_status r \<in> set (cancel_from k))
      (cancel_to k) (?g r)) db" "can = row_is i (\<lambda>r. a_status (?g r) \<in> set (cancel_from k)) db"
    by (auto simp: comp_def row_is_table_map)
  have "db2 = table_map (\<lambda>r. if a_id r = i then canceled_row now it (accepted_row now it r) else r) db"
    unfolding db2(1) g using it(3)
    by (intro table_map_cong) (simp add: set_row_status_def canceled_row_def cancels_def)
  moreover have "\<lparr>did_accept = acc, did_cancel = can\<rparr> = item_outcome now db it"
    unfolding db1(2) db2(2) g
    using it by (auto simp: item_outcome_def row_is_def reconciled_outcome_def accepts_def
        cancels_def no_outcome_def ACCEPT_FROM_def dest: find_row_SomeD split: option.splits)
  ultimately show ?thesis by blast
qed

lemma accepted_in_cancel_from [simp]: "AcceptedOnChain \<in> set (cancel_from k)"
  by (cases k) simp_all

lemma accept_implies_cancel: "did_accept (item_outcome now db it) \<Longrightarrow> ri_cancel it \<noteq> None \<Longrightarrow>
    did_cancel (item_outcome now db it)"
  by (auto simp: item_outcome_def reconciled_outcome_def no_outcome_def accepted_row_def cancels_def
      split: option.splits)

section \<open>The batch\<close>

text \<open>The row after the items of \<open>items\<close>, at most one of which names it.\<close>

definition by_item :: "(reconciliation_item \<Rightarrow> agreement_row \<Rightarrow> agreement_row) \<Rightarrow>
    reconciliation_item list \<Rightarrow> agreement_row \<Rightarrow> agreement_row" where
  "by_item g items r =
     (case find_row ri_agreement_id (a_id r) items of None \<Rightarrow> r | Some it \<Rightarrow> g it r)"

lemma by_item_Nil [simp]: "by_item g [] r = r"
  by (simp add: by_item_def)

lemma by_item_Cons:
  "by_item g (it # items) r = (if a_id r = ri_agreement_id it then g it r else by_item g items r)"
  by (simp add: by_item_def)

lemma by_item_absent: "a_id r \<notin> ri_agreement_id ` set items \<Longrightarrow> by_item g items r = r"
  by (simp add: by_item_def find_row_None [symmetric])

lemma item_outcome_table_map:
  assumes "\<And>r. a_id (g r) = a_id r" and "\<And>r. a_id r = ri_agreement_id it \<Longrightarrow> g r = r"
  shows "item_outcome now (table_map g db) it = item_outcome now db it"
  using assms by (auto simp: item_outcome_def find_row_map split: option.splits dest: find_row_SomeD)

lemma items_step:
  fixes it now
  defines "g \<equiv> \<lambda>r. if a_id r = ri_agreement_id it then canceled_row now it (accepted_row now it r) else r"
  assumes ids: "distinct (map ri_agreement_id (it # items))"
    and db': "db' = table_map (by_item (\<lambda>it r. canceled_row now it (accepted_row now it r)) items) (table_map g db)"
    and outs': "outs' = (\<lambda>i. case find_row ri_agreement_id i items of
        None \<Rightarrow> (outs(ri_agreement_id it \<mapsto> item_outcome now db it)) i
      | Some it \<Rightarrow> Some (item_outcome now (table_map g db) it))"
  shows "db' = table_map (by_item (\<lambda>it r. canceled_row now it (accepted_row now it r)) (it # items)) db \<and>
    outs' = (\<lambda>i. case find_row ri_agreement_id i (it # items) of None \<Rightarrow> outs i
                 | Some it \<Rightarrow> Some (item_outcome now db it))"
proof -
  have fresh: "find_row ri_agreement_id (ri_agreement_id it) items = None"
    using ids by (simp add: find_row_None)
  have "item_outcome now (table_map g db) it' = item_outcome now db it'" if "it' \<in> set items" for it'
    using that ids unfolding g_def by (intro item_outcome_table_map) (auto simp: image_iff)
  then have "outs' = (\<lambda>i. case find_row ri_agreement_id i (it # items) of None \<Rightarrow> outs i
      | Some it \<Rightarrow> Some (item_outcome now db it))"
    unfolding outs' using fresh by (auto simp: fun_eq_iff split: option.split dest: find_row_SomeD)
  moreover have "db' = table_map (by_item (\<lambda>it r. canceled_row now it (accepted_row now it r)) (it # items)) db"
    unfolding db' g_def using ids by (auto intro!: table_map_cong simp: by_item_Cons by_item_absent)
  ultimately show ?thesis by blast
qed

lemma apply_paired_done:
  assumes "distinct (map a_id (agreements db))" and "distinct (map ri_agreement_id items)"
    and "\<And>it. it \<in> set items \<Longrightarrow> ri_apply_accept it \<and> ri_cancel it \<noteq> None"
    and "apply_paired now items outs db = Inr (outs', db')"
  shows "db' = table_map (by_item (\<lambda>it r. canceled_row now it (accepted_row now it r)) items) db \<and>
    outs' = (\<lambda>i. case find_row ri_agreement_id i items of None \<Rightarrow> outs i
                 | Some it \<Rightarrow> Some (item_outcome now db it))"
  using assms
proof (induction items arbitrary: db outs)
  case Nil
  then show ?case by (simp add: table_map_id)
next
  case (Cons it items)
  let ?i = "ri_agreement_id it"
  let ?g = "\<lambda>r. if a_id r = ?i then canceled_row now it (accepted_row now it r) else r"
  from Cons.prems(3) obtain k where k: "ri_cancel it = Some k" and accept: "ri_apply_accept it" by auto
  from Cons.prems(4) k obtain acc db1 can db2 where
    acc: "update_status_from now ?i AcceptedOnChain ACCEPT_FROM db = Inr (acc, db1)"
    and can: "apply_cancel now ?i k db1 = Inr (can, db2)"
    and more: "apply_paired now items (outs(?i \<mapsto> \<lparr>did_accept = acc, did_cancel = can\<rparr>)) db2 =
      Inr (outs', db')"
    by (auto elim!: tx_bind_done split: if_splits)
  from accept_then_cancel [OF Cons.prems(1) refl accept k acc can] more
  have rest: "apply_paired now items (outs(?i \<mapsto> item_outcome now db it)) (table_map ?g db) = Inr (outs', db')"
    by simp
  have "distinct (map a_id (agreements (table_map ?g db)))"
    using Cons.prems(1) by (simp add: comp_def if_distrib cong: if_cong)
  from Cons.IH [OF this _ _ rest] Cons.prems(2,3) have
    fin: "db' = table_map (by_item (\<lambda>it r. canceled_row now it (accepted_row now it r)) items)
      (table_map ?g db)"
    "outs' = (\<lambda>i. case find_row ri_agreement_id i items of
        None \<Rightarrow> (outs(?i \<mapsto> item_outcome now db it)) i
      | Some it \<Rightarrow> Some (item_outcome now (table_map ?g db) it))" by auto
  with Cons.prems(2) show ?case by (intro items_step)
qed

lemma batch_set_status_ids:
  assumes "distinct (map a_id (agreements db))" and "batch_set_status now ids s fr db = Inr (res, db')"
  shows "i \<in> set res \<longleftrightarrow> i \<in> set ids \<and> row_is i (\<lambda>r. a_status r \<in> set fr) db"
  using assms by (auto simp: row_is_def find_row_iff find_row_None image_iff
      dest!: batch_set_status_done dest: distinct_map_keyD split: option.splits)

lemma find_row_filter:
  "distinct (map key t) \<Longrightarrow> find_row key k (filter Q t) =
    (case find_row key k t of None \<Rightarrow> None | Some x \<Rightarrow> if Q x then Some x else None)"
proof (induction t)
  case (Cons a t)
  have "key a = k \<Longrightarrow> find_row key k t = None"
    using Cons.prems by (auto simp: find_row_None)
  with Cons show ?case by (auto split: option.splits)
qed simp

lemma in_filtered_ids:
  "distinct (map key t) \<Longrightarrow> k \<in> set (map key (filter Q t)) \<longleftrightarrow>
    (case find_row key k t of None \<Rightarrow> False | Some x \<Rightarrow> Q x)"
  by (auto simp: find_row_iff find_row_None image_iff split: option.splits dest: distinct_map_keyD)

lemma persist_audit_done:
  "persist_accept_audit i au db = Inr ((), table_map (\<lambda>r. if a_id r = i then accept_audit_row au r else r) db)"
  "persist_cancel_audit i au db = Inr ((), table_map (\<lambda>r. if a_id r = i then cancel_audit_row au r else r) db)"
  by (auto simp: persist_accept_audit_def persist_cancel_audit_def ignore_rows_def update_columns_def
      tx_bind_def table_map_def sql_update_def accept_audit_row_def cancel_audit_row_def map_idI cong: if_cong)

lemma persist_audits_done:
  assumes "distinct (map ri_agreement_id items)"
  shows "persist_audits items outs db = Inr ((), table_map
    (by_item (\<lambda>it. audited_row (ri_audit it)
      (case outs (ri_agreement_id it) of None \<Rightarrow> no_outcome | Some oc \<Rightarrow> oc)) items) db)"
  using assms
proof (induction items arbitrary: db)
  case Nil
  then show ?case by (simp add: table_map_id)
next
  case (Cons it items)
  let ?i = "ri_agreement_id it" and ?oc = "case outs (ri_agreement_id it) of None \<Rightarrow> no_outcome | Some oc \<Rightarrow> oc"
  let ?g = "\<lambda>r. if a_id r = ?i then audited_row (ri_audit it) ?oc r else r"
  have ids: "a_id (accept_audit_row au r) = a_id r" for au r
    by (simp add: accept_audit_row_def)
  have "persist_audits (it # items) outs db = persist_audits items outs (table_map ?g db)"
    by (auto simp: Let_def tx_bind_def persist_audit_done audited_row_def ids comp_def
        intro!: arg_cong [where f = "persist_audits items outs"] table_map_cong
        intro: table_map_id [symmetric])
  also have "\<dots> = Inr ((), table_map (by_item (\<lambda>it. audited_row (ri_audit it)
      (case outs (ri_agreement_id it) of None \<Rightarrow> no_outcome | Some oc \<Rightarrow> oc)) (it # items)) db)"
    using Cons by (auto intro!: table_map_cong simp: by_item_Cons by_item_absent)
  finally show ?case .
qed

text \<open>The four groups of a batch, by shape, and the row after the three set-based statements.\<close>

definition in_group :: "(reconciliation_item \<Rightarrow> bool) \<Rightarrow> reconciliation_item list \<Rightarrow> agreement_id \<Rightarrow> bool" where
  "in_group Q items i = (case find_row ri_agreement_id i items of None \<Rightarrow> False | Some it \<Rightarrow> Q it)"

abbreviation "is_paired it \<equiv> ri_apply_accept it \<and> ri_cancel it \<noteq> None"
abbreviation "is_accept it \<equiv> ri_apply_accept it \<and> ri_cancel it = None"
abbreviation "is_cancel k it \<equiv> \<not> ri_apply_accept it \<and> ri_cancel it = Some k"

lemma set_row_status_skip: "\<not> P r \<Longrightarrow> set_row_status now P s r = r"
  by (simp add: set_row_status_def)

lemma groups_row:
  assumes "distinct (map ri_agreement_id items)"
  shows "set_row_status now (\<lambda>r. in_group (is_cancel ByIndexer) items (a_id r) \<and> a_status r \<in> set (cancel_from ByIndexer)) (cancel_to ByIndexer)
    (set_row_status now (\<lambda>r. in_group (is_cancel ByRequester) items (a_id r) \<and> a_status r \<in> set (cancel_from ByRequester)) (cancel_to ByRequester)
    (set_row_status now (\<lambda>r. in_group is_accept items (a_id r) \<and> a_status r \<in> set ACCEPT_FROM) (\<lambda>_. AcceptedOnChain)
    (by_item (\<lambda>it r. canceled_row now it (accepted_row now it r)) (filter is_paired items) r))) =
    by_item (\<lambda>it r. canceled_row now it (accepted_row now it r)) items r"
proof (cases "find_row ri_agreement_id (a_id r) items")
  case None
  then show ?thesis
    using assms by (simp add: by_item_def find_row_filter in_group_def set_row_status_skip)
next
  case (Some it)
  then have group: "in_group Q items (a_id r) = Q it" for Q by (simp add: in_group_def)
  have accepted: "accepted_row now it x = set_row_status now (\<lambda>r. a_status r \<in> set ACCEPT_FROM)
      (\<lambda>_. AcceptedOnChain) x" if "ri_apply_accept it" for x
    using that by (simp add: accepted_row_def accepts_def set_row_status_def ACCEPT_FROM_def)
  have canceled: "canceled_row now it x = set_row_status now (\<lambda>r. a_status r \<in> set (cancel_from k)) (cancel_to k) x"
    if "ri_cancel it = Some k" for k x
    using that by (simp add: canceled_row_def cancels_def set_row_status_def)
  have skips: "\<not> ri_apply_accept it \<Longrightarrow> accepted_row now it x = x" "ri_cancel it = None \<Longrightarrow> canceled_row now it x = x" for x
    by (simp_all add: accepted_row_def accepts_def canceled_row_def cancels_def)
  have drop: "set_row_status now (\<lambda>r. in_group Q items (a_id r) \<and> F r) s x =
      (if Q it then set_row_status now F s x else x)" if "a_id x = a_id r" for Q F s x
    using that by (simp add: set_row_status_def group)
  consider "ri_cancel it = None" | k where "ri_cancel it = Some k" by fastforce
  then show ?thesis
  proof cases
    case 1
    then show ?thesis
      using assms Some by (cases "ri_apply_accept it")
        (simp_all add: by_item_def find_row_filter drop skips accepted)
  next
    case 2
    then show ?thesis
      using assms Some by (cases k; cases "ri_apply_accept it")
        (simp_all add: by_item_def find_row_filter drop skips accepted canceled del: cancel_from.simps)
  qed
qed

lemma in_group_iff:
  "distinct (map ri_agreement_id items) \<Longrightarrow>
    i \<in> set (map ri_agreement_id (filter Q items)) \<longleftrightarrow> in_group Q items i"
  unfolding in_group_def by (rule in_filtered_ids)

lemma distinct_ids_table_map:
  "(\<And>r. a_id (g r) = a_id r) \<Longrightarrow> distinct (map a_id (agreements db)) \<Longrightarrow>
    distinct (map a_id (agreements (table_map g db)))"
  by (simp add: comp_def)

lemma a_id_by_item: "(\<And>it r. a_id (g it r) = a_id r) \<Longrightarrow> a_id (by_item g items r) = a_id r"
  by (simp add: by_item_def split: option.split)

text \<open>The outcomes the batch reports.\<close>

lemma groups_outcome:
  assumes items: "distinct (map ri_agreement_id items)"
    and acc: "\<And>i. i \<in> set accepted \<longleftrightarrow> in_group is_accept items i \<and> row_is i (\<lambda>r. a_status r \<in> set ACCEPT_FROM) db"
    and can: "\<And>k i. i \<in> set (canceled k) \<longleftrightarrow> in_group (is_cancel k) items i \<and> row_is i (\<lambda>r. a_status r \<in> set (cancel_from k)) db"
    and outs1: "outs1 = (\<lambda>i. case find_row ri_agreement_id i (filter is_paired items) of
        None \<Rightarrow> (if i \<in> ri_agreement_id ` set items then Some no_outcome else None)
      | Some it \<Rightarrow> Some (item_outcome now db it))"
  shows "note_cancels (canceled ByIndexer) (note_cancels (canceled ByRequester) (note_accepts accepted outs1)) i =
    map_option (item_outcome now db) (find_row ri_agreement_id i items)"
proof (cases "find_row ri_agreement_id i items")
  case None
  then have "i \<notin> ri_agreement_id ` set items" by (simp add: find_row_None)
  then show ?thesis
    using None items by (simp add: note_cancels_def note_accepts_def acc can in_group_def outs1 find_row_filter)
next
  case (Some it)
  then have it: "ri_agreement_id it = i" "i \<in> ri_agreement_id ` set items"
    by (auto dest: find_row_SomeD)
  have oc: "item_outcome now db it = \<lparr>did_accept = row_is i (accepts it) db,
      did_cancel = row_is i (\<lambda>r. cancels it (accepted_row now it r)) db\<rparr>"
    using it by (simp add: item_outcome_def row_is_def no_outcome_def reconciled_outcome_def split: option.split)
  have shapes: "ri_apply_accept it \<Longrightarrow> accepts it = (\<lambda>r. a_status r \<in> set ACCEPT_FROM)"
    "\<not> ri_apply_accept it \<Longrightarrow> row_is i (accepts it) db = False"
    "\<not> ri_apply_accept it \<Longrightarrow> accepted_row now it = (\<lambda>r. r)"
    "ri_cancel it = Some k \<Longrightarrow> cancels it = (\<lambda>r. a_status r \<in> set (cancel_from k))"
    "ri_cancel it = None \<Longrightarrow> row_is i (\<lambda>r. cancels it (g r)) db = False" for k g
    by (simp_all add: accepts_def ACCEPT_FROM_def accepted_row_def cancels_def fun_eq_iff row_is_def
        split: option.split)
  consider "ri_cancel it = None" | k where "ri_cancel it = Some k" by fastforce
  then show ?thesis
  proof cases
    case 1
    then show ?thesis
      using Some items it by (cases "ri_apply_accept it")
        (simp_all add: note_cancels_def note_accepts_def acc can in_group_def outs1 find_row_filter
          oc no_outcome_def shapes del: cancel_from.simps)
  next
    case 2
    then show ?thesis
      using Some items it by (cases k; cases "ri_apply_accept it")
        (simp_all add: note_cancels_def note_accepts_def acc can in_group_def outs1 find_row_filter
          oc no_outcome_def shapes del: cancel_from.simps)
  qed
qed

lemma row_is_cong: "(\<And>r. a_id r = i \<Longrightarrow> P r = Q r) \<Longrightarrow> row_is i P db = row_is i Q db"
  by (auto simp: row_is_def split: option.split dest: find_row_SomeD)

lemma in_group_paired:
  "distinct (map ri_agreement_id items) \<Longrightarrow> in_group Q items (a_id r) \<Longrightarrow> (\<And>it. Q it \<Longrightarrow> \<not> is_paired it) \<Longrightarrow>
    by_item g (filter is_paired items) r = r"
  by (auto simp: in_group_def by_item_def find_row_filter split: option.splits)

lemma in_group_disjoint: "in_group Q items i \<Longrightarrow> (\<And>it. Q it \<Longrightarrow> \<not> Q' it) \<Longrightarrow> \<not> in_group Q' items i"
  by (auto simp: in_group_def split: option.splits)

lemma group_statement:
  assumes ids: "distinct (map a_id (agreements db))" and items: "distinct (map ri_agreement_id items)"
    and g: "\<And>r. a_id (g r) = a_id r" "\<And>r. in_group Q items (a_id r) \<Longrightarrow> g r = r"
    and run: "batch_set_status now (map ri_agreement_id (filter Q items)) s fr (table_map g db) = Inr (res, db')"
  shows "db' = table_map (\<lambda>r. set_row_status now (\<lambda>r. in_group Q items (a_id r) \<and> a_status r \<in> set fr) s (g r)) db"
    and "i \<in> set res \<longleftrightarrow> in_group Q items i \<and> row_is i (\<lambda>r. a_status r \<in> set fr) db"
proof -
  show "db' = table_map (\<lambda>r. set_row_status now (\<lambda>r. in_group Q items (a_id r) \<and> a_status r \<in> set fr) s (g r)) db"
    using batch_set_status_done [OF run] unfolding in_group_iff [OF items] by (simp add: comp_def)
  have "row_is i (\<lambda>r. a_status r \<in> set fr) (table_map g db) = row_is i (\<lambda>r. a_status r \<in> set fr) db"
    if "in_group Q items i"
    using that g(2) by (subst row_is_table_map [OF g(1)]) (auto intro!: row_is_cong)
  then show "i \<in> set res \<longleftrightarrow> in_group Q items i \<and> row_is i (\<lambda>r. a_status r \<in> set fr) db"
    using batch_set_status_ids [OF distinct_ids_table_map [OF g(1) ids] run, of i]
    unfolding in_group_iff [OF items] by blast
qed

text \<open>The whole batch on the rows of the registry, with the audits left out and put back last.\<close>

lemma reconciliation_batch_done:
  assumes ids: "distinct (map a_id (agreements db))" and items: "distinct (map ri_agreement_id items)"
    and run: "apply_reconciliation_batch now items db = Inr (outs, db')"
  shows "outs = (\<lambda>i. map_option (item_outcome now db) (find_row ri_agreement_id i items)) \<and>
    persist_audits items outs
      (table_map (by_item (\<lambda>it r. canceled_row now it (accepted_row now it r)) items) db) = Inr ((), db')"
proof (cases "items = []")
  case True
  with run show ?thesis by (auto simp: apply_reconciliation_batch_def Let_def fun_eq_iff table_map_id)
next
  case False
  let ?g0 = "by_item (\<lambda>it r. canceled_row now it (accepted_row now it r)) (filter is_paired items)"
  let ?s = "\<lambda>Q fr st. set_row_status now (\<lambda>r. in_group Q items (a_id r) \<and> a_status r \<in> set fr) st"
  let ?g1 = "\<lambda>r. ?s is_accept ACCEPT_FROM (\<lambda>_. AcceptedOnChain) (?g0 r)"
  let ?g2 = "\<lambda>r. ?s (is_cancel ByRequester) (cancel_from ByRequester) (cancel_to ByRequester) (?g1 r)"
  have g0: "a_id (?g0 r) = a_id r" for r by (simp add: a_id_by_item)
  from False run obtain outs1 db1 accepted db2 by_req db3 by_ix db4 where
    paired: "apply_paired now (filter is_paired items)
      (\<lambda>i. if i \<in> ri_agreement_id ` set items then Some no_outcome else None) db = Inr (outs1, db1)"
    and acc: "batch_set_status now (map ri_agreement_id (filter is_accept items)) (\<lambda>_. AcceptedOnChain) ACCEPT_FROM db1 = Inr (accepted, db2)"
    and req: "batch_set_status now (map ri_agreement_id (filter (is_cancel ByRequester) items)) (cancel_to ByRequester) (cancel_from ByRequester) db2 = Inr (by_req, db3)"
    and ix: "batch_set_status now (map ri_agreement_id (filter (is_cancel ByIndexer) items)) (cancel_to ByIndexer) (cancel_from ByIndexer) db3 = Inr (by_ix, db4)"
    and outs: "outs = note_cancels by_ix (note_cancels by_req (note_accepts accepted outs1))"
    and audits: "persist_audits items outs db4 = Inr ((), db')"
    unfolding apply_reconciliation_batch_def Let_def batch_update_status_from_def batch_apply_cancel_eq
    by (auto elim!: tx_bind_done simp del: cancel_from.simps)
  have "distinct (map ri_agreement_id (filter is_paired items))"
    using items by (rule distinct_map_filterI)
  from apply_paired_done [OF ids this _ paired] have db1: "db1 = table_map ?g0 db"
    and outs1: "outs1 = (\<lambda>i. case find_row ri_agreement_id i (filter is_paired items) of
        None \<Rightarrow> (if i \<in> ri_agreement_id ` set items then Some no_outcome else None)
      | Some it \<Rightarrow> Some (item_outcome now db it))" by auto
  have acc0: "in_group is_accept items (a_id r) \<Longrightarrow> ?g0 r = r" for r
    by (erule in_group_paired [OF items]) simp
  have can0: "in_group (is_cancel k) items (a_id r) \<Longrightarrow> ?g1 r = r" for k r
    using in_group_paired [OF items, of "is_cancel k" r] in_group_disjoint [of "is_cancel k" items "a_id r" is_accept]
    by (simp add: g0 set_row_status_skip)
  have ix0: "in_group (is_cancel ByIndexer) items (a_id r) \<Longrightarrow> ?g2 r = r" for r
    using can0 [of ByIndexer r] in_group_disjoint [of "is_cancel ByIndexer" items "a_id r" "is_cancel ByRequester"]
    by (simp add: g0 set_row_status_skip)
  have g1: "a_id (?g1 r) = a_id r" and g2: "a_id (?g2 r) = a_id r" for r
    by (simp_all only: a_id_set_row_status g0)
  have s1: "db2 = table_map ?g1 db"
    "i \<in> set accepted \<longleftrightarrow> in_group is_accept items i \<and> row_is i (\<lambda>r. a_status r \<in> set ACCEPT_FROM) db" for i
    by (rule group_statement [OF ids items g0 _ acc [unfolded db1]], erule acc0)+
  have s2: "db3 = table_map ?g2 db"
    "i \<in> set by_req \<longleftrightarrow> in_group (is_cancel ByRequester) items i \<and> row_is i (\<lambda>r. a_status r \<in> set (cancel_from ByRequester)) db" for i
    by (rule group_statement [OF ids items g1 _ req [unfolded s1(1)]], erule can0)+
  have s3: "db4 = table_map (\<lambda>r. ?s (is_cancel ByIndexer) (cancel_from ByIndexer) (cancel_to ByIndexer) (?g2 r)) db"
    "i \<in> set by_ix \<longleftrightarrow> in_group (is_cancel ByIndexer) items i \<and> row_is i (\<lambda>r. a_status r \<in> set (cancel_from ByIndexer)) db" for i
    by (rule group_statement [OF ids items g2 _ ix [unfolded s2(1)]], erule ix0)+
  have "db4 = table_map (by_item (\<lambda>it r. canceled_row now it (accepted_row now it r)) items) db"
    unfolding s3(1) groups_row [OF items] ..
  moreover have "outs = (\<lambda>i. map_option (item_outcome now db) (find_row ri_agreement_id i items))"
    unfolding outs
    using groups_outcome [OF items s1(2) _ outs1, of "\<lambda>k. case k of ByRequester \<Rightarrow> by_req | ByIndexer \<Rightarrow> by_ix"]
      s2(2) s3(2)
    by (simp add: fun_eq_iff del: cancel_from.simps split: cancel_kind.split)
  ultimately show ?thesis using audits by simp
qed

lemma audits_last:
  assumes "distinct (map a_id (agreements db))" and "r \<in> set (agreements db)"
  shows "by_item (\<lambda>it. audited_row (ri_audit it)
      (case map_option (item_outcome now db) (find_row ri_agreement_id (ri_agreement_id it) items) of
         None \<Rightarrow> no_outcome | Some oc \<Rightarrow> oc)) items
      (by_item (\<lambda>it r. canceled_row now it (accepted_row now it r)) items r) =
    by_item (reconciled_row now) items r"
proof (cases "find_row ri_agreement_id (a_id r) items")
  case None
  then show ?thesis by (simp add: by_item_def)
next
  case (Some it)
  then have it: "ri_agreement_id it = a_id r" by (auto dest: find_row_SomeD)
  have "item_outcome now db it = reconciled_outcome now it r"
    using find_row_mem [OF assms] by (simp add: item_outcome_def it)
  with Some it show ?thesis by (simp add: by_item_def reconciled_row_def)
qed

text \<open>\<open>NoRecordsUpdated\<close>, the rollback of an accept whose cancel found no row, never happens.\<close>

lemma tx_bind_error:
  assumes "tx_bind m k db = Inl e"
  obtains "m db = Inl e" | a db1 where "m db = Inr (a, db1)" and "k a db1 = Inl e"
  using assms by (auto simp: tx_bind_def split: sum.splits prod.splits)

lemma update_status_from_error: "update_status_from now i s fr db = Inl e \<Longrightarrow> e = DbError UniqueViolation"
  by (auto simp: update_status_from_def batch_update_status_from_def elim!: tx_bind_error dest: batch_set_status_error)

lemma apply_cancel_error: "apply_cancel now i k db = Inl e \<Longrightarrow> e = DbError UniqueViolation"
  by (auto simp: apply_cancel_def batch_apply_cancel_eq elim!: tx_bind_error dest: batch_set_status_error)

lemma accept_then_cancel_never_half:
  assumes "distinct (map a_id (agreements db))"
    and "update_status_from now i AcceptedOnChain ACCEPT_FROM db = Inr (acc, db1)"
    and "apply_cancel now i k db1 = Inr (can, db2)"
  shows "acc \<longrightarrow> can" and "distinct (map a_id (agreements db2))"
proof -
  let ?it = "\<lparr>ri_agreement_id = i, ri_apply_accept = True, ri_cancel = Some k, ri_audit =
    \<lparr>au_accepted_at = None, au_accepted_tx = None, au_canceled_at = None, au_canceled_by = None, au_canceled_tx = None\<rparr>\<rparr>"
  from accept_then_cancel [of db ?it i k now acc db1 can db2] assms
  have *: "db2 = table_map (\<lambda>r. if a_id r = i then canceled_row now ?it (accepted_row now ?it r) else r) db"
    "\<lparr>did_accept = acc, did_cancel = can\<rparr> = item_outcome now db ?it" by simp_all
  from accept_implies_cancel [of now db ?it] show "acc \<longrightarrow> can"
    unfolding *(2) [symmetric] by simp
  show "distinct (map a_id (agreements db2))"
    unfolding *(1) using assms(1) by (intro distinct_ids_table_map) auto
qed

lemma apply_paired_error:
  assumes "apply_paired now items outs db = Inl e" and "distinct (map a_id (agreements db))"
  shows "e = DbError UniqueViolation"
  using assms
proof (induction items arbitrary: db outs)
  case (Cons it items)
  show ?case
  proof (cases "ri_cancel it")
    case (Some k)
    with Cons.prems(1) show ?thesis
      using accept_then_cancel_never_half [OF Cons.prems(2)] Cons.IH
      by (fastforce elim!: tx_bind_error split: if_splits dest: update_status_from_error apply_cancel_error)
  qed (use Cons in auto)
qed simp

section \<open>The item-by-item loop of the registry trait\<close>

text \<open>
  The default \<open>apply_reconciliation_batch\<close> of the trait \<open>AgreementRegistry\<close>: one transaction per
  item, the first error returned with what was committed before it in place, no audit.
\<close>

fun apply_reconciliation_loop :: "timestamp \<Rightarrow> reconciliation_item list \<Rightarrow> outcomes \<Rightarrow> registry \<Rightarrow>
    (error + outcomes) \<times> registry" where
  "apply_reconciliation_loop now [] outs db = (Inr outs, db)"
| "apply_reconciliation_loop now (item # items) outs db =
     (case run_tx (apply_reconciliation now (ri_agreement_id item) (ri_apply_accept item) (ri_cancel item)) db of
        (Inl e, db') \<Rightarrow> (Inl e, db')
      | (Inr outcome, db') \<Rightarrow>
          apply_reconciliation_loop now items (outs(ri_agreement_id item \<mapsto> outcome)) db')"

lemma apply_reconciliation_done:
  assumes ids: "distinct (map a_id (agreements db))"
    and run: "apply_reconciliation now (ri_agreement_id it) (ri_apply_accept it) (ri_cancel it) db = Inr (oc, db')"
  shows "oc = item_outcome now db it \<and>
    db' = table_map (\<lambda>r. if a_id r = ri_agreement_id it then canceled_row now it (accepted_row now it r) else r) db"
proof -
  let ?i = "ri_agreement_id it"
  consider (both) k where "ri_apply_accept it" "ri_cancel it = Some k"
    | (accept) "ri_apply_accept it" "ri_cancel it = None"
    | (cancel) k where "\<not> ri_apply_accept it" "ri_cancel it = Some k"
    | (none) "\<not> ri_apply_accept it" "ri_cancel it = None"
    by fastforce
  then show ?thesis
  proof cases
    case both
    with run show ?thesis
      by (auto simp: apply_reconciliation_def elim!: tx_bind_done split: if_splits
          dest!: accept_then_cancel [OF ids refl both])
  next
    case accept
    with run obtain acc where "update_status_from now ?i AcceptedOnChain ACCEPT_FROM db = Inr (acc, db')"
      "oc = \<lparr>did_accept = acc, did_cancel = False\<rparr>"
      by (auto simp: apply_reconciliation_def elim!: tx_bind_done)
    with update_status_from_done [OF ids this(1)] accept show ?thesis
      by (auto simp: item_outcome_def row_is_def no_outcome_def reconciled_outcome_def accepts_def cancels_def
          canceled_row_def accepted_row_def set_row_status_def ACCEPT_FROM_def
          intro!: table_map_cong split: option.splits)
  next
    case cancel
    with run obtain can where "apply_cancel now ?i k db = Inr (can, db')"
      "oc = \<lparr>did_accept = False, did_cancel = can\<rparr>"
      by (auto simp: apply_reconciliation_def elim!: tx_bind_done)
    with apply_cancel_done [OF ids this(1)] cancel show ?thesis
      by (auto simp: item_outcome_def row_is_def no_outcome_def reconciled_outcome_def accepts_def cancels_def
          canceled_row_def accepted_row_def set_row_status_def simp del: cancel_from.simps
          intro!: table_map_cong split: option.splits)
  next
    case none
    with run show ?thesis
      by (auto simp: apply_reconciliation_def tx_bind_def item_outcome_def no_outcome_def reconciled_outcome_def
          accepts_def cancels_def canceled_row_def accepted_row_def intro: table_map_id [symmetric] split: option.splits)
  qed
qed

lemma apply_reconciliation_loop_done:
  assumes "distinct (map a_id (agreements db))" and "distinct (map ri_agreement_id items)"
    and "apply_reconciliation_loop now items outs db = (Inr outs', db')"
  shows "db' = table_map (by_item (\<lambda>it r. canceled_row now it (accepted_row now it r)) items) db \<and>
    outs' = (\<lambda>i. case find_row ri_agreement_id i items of None \<Rightarrow> outs i
                 | Some it \<Rightarrow> Some (item_outcome now db it))"
  using assms
proof (induction items arbitrary: db outs)
  case Nil
  then show ?case by (simp add: table_map_id)
next
  case (Cons it items)
  let ?i = "ri_agreement_id it"
  let ?g = "\<lambda>r. if a_id r = ?i then canceled_row now it (accepted_row now it r) else r"
  from Cons.prems(3) have rest: "apply_reconciliation_loop now items (outs(?i \<mapsto> item_outcome now db it))
      (table_map ?g db) = (Inr outs', db')"
    by (auto simp: run_tx_def split: sum.splits prod.splits dest!: apply_reconciliation_done [OF Cons.prems(1)])
  have "distinct (map a_id (agreements (table_map ?g db)))"
    using Cons.prems(1) by (intro distinct_ids_table_map) auto
  from Cons.IH [OF this _ rest] Cons.prems(2) have
    fin: "db' = table_map (by_item (\<lambda>it r. canceled_row now it (accepted_row now it r)) items) (table_map ?g db)"
    "outs' = (\<lambda>i. case find_row ri_agreement_id i items of
        None \<Rightarrow> (outs(?i \<mapsto> item_outcome now db it)) i
      | Some it \<Rightarrow> Some (item_outcome now (table_map ?g db) it))" by auto
  with Cons.prems(2) show ?case by (intro items_step)
qed

lemma persist_audits_total: "persist_audits items outs db \<noteq> Inl e"
  by (induction items arbitrary: db) (simp_all add: Let_def tx_bind_def persist_audit_done)

section \<open>Properties\<close>

definition sample_items :: "reconciliation_item list" where
  "sample_items = [\<lparr>ri_agreement_id = sample_id, ri_apply_accept = True, ri_cancel = Some ByIndexer,
     ri_audit = \<lparr>au_accepted_at = Some 20, au_accepted_tx = None, au_canceled_at = Some 30,
       au_canceled_by = None, au_canceled_tx = None\<rparr>\<rparr>]"

lemma sample_ids: "distinct (map a_id (agreements (sample_registry s)))"
  by (simp add: sample_defs)

lemma sample_batch_runs: "\<exists>outs db'. apply_reconciliation_batch 9 sample_items (sample_registry Created) = Inr (outs, db')"
  by (simp add: apply_reconciliation_batch_def sample_items_def tx_bind_def update_status_from_def
      batch_update_status_from_def batch_set_status_def update_status_def Let_def apply_cancel_def
      batch_apply_cancel_def ACCEPT_FROM_def CANCEL_BY_INDEXER_FROM_def sql_returning_def unique_active_def
      active_def sample_defs persist_audit_done note_accepts_def note_cancels_def)

text \<open>
  C9: a committed reconciliation batch with unique ids does to every row exactly what its item asks
  and nothing to any other row: the accept moves \<open>Created\<close> or \<open>Expired\<close> to \<open>AcceptedOnChain\<close>, the
  cancel then ends it by kind, the audit is written for the transitions that happened and only for
  those; and the reported outcome of every input id says which of the two happened.
\<close>

theorem reconciliation_batch_by_row:
  assumes "distinct (map a_id (agreements db))" and "distinct (map ri_agreement_id items)"
    and "apply_reconciliation_batch now items db = Inr (outs, db')"
  shows "db' = db\<lparr>agreements := map (\<lambda>r. case find_row ri_agreement_id (a_id r) items of
        None \<Rightarrow> r | Some it \<Rightarrow> reconciled_row now it r) (agreements db)\<rparr> \<and>
    outs = (\<lambda>i. map_option (item_outcome now db) (find_row ri_agreement_id i items))"
proof -
  from reconciliation_batch_done [OF assms] have outs:
    "outs = (\<lambda>i. map_option (item_outcome now db) (find_row ri_agreement_id i items))" by blast
  from reconciliation_batch_done [OF assms] have "db' = table_map (by_item (reconciled_row now) items) db"
    unfolding outs persist_audits_done [OF assms(2)]
    by (auto simp: audits_last [OF assms(1)] simp del: case_map_option intro!: table_map_cong)
  with outs show ?thesis by (simp add: table_map_def by_item_def [abs_def])
qed

theorem reconciliation_batch_by_row_witness:
  "\<exists>outs db' r. apply_reconciliation_batch 9 sample_items (sample_registry Created) = Inr (outs, db') \<and>
     agreements db' = [r] \<and> a_status r = CanceledByIndexer \<and> a_accepted_at r = Some 20 \<and>
     a_canceled_at r = Some 30 \<and> outs sample_id = Some \<lparr>did_accept = True, did_cancel = True\<rparr>"
proof -
  from sample_batch_runs obtain outs db' where
    run: "apply_reconciliation_batch 9 sample_items (sample_registry Created) = Inr (outs, db')" by blast
  have "distinct (map ri_agreement_id sample_items)" by (simp add: sample_items_def)
  from reconciliation_batch_by_row [OF sample_ids this run] run show ?thesis
    by (simp add: sample_items_def sample_defs reconciled_row_def audited_row_def reconciled_outcome_def
        accepts_def accepted_row_def cancels_def canceled_row_def accept_audit_row_def cancel_audit_row_def
        item_outcome_def as_i64_def)
qed

text \<open>
  C10: reconciliation never rolls back with \<open>NoRecordsUpdated\<close>: an accept that landed leaves a row
  that either kind of cancel takes, so the only error of a batch, or of a single reconciliation, is
  a violated unique index.
\<close>

theorem reconciliation_errors:
  assumes "distinct (map a_id (agreements db))"
  shows "apply_reconciliation_batch now items db = Inl e \<or>
      apply_reconciliation now i apply_accept cancel db = Inl e \<Longrightarrow> e = DbError UniqueViolation"
proof (elim disjE)
  assume "apply_reconciliation_batch now items db = Inl e"
  with assms show ?thesis
    unfolding apply_reconciliation_batch_def Let_def batch_update_status_from_def batch_apply_cancel_eq
    by (auto elim!: tx_bind_error dest: apply_paired_error batch_set_status_error
        simp: persist_audits_total split: if_splits)
next
  assume "apply_reconciliation now i apply_accept cancel db = Inl e"
  then show ?thesis
    using accept_then_cancel_never_half [OF assms]
    by (fastforce simp: apply_reconciliation_def elim!: tx_bind_error split: if_splits option.splits
        dest: update_status_from_error apply_cancel_error)
qed

definition taken_slot_registry :: registry where
  "taken_slot_registry = (sample_registry Expired)\<lparr>agreements := agreements (sample_registry Expired) @
     [(new_agreement_row 0 sample_params)\<lparr>a_id := AgreementId (replicate 16 2)\<rparr>]\<rparr>"

theorem reconciliation_errors_witness:
  "\<exists>e. apply_reconciliation 9 sample_id True (Some ByIndexer) taken_slot_registry = Inl e \<and>
     e = DbError UniqueViolation"
proof -
  have ids: "distinct (map a_id (agreements taken_slot_registry))"
    by (simp add: taken_slot_registry_def sample_defs)
  obtain e where e: "apply_reconciliation 9 sample_id True (Some ByIndexer) taken_slot_registry = Inl e"
    by (simp add: taken_slot_registry_def sample_defs apply_reconciliation_def tx_bind_def update_status_from_def
        batch_update_status_from_def batch_set_status_def update_status_def Let_def unique_active_def
        active_def slot_def ACCEPT_FROM_def)
  from reconciliation_errors [OF ids disjI2, OF e] e show ?thesis by blast
qed


definition plain_items :: "reconciliation_item list" where
  "plain_items = [\<lparr>ri_agreement_id = sample_id, ri_apply_accept = True, ri_cancel = None,
     ri_audit = \<lparr>au_accepted_at = None, au_accepted_tx = None, au_canceled_at = None,
       au_canceled_by = None, au_canceled_tx = None\<rparr>\<rparr>]"


end
