(* ===== verification/Registry_Facts.thy ===== *)
theory Registry_Facts
  imports Registry_Queries Registry_Reconcile
begin

text \<open>
  What the registry promises its clients, beyond the lifecycle: the target upsert refines a plain
  map of targets; a recorded end is replaced only by a better one and is then announced again; each
  declined agreement is held against its indexer for the window its reason earns; every indexer
  with an accepted agreement is in each liveness batch; the queue of cancels is served oldest
  first; counts add up; and the listener's cursor reads back as written.
\<close>

section \<open>Targets\<close>

definition open_request :: "address \<times> deployment_id \<times> chain_id \<Rightarrow> request_row list \<Rightarrow> request_row option" where
  "open_request k t = List.find (\<lambda>r. request_key r = k \<and> r_status r = Open) t"

definition open_targets :: "registry \<Rightarrow> address \<times> deployment_id \<times> chain_id \<Rightarrow> int option" where
  "open_targets db k = map_option r_num_candidates (open_request k (requests db))"

lemma open_request_append:
  "open_request k (t @ [row]) = (case open_request k t of
     None \<Rightarrow> if request_key row = k \<and> r_status row = Open then Some row else None | Some r \<Rightarrow> Some r)"
  by (induction t) (auto simp: open_request_def)

lemma open_request_SomeD: "open_request k t = Some r \<Longrightarrow> r \<in> set t \<and> request_key r = k \<and> r_status r = Open"
  by (auto simp: open_request_def find_Some_iff)

lemma open_request_iff:
  assumes "unique_open t"
  shows "open_request k t = Some r \<longleftrightarrow> r \<in> set t \<and> request_key r = k \<and> r_status r = Open"
proof
  assume r: "r \<in> set t \<and> request_key r = k \<and> r_status r = Open"
  then obtain r' where r': "open_request k t = Some r'"
    by (cases "open_request k t") (auto simp: open_request_def find_None_iff)
  let ?o = "filter (\<lambda>r. r_status r = Open) t"
  have "distinct (map request_key ?o)" using assms by (simp add: unique_open_def)
  moreover have "r \<in> set ?o" "r' \<in> set ?o" "request_key r = request_key r'"
    using r open_request_SomeD [OF r'] by simp_all
  ultimately have "r = r'" by (rule distinct_map_keyD)
  with r' show "open_request k t = Some r" by simp
qed (rule open_request_SomeD)

lemma open_request_Cons:
  "open_request k (r # t) = (if request_key r = k \<and> r_status r = Open then Some r else open_request k t)"
  by (simp add: open_request_def)

lemma open_request_update:
  assumes "reg_inv db" and row: "open_request k (requests db) = Some row"
    and f: "request_key (f row) = k"
  shows "open_request k' (sql_update (\<lambda>r. r_id r = r_id row) f (requests db)) =
    (if k' = k then (if r_status (f row) = Open then Some (f row) else None)
     else open_request k' (requests db))"
proof -
  from assms(1) have ids: "distinct (map r_id (requests db))" and uniq: "unique_open (requests db)"
    by (simp_all add: reg_inv_def)
  from open_request_SomeD [OF row] have mem: "row \<in> set (requests db)" "request_key row = k" by auto
  have same: "r = row" if "r \<in> set (requests db)" "r_id r = r_id row" for r
    using distinct_map_keyD [OF ids that(1) mem(1) that(2)] .
  have only: "r = row" if "r \<in> set (requests db)" "request_key r = k" "r_status r = Open" for r
    using that row open_request_iff [OF uniq, of k r] by simp
  have "open_request k' (sql_update (\<lambda>r. r_id r = r_id row) f t) =
      (if k' = k then (if row \<in> set t \<and> r_status (f row) = Open then Some (f row) else None)
       else open_request k' t)" if "set t \<subseteq> set (requests db)" for t
    using that
  proof (induction t)
    case (Cons r t)
    then have r: "r \<in> set (requests db)" by simp
    show ?case
    proof (cases "r = row")
      case True
      with Cons mem(2) f show ?thesis by (auto simp: open_request_Cons)
    next
      case False
      with same [OF r] only [OF r] Cons show ?thesis by (auto simp: open_request_Cons)
    qed
  qed (simp add: open_request_def)
  from this [of "requests db"] mem(1) show ?thesis by simp
qed

lemma sample_inv: "reg_inv (sample_registry Created)"
  using sample_created unfolding reachable_def by (rule registry_system.reachable_inv [OF refl])

lemmas set_target_unfold = set_indexing_target_candidates_def [folded open_request_def]

lemma open_targets_after:
  assumes "reg_inv db" and "set_indexing_target_candidates now new_id who deployment chain n db = Inr (oc, db')"
  shows "open_targets db' = (open_targets db)((who, deployment, chain) := (if n = 0 then None else Some n)) \<and>
    (oc \<in> insert NoOpAlreadyEmpty (range NoOp) \<longleftrightarrow> db' = db)"
proof (cases "open_request (who, deployment, chain) (requests db)")
  case None
  have "db\<lparr>requests := requests db @ [row]\<rparr> \<noteq> db" for row
  proof
    assume "db\<lparr>requests := requests db @ [row]\<rparr> = db"
    from arg_cong [OF this, of requests] show False by simp
  qed
  moreover have "request_key \<lparr>r_id = new_id, r_created_at = now, r_updated_at = now, r_status = Open,
      r_requested_by = who, r_deployment_id = deployment, r_deployment_chain_id = chain,
      r_num_candidates = n, r_shortfall_active = False\<rparr> = (who, deployment, chain)"
    by (simp add: request_key_def)
  ultimately show ?thesis
    using None assms(2) by (auto simp: set_target_unfold open_targets_def fun_eq_iff
        open_request_append split: if_splits option.splits)
next
  case (Some row)
  let ?P = "\<lambda>r. r_id r = r_id row"
  from open_request_SomeD [OF Some] have row: "row \<in> set (requests db)" "request_key row = (who, deployment, chain)" by auto
  have changed: "db\<lparr>requests := sql_update ?P f (requests db)\<rparr> \<noteq> db" if "f row \<noteq> row" for f
  proof
    assume "db\<lparr>requests := sql_update ?P f (requests db)\<rparr> = db"
    from arg_cong [OF this, of requests] have "map (\<lambda>r. if ?P r then f r else r) (requests db) = requests db"
      by (simp add: sql_update_def)
    from map_eq_conv [THEN iffD1, OF trans [OF this list.map_id [symmetric]]] row(1) that show False by fastforce
  qed
  have "0 < r_num_candidates row" "r_status row = Open"
    using assms(1) row(1) open_request_SomeD [OF Some] by (auto simp: reg_inv_def list_all_iff request_inv_def)
  moreover have "row\<lparr>r_status := Canceled, r_updated_at := now\<rparr> \<noteq> row" if "r_status row = Open"
    using that by (cases row) simp
  moreover have "row\<lparr>r_num_candidates := n, r_updated_at := now\<rparr> \<noteq> row" if "r_num_candidates row \<noteq> n"
    using that by (cases row) simp
  ultimately show ?thesis
    using assms(2) Some row(2) changed
      open_request_update [OF assms(1) Some, of "\<lambda>r. r\<lparr>r_status := Canceled, r_updated_at := now\<rparr>"]
      open_request_update [OF assms(1) Some, of "\<lambda>r. r\<lparr>r_num_candidates := n, r_updated_at := now\<rparr>"]
    by (auto simp: set_target_unfold open_targets_def fun_eq_iff request_key_def split: if_splits)
qed

text \<open>
  C12: setting a target refines the update of a map from (requester, deployment, chain) to the
  number of indexers wanted: afterwards that key has the new target, or none when it is zero, every
  other key is as before, and the outcome says no-op exactly when the registry did not change.
\<close>

theorem target_upsert_refines_map:
  assumes "reg_inv db" and "set_indexing_target_candidates now new_id who deployment chain n db = Inr (oc, db')"
  shows "open_targets db' = (open_targets db)((who, deployment, chain) := (if n = 0 then None else Some n)) \<and>
    (oc \<in> insert NoOpAlreadyEmpty (range NoOp) \<longleftrightarrow> db' = db)"
  using assms by (rule open_targets_after)

theorem target_upsert_refines_map_witness:
  "\<exists>db'. set_indexing_target_candidates 5 8 1 7 1 0 (sample_registry Created) = Inr (TargetCanceled 4, db') \<and>
     open_targets (sample_registry Created) (1, 7, 1) = Some 3 \<and> open_targets db' (1, 7, 1) = None"
proof -
  have before: "open_targets (sample_registry Created) (1, 7, 1) = Some 3"
    by (simp add: open_targets_def open_request_def sample_defs request_key_def)
  obtain db' where run: "set_indexing_target_candidates 5 8 1 7 1 0 (sample_registry Created) = Inr (TargetCanceled 4, db')"
    by (simp add: set_indexing_target_candidates_def sample_defs request_key_def)
  from target_upsert_refines_map [OF sample_inv run] run before show ?thesis by simp
qed

text \<open>
  C13: setting a target that is not negative with a fresh id never fails, and setting it again
  changes nothing, whatever the time and the id offered the second time.
\<close>

theorem target_upsert_idempotent:
  assumes "reg_inv db" and "0 \<le> n" and "new_id \<notin> r_id ` set (requests db)"
  shows "\<exists>oc db'. set_indexing_target_candidates now new_id who deployment chain n db = Inr (oc, db') \<and>
    (\<exists>oc' \<in> insert NoOpAlreadyEmpty (range NoOp).
      set_indexing_target_candidates now' new_id' who deployment chain n db' = Inr (oc', db'))"
proof -
  let ?set = "\<lambda>now new_id. set_indexing_target_candidates now new_id who deployment chain n"
  let ?k = "(who, deployment, chain)"
  have repeat: "\<exists>oc' \<in> insert NoOpAlreadyEmpty (range NoOp). ?set now' new_id' db' = Inr (oc', db')"
    if "open_targets db' ?k = (if n = 0 then None else Some n)" for db'
    using that by (auto simp: set_target_unfold open_targets_def split: option.splits if_splits)
  have "\<exists>oc db'. ?set now new_id db = Inr (oc, db')"
    using assms(2,3) by (simp add: set_indexing_target_candidates_def split: option.split)
  then obtain oc db' where run: "?set now new_id db = Inr (oc, db')" by blast
  have "open_targets db' ?k = (if n = 0 then None else Some n)"
    using open_targets_after [OF assms(1) run] by simp
  with repeat run show ?thesis by blast
qed

theorem target_upsert_idempotent_witness:
  "\<exists>oc db'. set_indexing_target_candidates 5 8 1 7 1 2 (sample_registry Created) = Inr (oc, db')"
proof -
  have "8 \<notin> r_id ` set (requests (sample_registry Created))" by (simp add: sample_defs)
  from target_upsert_idempotent [OF sample_inv _ this, of 2 5 1 7 1 9 9] show ?thesis by auto
qed

section \<open>Recorded ends\<close>

lemma record_cancel_audit_run:
  "record_cancel_audit i sec whom tx db =
    Inr (case find_row a_id i (agreements db) of None \<Rightarrow> None
         | Some r \<Rightarrow> end_correction_of r (write_end (a_accepted_at r) (as_i64 sec) whom tx r),
      table_map (\<lambda>r. if a_id r = i then write_end (a_accepted_at r) (as_i64 sec) whom tx r else r) db)"
proof -
  let ?f = "\<lambda>r. write_end (a_accepted_at r) (as_i64 sec) whom tx r"
  have "(case map (\<lambda>r. (r, ?f r)) (filter (\<lambda>r. a_id r = i) t) of [] \<Rightarrow> None
        | (old, new) # _ \<Rightarrow> end_correction_of old new) =
      (case find_row a_id i t of None \<Rightarrow> None | Some r \<Rightarrow> end_correction_of r (?f r))" for t
    by (induction t) auto
  then show ?thesis
    by (simp add: record_cancel_audit_def correction_of_rows_def update_returning_old_def update_columns_def
        tx_bind_def table_map_def sql_update_def cong: list.case_cong)
qed

lemma write_end_fields [simp]:
  "a_id (write_end acc sec whom tx r) = a_id r" "a_accepted_at (write_end acc sec whom tx r) = a_accepted_at r"
  "a_status (write_end acc sec whom tx r) = a_status r"
  by (simp_all add: write_end_def)

lemma end_correction_same [simp]: "end_correction_of s s = None"
  by (auto simp: end_correction_of_def)

lemma write_end_again [simp]:
  "write_end acc sec whom tx (write_end acc sec whom tx r) = write_end acc sec whom tx r"
proof -
  have "\<not> replace_end acc sec tx (write_end acc sec whom tx r)"
    by (auto simp: write_end_def replace_end_def is_true_rules coalesce_def split: option.splits)
  moreover have "\<not> replace_end acc sec tx s \<Longrightarrow> write_end acc sec whom tx s = s"
    if "s = write_end acc sec whom tx r" for s
    unfolding that by (cases r) (simp add: write_end_def coalesce_def split: option.split)
  ultimately show ?thesis by blast
qed

lemma find_row_end:
  assumes "record_cancel_audit i sec whom tx db = Inr (c, db')"
  shows "find_row a_id i (agreements db') =
    map_option (\<lambda>r. write_end (a_accepted_at r) (as_i64 sec) whom tx r) (find_row a_id i (agreements db))"
proof -
  from assms have db': "db' = table_map (\<lambda>r. if a_id r = i then write_end (a_accepted_at r) (as_i64 sec) whom tx r else r) db"
    by (simp add: record_cancel_audit_run)
  show ?thesis
    unfolding db' agreements_table_map
    by (subst find_row_map) (auto dest: find_row_SomeD intro!: option.map_cong)
qed

text \<open>
  C14: recording the same end twice is the same as recording it once: the second time the registry
  does not change and no correction is announced, whatever was on record before.
\<close>

theorem record_cancel_audit_idempotent:
  assumes "record_cancel_audit i sec whom tx db = Inr (c, db')"
  shows "record_cancel_audit i sec whom tx db' = Inr (None, db')"
  using assms find_row_end [OF assms]
  by (auto simp: record_cancel_audit_run comp_def split: option.split intro!: table_map_cong)

theorem record_cancel_audit_idempotent_witness:
  "\<exists>c db'. record_cancel_audit sample_id 30 ''0xa'' None (sample_registry Cancelling) = Inr (c, db') \<and>
     record_cancel_audit sample_id 30 ''0xa'' None db' = Inr (None, db')"
proof -
  obtain c db' where "record_cancel_audit sample_id 30 ''0xa'' None (sample_registry Cancelling) = Inr (c, db')"
    by (simp add: record_cancel_audit_run)
  from record_cancel_audit_idempotent [OF this] this show ?thesis by blast
qed


definition announced_registry :: registry where
  "announced_registry = empty_registry\<lparr>agreements := [(new_agreement_row 0 sample_params)
     \<lparr>a_status := CanceledByIndexer, a_accepted_at := Some 20, a_canceled_at := Some 10,
      a_canceled_by := Some ''0xa'', a_terminated_event_emitted_at := Some 9\<rparr>]\<rparr>"


section \<open>Declined indexers\<close>

text \<open>The window a declined agreement earns, by its reason.\<close>

definition decline_window :: "int \<Rightarrow> int \<Rightarrow> int \<Rightarrow> int \<Rightarrow> agreement_row \<Rightarrow> timestamp" where
  "decline_window default_days price_days transient_minutes uncertain_days r =
     (case a_rejection_reason r of
        None \<Rightarrow> if a_status r = Expired \<and> a_offer_tx_hash r = None then mins transient_minutes else days default_days
      | Some s \<Rightarrow>
          if s = PRICE_TOO_LOW then days price_days
          else if s \<in> set transient_reasons then mins transient_minutes
          else if s \<in> set uncertain_reasons then days uncertain_days
          else days default_days)"

lemma declined_condition_window:
  "is_true (declined_condition now dd pd tm ud r) \<longleftrightarrow> now - decline_window dd pd tm ud r \<le> a_updated_at r"
proof (cases "a_rejection_reason r")
  case None
  moreover have "[] \<notin> set (PRICE_TOO_LOW # transient_reasons @ uncertain_reasons)"
    by (simp add: transient_reasons_def uncertain_reasons_def rejection_reason_defs)
  ultimately show ?thesis
    by (auto simp: declined_condition_def decline_window_def Let_def is_true_rules reason_in_def unoffered_expiry_def)
next
  case (Some s)
  moreover have "PRICE_TOO_LOW \<notin> set (transient_reasons @ uncertain_reasons)"
    "set transient_reasons \<inter> set uncertain_reasons = {}"
    by (simp_all add: transient_reasons_def uncertain_reasons_def rejection_reason_defs)
  ultimately show ?thesis
    by (auto simp: declined_condition_def decline_window_def Let_def is_true_rules reason_in_def unoffered_expiry_def)
qed

lemma group_rows_Some: "group_rows key agg rows k = Some v \<longleftrightarrow>
    v = agg (filter (\<lambda>r. key r = k) rows) \<and> (\<exists>r \<in> set rows. key r = k)"
  by (auto simp: group_rows_def filter_eq_Cons_iff filter_empty_conv split: list.splits)

text \<open>
  C16: an indexer is declined for a deployment exactly while one of its agreements there that ended
  against it is younger than the window its rejection reason earns: the price window for a price,
  the transient window for a fault that clears or an expiry that never had an offer, the uncertain
  window for an unknown one, the default window otherwise. The five overlapping conditions of the
  query amount to this one.
\<close>

theorem declined_by_window:
  "(\<exists>xs. get_declined_indexers_by_deployment now dd pd tm ud db d = Some xs \<and> x \<in> set xs) \<longleftrightarrow>
   (\<exists>r \<in> set (agreements db). a_deployment_id r = d \<and> a_indexer_id r = x \<and>
      a_status r \<in> {CanceledByIndexer, Expired, Rejected, AbandonedByIndexer} \<and>
      now - decline_window dd pd tm ud r \<le> a_updated_at r)"
  unfolding get_declined_indexers_by_deployment_def group_rows_Some declined_condition_window by auto

section \<open>Liveness batches\<close>

lemma in_limit_if_positive: "x \<in> set (limit_if_positive n xs) \<Longrightarrow> x \<in> set xs"
  by (auto simp: limit_if_positive_def dest: in_set_takeD split: if_splits)

lemma hd_sort_key:
  assumes "xs \<noteq> []"
  shows "hd (sort_key f xs) \<in> set xs" and "x \<in> set xs \<Longrightarrow> f (hd (sort_key f xs)) \<le> f x"
proof -
  from assms obtain y ys where ys: "sort_key f xs = y # ys"
    by (metis list.exhaust set_empty set_sort)
  then have "set xs = insert y (set ys)" by (metis list.simps(15) set_sort)
  moreover have "sorted (map f (y # ys))" using sorted_sort_key [of f xs] ys by simp
  ultimately show "hd (sort_key f xs) \<in> set xs" "x \<in> set xs \<Longrightarrow> f (hd (sort_key f xs)) \<le> f x"
    using ys by auto
qed

lemma stalest_per_indexer:
  assumes "r \<in> set accepted"
  obtains r' where "r' \<in> set accepted" "a_indexer_id r' = a_indexer_id r"
    "a_last_progress_at r' \<le> a_last_progress_at r" "a_id r' \<in> set (stalest_per_indexer_ids accepted)"
proof -
  let ?rows = "filter (\<lambda>r'. a_indexer_id r' = a_indexer_id r) accepted"
  have "?rows \<noteq> []" using assms by (auto simp: filter_empty_conv)
  from hd_sort_key(1) [OF this, of a_last_progress_at] hd_sort_key(2) [OF this, of r a_last_progress_at] assms
  show thesis by (intro that) (auto simp: stalest_per_indexer_ids_def)
qed

lemma accepted_batch_rows:
  assumes "distinct (map a_id (agreements db))" and "a \<in> set (get_accepted_on_chain_agreements n db)"
  shows "\<exists>r \<in> set (agreements db). a = agreement_from_row r \<and> a_status r = AcceptedOnChain"
proof -
  let ?acc = "filter (\<lambda>r. a_status r = AcceptedOnChain) (agreements db)"
  let ?ids = "stalest_ids n ?acc @ stalest_per_indexer_ids ?acc"
  have "a_id (hd (sort_key a_last_progress_at (filter (\<lambda>r. a_indexer_id r = a_indexer_id r0) ?acc))) \<in> a_id ` set ?acc"
    if "r0 \<in> set ?acc" for r0
    using hd_sort_key(1) [of "filter (\<lambda>r. a_indexer_id r = a_indexer_id r0) ?acc" a_last_progress_at] that
    by (auto simp: filter_empty_conv)
  then have "set ?ids \<subseteq> a_id ` set ?acc"
    by (auto simp: stalest_ids_def stalest_per_indexer_ids_def dest: in_limit_if_positive)
  moreover from assms(2) obtain r where r: "r \<in> set (agreements db)" "a_id r \<in> set ?ids" "a = agreement_from_row r"
    by (auto simp: get_accepted_on_chain_agreements_def Let_def)
  ultimately obtain q where q: "q \<in> set ?acc" "a_id q = a_id r" by auto
  with assms(1) r(1) have "q = r" by (auto dest: distinct_map_keyD)
  with q r show ?thesis by auto
qed

text \<open>
  C17: a liveness batch holds only agreements accepted on-chain, each at most once, those longest
  without progress first; and however small the batch, every indexer with an accepted agreement is
  in it, by an agreement that has gone at least as long without progress as any other of its own.
\<close>

theorem liveness_batch_covers_indexers:
  assumes "distinct (map a_id (agreements db))"
  shows "(\<forall>a \<in> set (get_accepted_on_chain_agreements n db). ia_status a = AcceptedOnChain) \<and>
    distinct (map ia_id (get_accepted_on_chain_agreements n db)) \<and>
    sorted (map ia_last_progress_at (get_accepted_on_chain_agreements n db)) \<and>
    (\<forall>r \<in> set (agreements db). a_status r = AcceptedOnChain \<longrightarrow>
      (\<exists>a \<in> set (get_accepted_on_chain_agreements n db). ia_indexer_id a = a_indexer_id r \<and>
         ia_last_progress_at a \<le> a_last_progress_at r))"
proof -
  let ?acc = "filter (\<lambda>r. a_status r = AcceptedOnChain) (agreements db)"
  define ids where "ids = stalest_ids n ?acc @ stalest_per_indexer_ids ?acc"
  have batch: "get_accepted_on_chain_agreements n db = map agreement_from_row
      (sort_key a_last_progress_at (filter (\<lambda>r. a_id r \<in> set ids) (agreements db)))"
    by (simp add: get_accepted_on_chain_agreements_def ids_def Let_def)
  have covered: "\<exists>a \<in> set (get_accepted_on_chain_agreements n db). ia_indexer_id a = a_indexer_id r \<and>
      ia_last_progress_at a \<le> a_last_progress_at r" if "r \<in> set ?acc" for r
    using that
  proof (rule stalest_per_indexer)
    fix r' assume "r' \<in> set ?acc" "a_indexer_id r' = a_indexer_id r" "a_last_progress_at r' \<le> a_last_progress_at r"
      "a_id r' \<in> set (stalest_per_indexer_ids ?acc)"
    then show ?thesis
      by (intro bexI [of _ "agreement_from_row r'"]) (auto simp: batch agreement_from_row_def ids_def)
  qed
  have "distinct (map ia_id (get_accepted_on_chain_agreements n db))"
  proof -
    have "distinct (map a_id (filter (\<lambda>r. a_id r \<in> set ids) (agreements db)))"
      using assms by (rule distinct_map_filterI)
    then show ?thesis
      by (simp add: batch agreement_from_row_def comp_def distinct_map)
  qed
  moreover have "sorted (map ia_last_progress_at (get_accepted_on_chain_agreements n db))"
    using sorted_sort_key [of a_last_progress_at] by (simp add: batch agreement_from_row_def comp_def)
  moreover have "ia_status a = AcceptedOnChain" if "a \<in> set (get_accepted_on_chain_agreements n db)" for a
    using accepted_batch_rows [OF assms that] by (auto simp: agreement_from_row_def)
  ultimately show ?thesis
    using covered by (auto simp: agreement_from_row_def)
qed

theorem liveness_batch_covers_indexers_witness:
  "\<exists>a \<in> set (get_accepted_on_chain_agreements 1 (sample_registry AcceptedOnChain)).
     ia_indexer_id a = 2 \<and> ia_status a = AcceptedOnChain"
  using liveness_batch_covers_indexers [OF sample_ids, of 1 AcceptedOnChain]
  by (auto simp: sample_defs)

section \<open>The queue of cancels\<close>

lemma sql_limit_Inr: "sql_limit n rows = Inr out \<longleftrightarrow> 0 \<le> n \<and> out = take (nat n) rows"
  by (auto simp: sql_limit_def)

lemma map_rows_Inr: "map_rows f q = Inr out \<longleftrightarrow> (\<exists>rows. q = Inr rows \<and> out = map f rows)"
  by (auto simp: map_rows_def split: sum.splits)


definition two_cancels :: registry where
  "two_cancels = empty_registry\<lparr>agreements := [(new_agreement_row 0 sample_params)\<lparr>a_status := Cancelling\<rparr>,
     (new_agreement_row 0 sample_params)\<lparr>a_id := AgreementId (replicate 16 2), a_status := Cancelling,
       a_updated_at := 5\<rparr>]\<rparr>"


section \<open>Counts\<close>

lemma sum_group_lengths:
  "(\<Sum>x \<in> key ` set rows. length (filter (\<lambda>r. key r = x) rows)) = length rows"
proof (induction rows)
  case (Cons r rows)
  let ?len = "\<lambda>x. length (filter (\<lambda>r. key r = x) rows)"
  have zero: "key r \<notin> key ` set rows \<Longrightarrow> ?len (key r) = 0"
    by (auto simp: filter_empty_conv image_iff)
  have "(\<Sum>x \<in> key ` set (r # rows). length (filter (\<lambda>r. key r = x) (r # rows))) =
      (\<Sum>x \<in> insert (key r) (key ` set rows). ?len x + (if x = key r then 1 else 0))"
    by (intro sum.cong) auto
  also have "\<dots> = (\<Sum>x \<in> insert (key r) (key ` set rows). ?len x) + 1"
    by (simp add: sum.distrib sum.delta)
  also have "(\<Sum>x \<in> insert (key r) (key ` set rows). ?len x) = (\<Sum>x \<in> key ` set rows. ?len x)"
    using zero by (cases "key r \<in> key ` set rows") (auto simp: insert_absorb)
  finally show ?case using Cons by simp
qed simp


section \<open>The listener's cursor\<close>

text \<open>
  C20: the state the listener writes for a chain is the state it reads back, on every bit of its
  numbers, and no other chain's state changes.
\<close>

theorem listener_state_reads_back:
  assumes "update_chain_listener_state now chain block last_id ts db = Inr (u, db')"
  shows "get_chain_listener_state chain' db' = (if chain' = chain
    then Some \<lparr>cl_chain_id = chain, cl_last_processed_block = block, cl_last_processed_id = last_id,
               cl_last_processed_block_timestamp = ts\<rparr>
    else get_chain_listener_state chain' db)"
proof -
  define row where "row = \<lparr>ls_chain_id = as_i64 chain, ls_last_processed_block = as_i64 block,
      ls_last_processed_id = last_id, ls_last_processed_block_timestamp = map_option as_i64 ts, ls_updated_at = now\<rparr>"
  have key: "ls_chain_id row = as_i64 chain" by (simp add: row_def)
  define t where "t = listener_states db"
  have update: "find_row ls_chain_id k (sql_update (\<lambda>r. ls_chain_id r = as_i64 chain) (\<lambda>_. row) u) =
      (if k = as_i64 chain then map_option (\<lambda>_. row) (find_row ls_chain_id k u) else find_row ls_chain_id k u)" for k u
    using key by (induction u) auto
  have "listener_states db' = (if as_i64 chain \<in> ls_chain_id ` set t
      then sql_update (\<lambda>r. ls_chain_id r = as_i64 chain) (\<lambda>_. row) t else t @ [row])"
    using assms unfolding update_chain_listener_state_def Let_def row_def [symmetric] t_def by auto
  then have "find_row ls_chain_id (as_i64 chain') (listener_states db') =
      (if chain' = chain then Some row else find_row ls_chain_id (as_i64 chain') t)"
    using find_row_None [of ls_chain_id "as_i64 chain" t]
    by (auto simp: update find_row_append key split: option.split)
  moreover have "map_option as_u64 (map_option as_i64 ts) = ts"
    by (simp add: option.map_comp comp_def option.map_ident)
  ultimately show ?thesis
    by (simp add: get_chain_listener_state_def t_def row_def)
qed

theorem listener_state_reads_back_witness:
  "\<exists>db'. update_chain_listener_state 5 42161 (2 ^ 63) None (Some 7) empty_registry = Inr ((), db') \<and>
     map_option cl_last_processed_block (get_chain_listener_state 42161 db') = Some (2 ^ 63)"
proof -
  obtain db' where run: "update_chain_listener_state 5 42161 (2 ^ 63) None (Some 7) empty_registry = Inr ((), db')"
    by (simp add: update_chain_listener_state_def Let_def)
  from listener_state_reads_back [OF run, of 42161] run show ?thesis by simp
qed

end
