(* ===== verification/Liveness.thy ===== *)
theory Liveness
  imports Cancel_Dispatch Liveness_Policy Registry_Facts
begin

text \<open>
  The service of \<open>network/service/liveness_checker.rs\<close>: each cycle asks every indexer with an accepted
  agreement for its progress, and abandons and replaces the agreements of those that make none. The
  text form of a deployment id comes with the configuration.
\<close>

section \<open>Probing\<close>

datatype probe = Reached "string \<Rightarrow> u64 option option" | CouldNotReach

definition probe_block :: "(deployment_id \<Rightarrow> string) \<Rightarrow> probe \<Rightarrow> indexing_agreement \<Rightarrow> u64 option" where
  "probe_block show_id p a = (case p of
       Reached heights \<Rightarrow>
         Option.bind (heights (show_id (m_subgraph_deployment_id (t_metadata (ia_terms a))))) id
     | CouldNotReach \<Rightarrow> None)"

fun unreached :: "probe \<Rightarrow> bool" where
  "unreached (Reached _) = False"
| "unreached CouldNotReach = True"

text \<open>
  The agreements by indexer. The source collects them in a hash map, whose order is not determined;
  here each indexer comes at its first agreement.
\<close>

fun group_by_indexer_id :: "indexing_agreement list \<Rightarrow> (indexer_id \<times> indexing_agreement list) list" where
  "group_by_indexer_id [] = []"
| "group_by_indexer_id (a # as) =
     (ia_indexer_id a, a # filter (\<lambda>b. ia_indexer_id b = ia_indexer_id a) as) #
     group_by_indexer_id (filter (\<lambda>b. ia_indexer_id b \<noteq> ia_indexer_id a) as)"

definition probe_indexer :: "(deployment_id \<Rightarrow> string) \<Rightarrow> indexer_id \<Rightarrow> indexing_agreement list \<Rightarrow> probe prog" where
  "probe_indexer show_id indexer as = do {
     url \<leftarrow> look (\<lambda>m. mv_network m indexer);
     case url of
       None \<Rightarrow> State_Monad.return CouldNotReach
     | Some u \<Rightarrow> do {
         answer \<leftarrow> outside_call (\<lambda>m. mv_status m u
           (status_query (map (\<lambda>a. show_id (m_subgraph_deployment_id (t_metadata (ia_terms a)))) as)));
         State_Monad.return (case answer of
             None \<Rightarrow> CouldNotReach
           | Some json \<Rightarrow> Reached (status_heights json)) } }"

section \<open>Replacing an abandoned agreement\<close>

definition open_request :: "indexing_request \<Rightarrow> indexing_request option" where
  "open_request r = (if ir_status r = Open then Some r else None)"

text \<open>\<open>Inl ()\<close> when the request could not be read.\<close>

definition abandoned_request :: "indexing_agreement \<Rightarrow> (unit + indexing_request option) prog" where
  "abandoned_request a = do {
     r \<leftarrow> timeout_read (\<lambda>_ db. Inr (get_indexing_request_by_id (ia_request_id a) db));
     State_Monad.return (case r of
         Ok (Some request) \<Rightarrow> Inr (open_request request)
       | Ok None \<Rightarrow> Inr None
       | Err _ \<Rightarrow> Inl ()
       | Elapsed \<Rightarrow> Inl ()) }"

definition queue_replacement :: "indexing_agreement \<Rightarrow> bool prog" where
  "queue_replacement a = do {
     request \<leftarrow> abandoned_request a;
     case request of
       Inl _ \<Rightarrow> State_Monad.return False
     | Inr None \<Rightarrow> State_Monad.return True
     | Inr (Some req) \<Rightarrow> do {
         p \<leftarrow> timeout_push (reassess_indexing_request_job (ia_request_id a)
           (m_subgraph_deployment_id (t_metadata (ia_terms a))) (m_chain_id (t_metadata (ia_terms a)))
           (ir_num_candidates req) Background);
         State_Monad.return (case p of Ok _ \<Rightarrow> True | Err _ \<Rightarrow> False | Elapsed \<Rightarrow> False) } }"

definition replace_abandoned :: "indexing_agreement \<Rightarrow> unit prog" where
  "replace_abandoned a = do {
     queued \<leftarrow> queue_replacement a;
     if queued then do { _ \<leftarrow> await (\<lambda>_. mark_replacement_queued (ia_id a)); State_Monad.return () }
     else State_Monad.return () }"

section \<open>Abandoning an agreement\<close>

definition mark_abandoning :: "indexing_agreement \<Rightarrow> bool prog" where
  "mark_abandoning a = do {
     r \<leftarrow> timeout_await (mark_cancelling_tx Abandoned (ia_id a));
     State_Monad.return (case r of Ok _ \<Rightarrow> True | Err _ \<Rightarrow> False | Elapsed \<Rightarrow> False) }"

definition start_abandoned_cancel :: "agreement_config \<Rightarrow> indexing_agreement \<Rightarrow> cancel_started option prog" where
  "start_abandoned_cancel cfg a = do {
     marked \<leftarrow> mark_abandoning a;
     if \<not> marked then State_Monad.return None
     else do { started \<leftarrow> send_marked_cancel cfg a Abandoned; State_Monad.return (Some started) } }"

definition forget_replaced_agreement :: "indexing_agreement \<Rightarrow> unit prog" where
  "forget_replaced_agreement a = do {
     _ \<leftarrow> await (\<lambda>_. delete_pending_cancellations_by_new_agreement (ia_id a));
     State_Monad.return () }"

definition note_seen_ended :: "indexing_agreement \<Rightarrow> bool prog" where
  "note_seen_ended a = do {
     r \<leftarrow> timeout_await (\<lambda>now. record_cancel_check now (ia_id a) 0 (Some True));
     State_Monad.return (case r of
         Ok _ \<Rightarrow> True
       | Err e \<Rightarrow> e = Refused NoRecordsUpdated
       | Elapsed \<Rightarrow> False) }"

text \<open>The agreements already reported as impossible to cancel.\<close>

type_synonym uncancellable = "agreement_id list"

definition report_uncancellable :: "indexing_agreement \<Rightarrow> uncancellable \<Rightarrow> uncancellable" where
  "report_uncancellable a u = List.insert (ia_id a) u"

definition cancel_and_reassess :: "agreement_config \<Rightarrow> indexing_agreement \<Rightarrow> uncancellable \<Rightarrow> uncancellable prog" where
  "cancel_and_reassess cfg a u = (
     if cancel_hash a = None then State_Monad.return (report_uncancellable a u)
     else do {
       started \<leftarrow> start_abandoned_cancel cfg a;
       case started of
         None \<Rightarrow> State_Monad.return u
       | Some s \<Rightarrow> do {
           _ \<leftarrow> forget_replaced_agreement a;
           noted \<leftarrow> (case s of
               StartedEnded \<Rightarrow> State_Monad.return True
             | StartedMayBeLive \<Rightarrow> State_Monad.return False
             | StartedNotLive \<Rightarrow> note_seen_ended a);
           _ \<leftarrow> (if noted then replace_abandoned a else State_Monad.return ());
           State_Monad.return u } })"

section \<open>A cycle\<close>

record liveness_ctx =
  lc_config :: liveness_config
  lc_agreement_conf :: agreement_config
  lc_show_deployment :: "deployment_id \<Rightarrow> string"

definition record_progress :: "indexing_agreement \<Rightarrow> u64 \<Rightarrow> timestamp \<Rightarrow> unit prog" where
  "record_progress a block now = do {
     _ \<leftarrow> timeout_await (\<lambda>_. update_agreement_sync_progress (ia_id a) block now);
     State_Monad.return () }"

definition check_agreement :: "liveness_ctx \<Rightarrow> (deployment_id \<Rightarrow> nat option) \<Rightarrow> indexing_agreement \<Rightarrow> u64 option \<Rightarrow>
    unreachable_policy option \<Rightarrow> uncancellable \<Rightarrow> uncancellable prog" where
  "check_agreement ctx counts a current unreachable u = do {
     now \<leftarrow> clock;
     let d = m_subgraph_deployment_id (t_metadata (ia_terms a));
     let since = (case unreachable of
           None \<Rightarrow> ia_last_progress_at a
         | Some policy \<Rightarrow> progress_clock policy (ia_last_progress_at a));
     case decide_liveness_action (ia_last_block_height a) current since now d counts
         (lv_max_tolerance_days (lc_config ctx)) of
       InitializeTracking block \<Rightarrow> do { _ \<leftarrow> record_progress a block now; State_Monad.return u }
     | ResetProgress block \<Rightarrow> do { _ \<leftarrow> record_progress a block now; State_Monad.return u }
     | WithinTolerance \<Rightarrow> State_Monad.return u
     | CancelAndReassess \<Rightarrow>
         if unreachable = Some Hold then State_Monad.return u
         else cancel_and_reassess (lc_agreement_conf ctx) a u }"

fun check_agreements :: "liveness_ctx \<Rightarrow> (deployment_id \<Rightarrow> nat option) \<Rightarrow> indexing_agreement list \<Rightarrow> probe \<Rightarrow>
    unreachable_policy option \<Rightarrow> uncancellable \<Rightarrow> uncancellable prog" where
  "check_agreements ctx counts [] p unreachable u = State_Monad.return u"
| "check_agreements ctx counts (a # as) p unreachable u = do {
     u' \<leftarrow> check_agreement ctx counts a (probe_block (lc_show_deployment ctx) p a) unreachable u;
     check_agreements ctx counts as p unreachable u' }"

definition check_indexer :: "liveness_ctx \<Rightarrow> (deployment_id \<Rightarrow> nat option) \<Rightarrow> indexing_agreement list \<Rightarrow> probe \<Rightarrow>
    unreachable_policy \<Rightarrow> uncancellable \<Rightarrow> uncancellable prog" where
  "check_indexer ctx counts as p policy u =
     check_agreements ctx counts as p (if unreached p then Some policy else None) u"

text \<open>Asking every indexer; nothing once the service was told to stop.\<close>

fun probe_all :: "(deployment_id \<Rightarrow> string) \<Rightarrow> (indexer_id \<times> indexing_agreement list) list \<Rightarrow>
    (indexing_agreement list \<times> probe) list option prog" where
  "probe_all show_id [] = State_Monad.return (Some [])"
| "probe_all show_id ((indexer, as) # groups) = do {
     stop \<leftarrow> stop_requested;
     if stop then State_Monad.return None
     else do {
       p \<leftarrow> probe_indexer show_id indexer as;
       rest \<leftarrow> probe_all show_id groups;
       State_Monad.return (map_option (\<lambda>ps. (as, p) # ps) rest) } }"

fun check_all :: "liveness_ctx \<Rightarrow> (deployment_id \<Rightarrow> nat option) \<Rightarrow> unreachable_policy \<Rightarrow>
    (indexing_agreement list \<times> probe) list \<Rightarrow> uncancellable \<Rightarrow> (bool \<times> uncancellable) prog" where
  "check_all ctx counts policy [] u = State_Monad.return (True, u)"
| "check_all ctx counts policy ((as, p) # ps) u = do {
     stop \<leftarrow> stop_requested;
     if stop then State_Monad.return (False, u)
     else do {
       u' \<leftarrow> check_indexer ctx counts as p policy u;
       check_all ctx counts policy ps u' } }"

definition act_on_probes :: "liveness_ctx \<Rightarrow> (deployment_id \<Rightarrow> nat option) \<Rightarrow> (indexing_agreement list \<times> probe) list \<Rightarrow>
    uncancellable \<Rightarrow> unreachable_breaker \<Rightarrow> (bool \<times> uncancellable \<times> unreachable_breaker) prog" where
  "act_on_probes ctx counts probed u b = do {
     now \<leftarrow> clock;
     let (policy, b') = evaluate (lc_config ctx) (length probed)
           (length (filter (\<lambda>(as, p). unreached p) probed)) now b;
     (go, u') \<leftarrow> check_all ctx counts policy probed u;
     State_Monad.return (go, u', b') }"

text \<open>One pass of the loop; the first component is whether to go on.\<close>

definition liveness_tick :: "liveness_ctx \<Rightarrow> uncancellable \<Rightarrow> unreachable_breaker \<Rightarrow>
    (bool \<times> uncancellable \<times> unreachable_breaker) prog" where
  "liveness_tick ctx u b = do {
     r \<leftarrow> timeout_read (\<lambda>_ db. Inr (get_accepted_on_chain_agreements (lv_batch_size (lc_config ctx)) db));
     case r of
       Err _ \<Rightarrow> State_Monad.return (True, u, b)
     | Elapsed \<Rightarrow> State_Monad.return (True, u, b)
     | Ok as \<Rightarrow>
         if as = [] then State_Monad.return (True, u, b)
         else do {
           c \<leftarrow> timeout_read (\<lambda>_ db. Inr (count_active_agreements_by_deployment db));
           case c of
             Err _ \<Rightarrow> State_Monad.return (True, u, b)
           | Elapsed \<Rightarrow> State_Monad.return (True, u, b)
           | Ok counts \<Rightarrow> do {
               probed \<leftarrow> probe_all (lc_show_deployment ctx) (group_by_indexer_id as);
               case probed of
                 None \<Rightarrow> State_Monad.return (False, u, b)
               | Some ps \<Rightarrow> act_on_probes ctx counts ps u b } } }"

section \<open>What it guarantees\<close>

text \<open>
  The agreement's indexer is stale: at some time since \<open>db0\<close> its row was accepted and showed progress
  last at a time which the clock later passed by more than the tolerance its deployment had then.
\<close>

definition stale :: "registry \<Rightarrow> timestamp \<Rightarrow> u32 \<Rightarrow> agreement_id \<Rightarrow> move list \<Rightarrow> bool" where
  "stale db0 t0 max_days i p \<longleftrightarrow> (\<exists>db db1 r since now. registry_step\<^sup>*\<^sup>* db0 db \<and> registry_step\<^sup>*\<^sup>* db0 db1 \<and>
     r \<in> set (agreements db) \<and> a_id r = i \<and> a_status r = AcceptedOnChain \<and> a_last_block_height r \<noteq> None \<and>
     a_last_progress_at r = Some since \<and> clock_showed t0 now p \<and>
     now - since > tolerance_duration (m_subgraph_deployment_id (t_metadata (a_terms r)))
       (count_active_agreements_by_deployment db1) max_days)"

lemma lasting_stale [lasting_rules]: "lasting (\<lambda>w. stale db0 t0 n i (w_past w))"
  by (auto simp: lasting_def stale_def later_def clock_showed_def) blast+

definition liveness_guarantee :: "registry \<Rightarrow> timestamp \<Rightarrow> u32 \<Rightarrow> guarantee" where
  "liveness_guarantee db0 t0 max_days = \<lparr>
     g_write = (\<lambda>p. status_moves (\<lambda>r r'.
       a_status r = AcceptedOnChain \<and> a_status r' = Cancelling \<and> stale db0 t0 max_days (a_id r) p \<or>
       a_status r' = AbandonedByIndexer \<and> shown (a_id r) NotLive p)),
     g_push = (\<lambda>_ db b. \<exists>r \<in> set (agreements db). a_status r \<in> set ending \<and> reassessment_of r b),
     g_send = (\<lambda>p db tx. \<exists>i. marked_cancel i p db tx)\<rparr>"

lemma liveness_writes:
  "status_moves (\<lambda>r r'. a_id r = i \<and> a_status r = AcceptedOnChain \<and> a_status r' = Cancelling) db db' \<Longrightarrow>
    stale db0 t0 n i p \<Longrightarrow> g_write (liveness_guarantee db0 t0 n) p db db'"
  "status_moves (\<lambda>r r'. a_id r = i \<and> a_status r' = AbandonedByIndexer) db db' \<Longrightarrow> shown i NotLive p \<Longrightarrow>
    g_write (liveness_guarantee db0 t0 n) p db db'"
  "status_moves (\<lambda>_ _. False) db db' \<Longrightarrow> g_write (liveness_guarantee db0 t0 n) p db db'"
  by (auto simp: liveness_guarantee_def status_moves_def)

lemma column_writes_move_nothing:
  assumes "reg_inv db"
  shows "record_cancel_check now i n ended db = Inr (x, db') \<Longrightarrow> status_moves P db db'"
    "mark_replacement_queued i db = Inr (u, db') \<Longrightarrow> status_moves P db db'"
    "update_agreement_sync_progress i h t db = Inr (u, db') \<Longrightarrow> status_moves P db db'"
    "delete_pending_cancellations_by_new_agreement i db = Inr (u, db') \<Longrightarrow> status_moves P db db'"
  by (rule status_moves_same [OF assms]; auto simp: record_cancel_check_def mark_replacement_queued_def
      update_agreement_sync_progress_def delete_pending_cancellations_by_new_agreement_def ignore_rows_def
      some_row_def update_columns_def tx_bind_def sql_update_def split: list.splits)+

lemma safe_replace_abandoned:
  assumes "lasting K" and "\<And>w. K w \<Longrightarrow> marked a (w_db w)"
    and "\<And>w b. K w \<Longrightarrow> \<exists>r \<in> set (agreements (w_db w)). a_status r \<in> set ending \<and> reassessment_of r b \<Longrightarrow>
      g_push G (w_past w) (w_db w) b"
    and "\<And>w db'. K w \<Longrightarrow> status_moves (\<lambda>_ _. False) (w_db w) db' \<Longrightarrow> g_write G (w_past w) (w_db w) db'"
  shows "safe G K (replace_abandoned a)"
proof -
  have "safe G K (queue_replacement a)"
    unfolding queue_replacement_def abandoned_request_def bind_assoc bind_left_identity
    by (intro safe_rules assms(1,3))
      (use assms(2) in \<open>fastforce simp: marked_def read_from_def reassessment_of_def\<close>)+
  then show ?thesis
    unfolding replace_abandoned_def
    by (intro safe_rules assms(1) registry_writes) (auto intro!: assms(4) column_writes_move_nothing(2))
qed

text \<open>What is known of an agreement about to be abandoned.\<close>

definition stale_read :: "registry \<Rightarrow> timestamp \<Rightarrow> u32 \<Rightarrow> indexing_agreement \<Rightarrow> world \<Rightarrow> bool" where
  "stale_read db0 t0 n a w \<longleftrightarrow> (\<exists>r \<in> set (agreements (w_db w)). read_from a r) \<and> stale db0 t0 n (ia_id a) (w_past w)"

lemma lasting_stale_read [lasting_rules]: "lasting (stale_read db0 t0 n a)"
  unfolding stale_read_def by (intro lasting_rules)

lemma ensures_mark_abandoning:
  "ensures (liveness_guarantee db0 t0 n) (stale_read db0 t0 n a) (mark_abandoning a)
    (\<lambda>ok w. ok \<longrightarrow> marked a (w_db w))"
proof -
  have "ensures (liveness_guarantee db0 t0 n) (stale_read db0 t0 n a)
      (timeout_await (mark_cancelling_tx Abandoned (ia_id a))) (\<lambda>r w. \<forall>x. r = Ok x \<longrightarrow> marked a (w_db w))"
  proof (intro ensures_timeout_await lasting_rules registry_writes conjI)
    fix now x and w w' :: world
    assume w: "reg_inv (w_db w)" "stale_read db0 t0 n a w"
      and run: "mark_cancelling_tx Abandoned (ia_id a) now (w_db w) = Inr (x, w_db w')"
    from w(2) obtain r where r: "r \<in> set (agreements (w_db w))" "read_from a r" and s: "stale db0 t0 n (ia_id a) (w_past w)"
      by (auto simp: stale_read_def)
    show "g_write (liveness_guarantee db0 t0 n) (w_past w) (w_db w) (w_db w')"
      by (rule liveness_writes(1) [OF mark_abandoning_moves [OF w(1) run] s])
    from mark_cancelling_read [OF w(1) run r refl] show "marked a (w_db w')"
      by (auto simp: marked_def ending_def)
  qed
  then show ?thesis
    unfolding mark_abandoning_def
    by (rule ensures_bind) (auto intro: lasting_rules ensures_return split: reply.splits)
qed

lemma safe_send_abandoned:
  assumes "lasting K" and "\<And>w. K w \<Longrightarrow> marked a (w_db w)"
  shows "safe (liveness_guarantee db0 t0 n) K (send_marked_cancel cfg a Abandoned)"
  unfolding send_marked_cancel_def
proof (rule safe_after [OF ensures_cancel_if_live [OF assms] assms(1)])
  show "g_send (liveness_guarantee db0 t0 n) p db tx" if "marked_cancel (ia_id a) p db tx" for p db tx
    using that by (auto simp: liveness_guarantee_def)
  show "safe (liveness_guarantee db0 t0 n) (\<lambda>w. K w \<and> cancel_found a x (w_past w)) (finish_marked_cancel cfg a Abandoned x)" for x
    by (intro safe_finish_marked_cancel lasting_rules assms(1)) (auto intro: liveness_writes(2))
qed

lemma safe_cancel_and_reassess:
  "safe (liveness_guarantee db0 t0 n) (stale_read db0 t0 n a) (cancel_and_reassess cfg a u)"
    (is "safe ?G ?K _")
proof -
  have quiet: "status_moves (\<lambda>_ _. False) db db' \<Longrightarrow> g_write ?G p db db'" for p db db'
    by (rule liveness_writes(3))
  have K: "lasting (\<lambda>w. ?K w \<and> marked a (w_db w))" by (intro lasting_rules)
  let ?rest = "\<lambda>started. case started of None \<Rightarrow> State_Monad.return u
    | Some s \<Rightarrow> do {
        _ \<leftarrow> forget_replaced_agreement a;
        noted \<leftarrow> (case s of StartedEnded \<Rightarrow> State_Monad.return True
          | StartedNotLive \<Rightarrow> note_seen_ended a | StartedMayBeLive \<Rightarrow> State_Monad.return False);
        _ \<leftarrow> (if noted then replace_abandoned a else State_Monad.return ());
        State_Monad.return u }"
  have forget: "safe ?G (\<lambda>w. ?K w \<and> marked a (w_db w)) (forget_replaced_agreement a)"
    unfolding forget_replaced_agreement_def
    by (intro safe_rules K registry_writes) (auto intro!: quiet column_writes_move_nothing(4))
  have note_end: "safe ?G (\<lambda>w. ?K w \<and> marked a (w_db w)) (note_seen_ended a)"
    unfolding note_seen_ended_def
    by (intro safe_rules K registry_writes) (auto intro!: quiet column_writes_move_nothing(1))
  have replace: "safe ?G (\<lambda>w. ?K w \<and> marked a (w_db w)) (replace_abandoned a)"
    by (intro safe_replace_abandoned K) (auto simp: liveness_guarantee_def status_moves_def)
  have rest: "safe ?G (\<lambda>w. ?K w \<and> marked a (w_db w)) (?rest x)" for x
    by (intro safe_option safe_return safe_bind [OF forget] safe_bind [OF _ K] K safe_if replace)
      (auto intro: safe_return note_end split: cancel_started.split)
  have start: "ensures ?G ?K (start_abandoned_cancel cfg a) (\<lambda>s w. s \<noteq> None \<longrightarrow> marked a (w_db w))"
    unfolding start_abandoned_cancel_def
    by (rule ensures_bind [OF ensures_mark_abandoning]; (intro lasting_rules)?)
      (auto intro!: ensures_if ensures_return ensures_then safe_send_abandoned lasting_rules)
  have "safe ?G (\<lambda>w. ?K w \<and> (s \<noteq> None \<longrightarrow> marked a (w_db w))) (?rest s)" for s
    using rest [of s] by (cases s) (auto intro: safe_return)
  from safe_after [OF start lasting_stale_read this] show ?thesis
    unfolding cancel_and_reassess_def by (auto intro: safe_return)
qed

lemma decided_stale:
  assumes "decide_liveness_action height current since now d counts n = CancelAndReassess"
  shows "height \<noteq> None" "\<exists>t. since = Some t \<and> now - t > tolerance_duration d counts n"
proof -
  from assms show "height \<noteq> None" by (auto simp: decide_liveness_action_def split: option.splits)
  have "0 \<le> tolerance_duration d counts n"
    by (simp add: tolerance_duration_def days_def secs_def Let_def)
  with assms show "\<exists>t. since = Some t \<and> now - t > tolerance_duration d counts n"
    by (auto simp: decide_liveness_action_def no_progress_action_def Let_def split: option.splits if_splits)
qed

fun forgives :: "unreachable_policy \<Rightarrow> bool" where
  "forgives Hold = True"
| "forgives (Judge held grace) = (0 \<le> grace)"

lemma held_since_nonneg: "0 \<le> held_since held t"
  unfolding held_since_def by (induction held) auto

lemma progress_clock_forward:
  assumes "forgives policy" and "progress_clock policy since = Some t"
  shows "\<exists>t0. since = Some t0 \<and> t0 \<le> t"
  using assms held_since_nonneg by (cases policy) auto

lemma evaluate_forgives: "evaluate cfg checked unreachable now b = (policy, b') \<Longrightarrow> forgives policy"
  by (auto simp: evaluate_def Let_def max_hold_def days_def secs_def split: option.splits if_splits)

text \<open>What a cycle knows of an agreement it checks.\<close>

definition checked :: "registry \<Rightarrow> timestamp \<Rightarrow> (deployment_id \<Rightarrow> nat option) \<Rightarrow> indexing_agreement \<Rightarrow> world \<Rightarrow> bool" where
  "checked db0 t0 counts a w \<longleftrightarrow> (\<exists>r \<in> set (agreements (w_db w)). read_from a r) \<and>
     (\<exists>db r. registry_step\<^sup>*\<^sup>* db0 db \<and> r \<in> set (agreements db) \<and> a = agreement_from_row r \<and> a_status r = AcceptedOnChain) \<and>
     (\<exists>db1. registry_step\<^sup>*\<^sup>* db0 db1 \<and> counts = count_active_agreements_by_deployment db1) \<and>
     clock_showed t0 (w_now w) (w_past w)"

lemma lasting_checked [lasting_rules]: "lasting (checked db0 t0 counts a)"
  unfolding checked_def by (intro lasting_rules)

lemma stale_from_decision:
  assumes "checked db0 t0 counts a w" and "clock_showed t0 now (w_past w)"
    and "\<forall>policy. unreachable = Some policy \<longrightarrow> forgives policy"
    and "decide_liveness_action (ia_last_block_height a) current
      (case unreachable of None \<Rightarrow> ia_last_progress_at a | Some policy \<Rightarrow> progress_clock policy (ia_last_progress_at a))
      now (m_subgraph_deployment_id (t_metadata (ia_terms a))) counts n = CancelAndReassess"
  shows "stale_read db0 t0 n a w"
proof -
  from assms(1) obtain db r db1 where db: "registry_step\<^sup>*\<^sup>* db0 db" "r \<in> set (agreements db)"
    "a = agreement_from_row r" "a_status r = AcceptedOnChain"
    "registry_step\<^sup>*\<^sup>* db0 db1" "counts = count_active_agreements_by_deployment db1"
    by (auto simp: checked_def)
  note d = decided_stale [OF assms(4)]
  from d(2) assms(3) obtain t where "ia_last_progress_at a = Some t"
    "now - t > tolerance_duration (m_subgraph_deployment_id (t_metadata (ia_terms a))) counts n"
    by (cases unreachable) (fastforce dest: progress_clock_forward)+
  with db d(1) assms(2) have "stale db0 t0 n (ia_id a) (w_past w)"
    unfolding stale_def by (intro exI [of _ db] exI [of _ db1] exI [of _ r] exI [of _ t] exI [of _ now])
      (auto simp: agreement_from_row_def)
  with assms(1) show ?thesis by (simp add: stale_read_def checked_def)
qed

lemma safe_record_progress: "lasting K \<Longrightarrow> safe (liveness_guarantee db0 t0 n) K (record_progress a block now)"
  unfolding record_progress_def
  by (intro safe_rules registry_writes) (auto intro!: liveness_writes(3) column_writes_move_nothing(3))

lemma safe_check_agreement:
  assumes "\<forall>policy. unreachable = Some policy \<longrightarrow> forgives policy"
  shows "safe (liveness_guarantee db0 t0 (lv_max_tolerance_days (lc_config ctx))) (checked db0 t0 counts a)
    (check_agreement ctx counts a current unreachable u)"
    (is "safe ?G ?K _")
  unfolding check_agreement_def Let_def
proof (rule safe_after [OF ensures_clock [where ?t0.0 = t0 and F = "\<lambda>now w. clock_showed t0 now (w_past w)"]])
  fix now
  let ?K' = "\<lambda>w. ?K w \<and> clock_showed t0 now (w_past w)"
  let ?since = "case unreachable of None \<Rightarrow> ia_last_progress_at a | Some policy \<Rightarrow> progress_clock policy (ia_last_progress_at a)"
  let ?decision = "decide_liveness_action (ia_last_block_height a) current ?since now
    (m_subgraph_deployment_id (t_metadata (ia_terms a))) counts (lv_max_tolerance_days (lc_config ctx))"
  have K': "lasting ?K'" by (intro lasting_rules)
  have cancel: "safe ?G ?K' (cancel_and_reassess (lc_agreement_conf ctx) a u)" if "?decision = CancelAndReassess"
    by (rule safe_weaken [OF safe_cancel_and_reassess]) (use stale_from_decision [OF _ _ assms that] in blast)
  show "safe ?G ?K' (case ?decision of
      InitializeTracking block \<Rightarrow> do { _ \<leftarrow> record_progress a block now; State_Monad.return u }
    | ResetProgress block \<Rightarrow> do { _ \<leftarrow> record_progress a block now; State_Monad.return u }
    | WithinTolerance \<Rightarrow> State_Monad.return u
    | CancelAndReassess \<Rightarrow> if unreachable = Some Hold then State_Monad.return u
        else cancel_and_reassess (lc_agreement_conf ctx) a u)"
    using cancel by (cases ?decision)
      (auto intro!: safe_return safe_bind [OF safe_record_progress [OF K'] K'])
qed (auto simp: checked_def intro: lasting_rules)

lemma safe_check_agreements:
  assumes "\<forall>policy. unreachable = Some policy \<longrightarrow> forgives policy"
  shows "safe (liveness_guarantee db0 t0 (lv_max_tolerance_days (lc_config ctx)))
    (\<lambda>w. \<forall>a \<in> set as. checked db0 t0 counts a w) (check_agreements ctx counts as p unreachable u)"
proof (induction as arbitrary: u)
  case (Cons a as)
  let ?G = "liveness_guarantee db0 t0 (lv_max_tolerance_days (lc_config ctx))"
  let ?K = "\<lambda>w. \<forall>b \<in> set (a # as). checked db0 t0 counts b w"
  have "safe ?G ?K (check_agreement ctx counts a c unreachable u)" for c
    by (rule safe_weaken [OF safe_check_agreement [OF assms]]) simp
  moreover have "safe ?G ?K (check_agreements ctx counts as p unreachable u')" for u'
    by (rule safe_weaken [OF Cons.IH]) simp
  ultimately show ?case
    unfolding check_agreements.simps by (intro safe_bind lasting_rules)
qed (simp add: safe_return)

lemma ensures_probe_all:
  assumes "lasting K"
  shows "ensures G K (probe_all show_id groups) (\<lambda>r w. \<forall>ps. r = Some ps \<longrightarrow> map fst ps = map snd groups)"
proof (induction groups)
  case (Cons g groups)
  obtain ix as where g: "g = (ix, as)" by fastforce
  have probe: "safe G K (probe_indexer show_id ix as)"
    unfolding probe_indexer_def by (intro safe_rules assms)
  show ?case
    unfolding g probe_all.simps
    by (intro ensures_then [OF safe_stop_requested] ensures_if ensures_return ensures_then [OF probe] assms
        ensures_bind [OF Cons.IH]) auto
qed (simp add: ensures_return)

lemma safe_check_all:
  assumes "forgives policy"
  shows "safe (liveness_guarantee db0 t0 (lv_max_tolerance_days (lc_config ctx)))
    (\<lambda>w. \<forall>as \<in> set (map fst ps). \<forall>a \<in> set as. checked db0 t0 counts a w) (check_all ctx counts policy ps u)"
proof (induction ps arbitrary: u)
  case (Cons q ps)
  let ?G = "liveness_guarantee db0 t0 (lv_max_tolerance_days (lc_config ctx))"
  let ?K = "\<lambda>w. \<forall>as \<in> set (map fst (q # ps)). \<forall>a \<in> set as. checked db0 t0 counts a w"
  obtain as p where q: "q = (as, p)" by fastforce
  have "safe ?G ?K (check_indexer ctx counts as p policy u)"
    unfolding check_indexer_def
    by (rule safe_weaken [OF safe_check_agreements]) (use assms in \<open>auto simp: q\<close>)
  moreover have "safe ?G ?K (check_all ctx counts policy ps u')" for u'
    by (rule safe_weaken [OF Cons.IH]) simp
  ultimately show ?case
    unfolding q check_all.simps
    by (intro safe_bind [OF safe_stop_requested] safe_if safe_return safe_bind lasting_rules) (simp_all add: q)
qed (simp add: safe_return)

lemma group_members: "as \<in> set (map snd (group_by_indexer_id bs)) \<Longrightarrow> set as \<subseteq> set bs"
  by (induction bs rule: group_by_indexer_id.induct) auto

lemma safe_act_on_probes:
  "safe (liveness_guarantee db0 t0 (lv_max_tolerance_days (lc_config ctx)))
    (\<lambda>w. \<forall>as \<in> set (map fst ps). \<forall>a \<in> set as. checked db0 t0 counts a w) (act_on_probes ctx counts ps u b)"
  unfolding act_on_probes_def Let_def
proof (intro safe_bind [OF safe_clock] lasting_rules safe_prod)
  fix now policy b'
  assume "evaluate (lc_config ctx) (length ps) (length (filter (\<lambda>(as, p). unreached p) ps)) now b = (policy, b')"
  note policy = evaluate_forgives [OF this]
  show "safe (liveness_guarantee db0 t0 (lv_max_tolerance_days (lc_config ctx)))
      (\<lambda>w. \<forall>as \<in> set (map fst ps). \<forall>a \<in> set as. checked db0 t0 counts a w)
      (do { (go, u') \<leftarrow> check_all ctx counts policy ps u; State_Monad.return (go, u', b') })"
    by (intro safe_bind [OF safe_check_all [OF policy]] lasting_rules safe_prod safe_return)
qed

lemma read_accepted:
  assumes "reg_inv db" and "a \<in> set (get_accepted_on_chain_agreements n db)"
  shows "\<exists>r \<in> set (agreements db). a = agreement_from_row r \<and> a_status r = AcceptedOnChain"
    "\<exists>r \<in> set (agreements db). read_from a r"
proof -
  from assms have "distinct (map a_id (agreements db))" by (simp add: reg_inv_def)
  from accepted_batch_rows [OF this assms(2)]
  show row: "\<exists>r \<in> set (agreements db). a = agreement_from_row r \<and> a_status r = AcceptedOnChain" .
  then show "\<exists>r \<in> set (agreements db). read_from a r" using read_from_row by blast
qed

text \<open>The agreements of a cycle, as read from the registry.\<close>

definition batch_read :: "registry \<Rightarrow> indexing_agreement list \<Rightarrow> bool" where
  "batch_read db0 as \<longleftrightarrow> (\<forall>a \<in> set as. \<exists>db r. registry_step\<^sup>*\<^sup>* db0 db \<and> r \<in> set (agreements db) \<and>
     a = agreement_from_row r \<and> a_status r = AcceptedOnChain)"

definition counts_read :: "registry \<Rightarrow> (deployment_id \<Rightarrow> nat option) \<Rightarrow> bool" where
  "counts_read db0 counts \<longleftrightarrow> (\<exists>db1. registry_step\<^sup>*\<^sup>* db0 db1 \<and> counts = count_active_agreements_by_deployment db1)"

lemma checked_group:
  assumes "batch_read db0 as" and "counts_read db0 counts" and "clock_showed t0 (w_now w) (w_past w)"
    and "\<forall>a \<in> set as. \<exists>r \<in> set (agreements (w_db w)). read_from a r"
    and "bs \<in> set (map snd (group_by_indexer_id as))" and "a \<in> set bs"
  shows "checked db0 t0 counts a w"
proof -
  from group_members [OF assms(5)] assms(6) have "a \<in> set as" by blast
  with assms(1-4) show ?thesis unfolding checked_def batch_read_def counts_read_def by blast
qed

lemma safe_probe_and_act:
  assumes "batch_read db0 as" and "counts_read db0 counts"
  shows "safe (liveness_guarantee db0 t0 (lv_max_tolerance_days (lc_config ctx)))
    (\<lambda>w. clock_showed t0 (w_now w) (w_past w) \<and> (\<forall>a \<in> set as. \<exists>r \<in> set (agreements (w_db w)). read_from a r))
    (do { probed \<leftarrow> probe_all (lc_show_deployment ctx) (group_by_indexer_id as);
          case probed of None \<Rightarrow> State_Monad.return (False, u, b) | Some ps \<Rightarrow> act_on_probes ctx counts ps u b })"
    (is "safe ?G ?K _")
proof -
  have K: "lasting ?K" by (intro lasting_rules)
  have "safe ?G (\<lambda>w. ?K w \<and> (\<forall>ps. probed = Some ps \<longrightarrow> map fst ps = map snd (group_by_indexer_id as)))
      (case probed of None \<Rightarrow> State_Monad.return (False, u, b) | Some ps \<Rightarrow> act_on_probes ctx counts ps u b)" for probed
  proof (cases probed)
    case (Some ps)
    show ?thesis
      unfolding Some option.case
    proof (rule safe_weaken [OF safe_act_on_probes], intro ballI)
      fix w bs a
      assume w: "?K w \<and> (\<forall>qs. Some ps = Some qs \<longrightarrow> map fst qs = map snd (group_by_indexer_id as))"
        and bs: "bs \<in> set (map fst ps)" "a \<in> set bs"
      from w bs(1) have "bs \<in> set (map snd (group_by_indexer_id as))" by simp
      from checked_group [OF assms _ _ this bs(2)] w show "checked db0 t0 counts a w" by blast
    qed
  qed (simp add: safe_return)
  from safe_after [OF ensures_probe_all [OF K] K this] show ?thesis .
qed

lemma safe_liveness_tick:
  "safe (liveness_guarantee db0 t0 (lv_max_tolerance_days (lc_config ctx)))
    (\<lambda>w. registry_step\<^sup>*\<^sup>* db0 (w_db w) \<and> clock_showed t0 (w_now w) (w_past w)) (liveness_tick ctx u b)"
    (is "safe ?G ?K _")
  unfolding liveness_tick_def
proof (rule safe_then_timeout_read [where C = "batch_read db0"
      and F = "\<lambda>as w. \<forall>a \<in> set as. \<exists>r \<in> set (agreements (w_db w)). read_from a r"])
  fix as :: "indexing_agreement list"
  assume as: "batch_read db0 as"
  let ?K' = "\<lambda>w. ?K w \<and> (\<forall>a \<in> set as. \<exists>r \<in> set (agreements (w_db w)). read_from a r)"
  have K': "lasting ?K'" by (intro lasting_rules)
  have "safe ?G ?K' (do {
      c \<leftarrow> timeout_read (\<lambda>_ db. Inr (count_active_agreements_by_deployment db));
      case c of Ok counts \<Rightarrow> do {
            probed \<leftarrow> probe_all (lc_show_deployment ctx) (group_by_indexer_id as);
            case probed of None \<Rightarrow> State_Monad.return (False, u, b) | Some ps \<Rightarrow> act_on_probes ctx counts ps u b }
        | Err _ \<Rightarrow> State_Monad.return (True, u, b) | Elapsed \<Rightarrow> State_Monad.return (True, u, b) })"
  proof (rule safe_then_timeout_read [OF K', where C = "counts_read db0" and F = "\<lambda>_ _. True"])
    fix counts
    assume "counts_read db0 counts"
    from safe_probe_and_act [OF as this]
    show "safe ?G (\<lambda>w. ?K' w \<and> True) (case Ok counts of Ok counts \<Rightarrow> do {
            probed \<leftarrow> probe_all (lc_show_deployment ctx) (group_by_indexer_id as);
            case probed of None \<Rightarrow> State_Monad.return (False, u, b) | Some ps \<Rightarrow> act_on_probes ctx counts ps u b }
        | Err _ \<Rightarrow> State_Monad.return (True, u, b) | Elapsed \<Rightarrow> State_Monad.return (True, u, b))"
      unfolding reply.case by (rule safe_weaken) blast
  qed (auto simp: counts_read_def intro!: lasting_rules safe_return)
  then show "safe ?G ?K' (case Ok as of
       Err _ \<Rightarrow> State_Monad.return (True, u, b)
     | Elapsed \<Rightarrow> State_Monad.return (True, u, b)
     | Ok as \<Rightarrow>
         if as = [] then State_Monad.return (True, u, b)
         else do {
           c \<leftarrow> timeout_read (\<lambda>_ db. Inr (count_active_agreements_by_deployment db));
           case c of
             Err _ \<Rightarrow> State_Monad.return (True, u, b)
           | Elapsed \<Rightarrow> State_Monad.return (True, u, b)
           | Ok counts \<Rightarrow> do {
               probed \<leftarrow> probe_all (lc_show_deployment ctx) (group_by_indexer_id as);
               case probed of
                 None \<Rightarrow> State_Monad.return (False, u, b)
               | Some ps \<Rightarrow> act_on_probes ctx counts ps u b } })"
    unfolding reply.case by (intro safe_if safe_return)
next
  fix now and w :: world and as
  assume w: "reg_inv (w_db w)" "?K w"
    and "Inr (get_accepted_on_chain_agreements (lv_batch_size (lc_config ctx)) (w_db w)) = Inr as"
  then have "a \<in> set as \<Longrightarrow> a \<in> set (get_accepted_on_chain_agreements (lv_batch_size (lc_config ctx)) (w_db w))" for a
    by simp
  from read_accepted [OF w(1) this] w(2)
  show "batch_read db0 as \<and> (\<forall>a \<in> set as. \<exists>r \<in> set (agreements (w_db w)). read_from a r)"
    unfolding batch_read_def by blast
qed (auto intro!: lasting_rules safe_return)

interpretation liveness_service: service "liveness_guarantee db0 t0 (lv_max_tolerance_days (lc_config ctx))"
    "\<lambda>w. registry_step\<^sup>*\<^sup>* db0 (w_db w) \<and> clock_showed t0 (w_now w) (w_past w)" "liveness_tick ctx u b" for db0 t0 ctx u b
  by unfold_locales (rule safe_liveness_tick)

text \<open>While the breaker holds, an indexer that could not be reached keeps its agreement.\<close>

definition statuses_kept :: guarantee where
  "statuses_kept = \<lparr>g_write = (\<lambda>_. status_moves (\<lambda>_ _. False)), g_push = (\<lambda>_ _ _. False), g_send = (\<lambda>_ _ _. False)\<rparr>"

lemma safe_check_held: "safe statuses_kept (\<lambda>_. True) (check_agreement ctx counts a current (Some Hold) u)"
proof -
  have "safe statuses_kept (\<lambda>_. True) (record_progress a block now)" for block now
    unfolding record_progress_def
    by (intro safe_rules registry_writes lasting_rules)
      (auto simp: statuses_kept_def intro!: column_writes_move_nothing(3))
  then show ?thesis
    unfolding check_agreement_def Let_def
    by (intro safe_bind [OF safe_clock] lasting_rules)
      (auto intro!: safe_return safe_bind lasting_rules split: liveness_action.split)
qed

interpretation held_service: service statuses_kept "\<lambda>_. True"
    "check_agreement ctx counts a current (Some Hold) u" for ctx counts a current u
  by unfold_locales (rule safe_check_held)


definition sample_stale :: registry where
  "sample_stale = (sample_registry AcceptedOnChain)\<lparr>agreements :=
     [(hd (agreements (sample_registry AcceptedOnChain)))\<lparr>a_last_block_height := Some 8, a_last_progress_at := Some 0\<rparr>]\<rparr>"

lemma sample_accepted: "reachable (sample_registry AcceptedOnChain)"
proof -
  have "apply_reconciliation 0 sample_id True None (sample_registry Created) =
      Inr (\<lparr>did_accept = True, did_cancel = False\<rparr>, sample_registry AcceptedOnChain)"
    by (simp add: apply_reconciliation_def update_status_from_def batch_update_status_from_def batch_set_status_def
        ACCEPT_FROM_def tx_bind_def update_status_def Let_def unique_active_def active_def sql_returning_def sample_defs)
  then have "registry_step (sample_registry Created) (sample_registry AcceptedOnChain)" by (rule registry_step.intros)
  with sample_created show ?thesis by (rule reachable_step)
qed

lemma sample_stale_reachable: "reachable sample_stale"
proof -
  have "update_agreement_sync_progress sample_id 8 0 (sample_registry AcceptedOnChain) = Inr ((), sample_stale)"
    by (simp add: update_agreement_sync_progress_def ignore_rows_def update_columns_def tx_bind_def sample_stale_def
        as_i64_small sample_defs)
  then have "registry_step (sample_registry AcceptedOnChain) sample_stale" by (rule registry_step.intros)
  with sample_accepted show ?thesis by (rule reachable_step)
qed

definition sample_liveness_ctx :: liveness_ctx where
  "sample_liveness_ctx = \<lparr>lc_config = sample_liveness, lc_agreement_conf = sample_config, lc_show_deployment = (\<lambda>_. ''Qm'')\<rparr>"


end
