(* ===== verification/Cancel_Retry.thy ===== *)
theory Cancel_Retry
  imports Liveness
begin

text \<open>
  \<open>network/service/cancel_retry.rs\<close>: the service that finishes the cancels dipper starts. A sweep
  sends each again while the chain shows it live, marks it ended once it is over, queues the
  replacements owed and reassesses requests left short.
\<close>

section \<open>The sweep\<close>

definition MAX_CANCEL_ATTEMPTS :: u32 where "MAX_CANCEL_ATTEMPTS = 10"
definition BATCH_SIZE :: int where "BATCH_SIZE = 50"
definition SWEEP_INTERVAL :: int where "SWEEP_INTERVAL = 300"
definition FREED_WINDOW_SECS :: int where "FREED_WINDOW_SECS = 2 * SWEEP_INTERVAL"
definition FREED_BATCH_SIZE :: int where "FREED_BATCH_SIZE = 500"
definition SWEEP_BUDGET :: timestamp where "SWEEP_BUDGET = secs 30"
definition SETTLE_MINUTES :: int where "SETTLE_MINUTES = 8"
definition LISTENER_GRACE :: timestamp where "LISTENER_GRACE = secs 3600"

fun replace_all :: "indexing_agreement list \<Rightarrow> unit prog" where
  "replace_all [] = State_Monad.return ()"
| "replace_all (a # as) = do { _ \<leftarrow> replace_abandoned a; replace_all as }"

definition replace_ended_abandoned :: "unit prog" where
  "replace_ended_abandoned = do {
     r \<leftarrow> await_read (\<lambda>_. get_ended_agreements_awaiting_replacement BATCH_SIZE);
     case r of Inl _ \<Rightarrow> State_Monad.return () | Inr ended \<Rightarrow> replace_all ended }"

fun reassess_all :: "indexing_request list \<Rightarrow> unit prog" where
  "reassess_all [] = State_Monad.return ()"
| "reassess_all (q # qs) = do {
     _ \<leftarrow> timeout_push (reassess_indexing_request_job (ir_id q) (ir_deployment_id q) (ir_deployment_chain_id q)
       (ir_num_candidates q) Background);
     reassess_all qs }"

definition reassess_freed_requests :: "unit prog" where
  "reassess_freed_requests = do {
     r \<leftarrow> timeout_read (\<lambda>now. get_short_requests_on_deployments_with_ended_agreements now
       FREED_WINDOW_SECS FREED_BATCH_SIZE);
     case r of Ok qs \<Rightarrow> reassess_all qs | Err _ \<Rightarrow> State_Monad.return () | Elapsed \<Rightarrow> State_Monad.return () }"

definition failed_attempts :: "chain_client_error \<Rightarrow> u32" where
  "failed_attempts err = (case err of
       TxDropped _ receipt_checked \<Rightarrow> if receipt_checked then 1 else 0
     | MissingTermsVersionHash \<Rightarrow> MAX_CANCEL_ATTEMPTS
     | _ \<Rightarrow> 1)"

definition note_check :: "cancelling_agreement \<Rightarrow> chain_client_error option \<Rightarrow> bool option \<Rightarrow> unit prog" where
  "note_check row failure ended = do {
     let attempts = (case failure of None \<Rightarrow> 0 | Some err \<Rightarrow> failed_attempts err);
     _ \<leftarrow> await (\<lambda>now. record_cancel_check now (ia_id (ca_agreement row)) attempts ended);
     State_Monad.return () }"

definition record_end_by_indexer :: "agreement_config \<Rightarrow> indexing_agreement \<Rightarrow> bool prog" where
  "record_end_by_indexer cfg a = do {
     t \<leftarrow> now_secs;
     audited \<leftarrow> await (\<lambda>_. record_cancel_audit (ia_id a) t (ag_show_address cfg (ia_indexer_id a)) None);
     case audited of
       Inl _ \<Rightarrow> State_Monad.return False
     | Inr _ \<Rightarrow> do {
         marked \<leftarrow> await (\<lambda>now. apply_reconciliation now (ia_id a) False (Some ByIndexer));
         State_Monad.return (case marked of Inl _ \<Rightarrow> False | Inr _ \<Rightarrow> True) } }"

definition seen_past_grace :: "timestamp option \<Rightarrow> bool prog" where
  "seen_past_grace seen_at = (case seen_at of
       None \<Rightarrow> State_Monad.return False
     | Some seen \<Rightarrow> do { now \<leftarrow> clock; State_Monad.return (seen < now - LISTENER_GRACE) })"

definition confirm_if_over :: "agreement_config \<Rightarrow> cancelling_agreement \<Rightarrow> b256 option \<Rightarrow> bool \<Rightarrow> u64 option \<Rightarrow> bool prog" where
  "confirm_if_over cfg row tx_hash by_indexer chain_now = do {
     let a = ca_agreement row;
     past_grace \<leftarrow> seen_past_grace (ca_ended_seen_at row);
     let can_confirm = (if ca_accepted_on_chain row then tx_hash \<noteq> None \<or> past_grace
           else (case chain_now of None \<Rightarrow> False | Some now \<Rightarrow> now > t_deadline (ia_terms a)));
     if \<not> can_confirm then State_Monad.return False
     else if by_indexer then
       (if past_grace then record_end_by_indexer cfg a else State_Monad.return False)
     else confirm_cancelled cfg a (if ca_abandoned row then Abandoned else NotWanted) tx_hash }"

text \<open>The last steps of \<open>retry_cancel\<close>: confirm what did not fail, or note the check.\<close>

definition settle_cancel :: "agreement_config \<Rightarrow> cancelling_agreement \<Rightarrow> u64 option \<Rightarrow> b256 option \<Rightarrow> bool \<Rightarrow>
    chain_client_error option \<Rightarrow> unit prog" where
  "settle_cancel cfg row chain_now tx_hash by_indexer failure = do {
     confirmed \<leftarrow> (if failure = None then confirm_if_over cfg row tx_hash by_indexer chain_now
       else State_Monad.return False);
     if confirmed then State_Monad.return () else note_check row failure (Some (failure = None)) }"

definition retry_cancel :: "agreement_config \<Rightarrow> cancelling_agreement \<Rightarrow> u64 option \<Rightarrow> unit prog" where
  "retry_cancel cfg row chain_now = do {
     found \<leftarrow> cancel_if_live cfg (ca_agreement row);
     case found of
       ReadFailed _ \<Rightarrow> note_check row None None
     | NothingLive by_indexer \<Rightarrow> settle_cancel cfg row chain_now None by_indexer None
     | CancelEnded tx_hash \<Rightarrow> settle_cancel cfg row chain_now tx_hash False None
     | CancelFailed err \<Rightarrow> settle_cancel cfg row chain_now None False (Some err)
     | Unconfirmed _ _ \<Rightarrow> note_check row None None }"

definition chain_time :: "u64 option prog" where
  "chain_time = do {
     r \<leftarrow> chain_read cc_latest_block_timestamp;
     State_Monad.return (case r of Inr now \<Rightarrow> Some now | Inl _ \<Rightarrow> None) }"

text \<open>The loop over the batch, left once the budget of the sweep is spent.\<close>

fun retry_batch :: "agreement_config \<Rightarrow> u64 option \<Rightarrow> timestamp \<Rightarrow> cancelling_agreement list \<Rightarrow> unit prog" where
  "retry_batch cfg chain_now started [] = State_Monad.return ()"
| "retry_batch cfg chain_now started (row # rows) = do {
     now \<leftarrow> look mv_now;
     if now - started \<ge> SWEEP_BUDGET then State_Monad.return ()
     else do { _ \<leftarrow> retry_cancel cfg row chain_now; retry_batch cfg chain_now started rows } }"

definition retry_cancelling_agreements :: "agreement_config \<Rightarrow> unit prog" where
  "retry_cancelling_agreements cfg = do {
     r \<leftarrow> await_read (\<lambda>now. get_cancelling_agreements now BATCH_SIZE MAX_CANCEL_ATTEMPTS SETTLE_MINUTES);
     case r of
       Inl _ \<Rightarrow> State_Monad.return ()
     | Inr rows \<Rightarrow>
         if rows = [] then State_Monad.return ()
         else do {
           chain_now \<leftarrow> (if \<exists>row \<in> set rows. \<not> ca_accepted_on_chain row then chain_time
             else State_Monad.return None);
           started \<leftarrow> look mv_now;
           retry_batch cfg chain_now started rows } }"

definition cancel_retry_sweep :: "agreement_config \<Rightarrow> unit prog" where
  "cancel_retry_sweep cfg = do {
     _ \<leftarrow> retry_cancelling_agreements cfg;
     _ \<leftarrow> replace_ended_abandoned;
     reassess_freed_requests }"

section \<open>What a sweep guarantees\<close>

text \<open>The listener had its hour: a check had seen the end more than that before a time the clock showed.\<close>

definition grace_over :: "timestamp \<Rightarrow> timestamp option \<Rightarrow> move list \<Rightarrow> bool" where
  "grace_over t0 seen_at p \<longleftrightarrow> (\<exists>seen now. seen_at = Some seen \<and> clock_showed t0 now p \<and> seen < now - LISTENER_GRACE)"

lemma lasting_grace_over [lasting_rules]: "lasting (\<lambda>w. grace_over t0 seen_at (w_past w))"
  unfolding grace_over_def by (intro lasting_rules)

text \<open>
  The agreement cannot go live again: once accepted, a cancel of it was mined or the grace is over;
  never accepted, the chain's own time is past the deadline to accept it.
\<close>

definition over :: "timestamp \<Rightarrow> cancelling_agreement \<Rightarrow> move list \<Rightarrow> bool" where
  "over t0 row p \<longleftrightarrow>
     (if ca_accepted_on_chain row
      then (\<exists>tx. cancel_mined (ia_id (ca_agreement row)) (Some tx) p) \<or> grace_over t0 (ca_ended_seen_at row) p
      else \<exists>ts. chain_said cc_latest_block_timestamp ts p \<and> ts > t_deadline (ia_terms (ca_agreement row)))"

lemma lasting_over [lasting_rules]: "lasting (\<lambda>w. over t0 row (w_past w))"
  unfolding over_def by (cases "ca_accepted_on_chain row") (auto intro!: lasting_rules)

text \<open>A sweep may end the agreement with status \<open>s\<close>.\<close>

definition may_end :: "registry \<Rightarrow> timestamp \<Rightarrow> agreement_id \<Rightarrow> agreement_status \<Rightarrow> move list \<Rightarrow> bool" where
  "may_end db0 t0 i s p \<longleftrightarrow> (\<exists>db r. registry_step\<^sup>*\<^sup>* db0 db \<and> r \<in> set (agreements db) \<and> a_id r = i \<and>
     a_status r = Cancelling \<and> over t0 (cancelling_from_row r) p \<and>
     (s = ended_status (if a_abandoned r then Abandoned else NotWanted) \<and> shown i NotLive p \<or>
      s = CanceledByIndexer \<and> shown i EndedByIndexer p \<and> grace_over t0 (a_ended_seen_at r) p))"

text \<open>A background reassessment of a request on record.\<close>

definition request_reassessed :: "registry \<Rightarrow> message job_builder \<Rightarrow> bool" where
  "request_reassessed db b \<longleftrightarrow> (\<exists>q \<in> set (requests db). \<exists>n. b =
     reassess_indexing_request_job (r_id q) (r_deployment_id q) (r_deployment_chain_id q) n Background)"

definition retry_guarantee :: "registry \<Rightarrow> timestamp \<Rightarrow> guarantee" where
  "retry_guarantee db0 t0 = \<lparr>
     g_write = (\<lambda>p. status_moves (\<lambda>r r'. may_end db0 t0 (a_id r) (a_status r') p)),
     g_push = (\<lambda>_ db b. (\<exists>r \<in> set (agreements db). a_status r \<in> set ending \<and> reassessment_of r b) \<or>
       request_reassessed db b),
     g_send = (\<lambda>p db tx. \<exists>i. marked_cancel i p db tx)\<rparr>"

lemma retry_writes:
  "status_moves (\<lambda>r r'. a_id r = i \<and> a_status r' = s) db db' \<Longrightarrow> may_end db0 t0 i s p \<Longrightarrow>
    g_write (retry_guarantee db0 t0) p db db'"
  "status_moves (\<lambda>_ _. False) db db' \<Longrightarrow> g_write (retry_guarantee db0 t0) p db db'"
  by (auto simp: retry_guarantee_def status_moves_def)

lemma ended_by_indexer_moves:
  assumes "reg_inv db" and "apply_reconciliation now i False (Some ByIndexer) db = Inr (x, db')"
  shows "status_moves (\<lambda>r r'. a_id r = i \<and> a_status r' = CanceledByIndexer) db db'"
proof -
  let ?Q = "\<lambda>r. a_id r = i \<and> a_status r \<in> set CANCEL_BY_INDEXER_FROM"
  from assms(2) have "db' = db\<lparr>agreements := sql_update ?Q
      (\<lambda>r. r\<lparr>a_status := CanceledByIndexer, a_updated_at := now\<rparr>) (agreements db)\<rparr>"
    by (auto simp: apply_reconciliation_def apply_cancel_def batch_apply_cancel_def batch_update_status_from_def
        batch_set_status_def tx_bind_def update_status_def Let_def sql_returning_def split: if_splits sum.splits)
  then show ?thesis by (auto intro!: status_moves_update simp: assms(1))
qed

text \<open>What is known of an agreement whose cancel is retried.\<close>

definition retried :: "registry \<Rightarrow> timestamp \<Rightarrow> cancelling_agreement \<Rightarrow> u64 option \<Rightarrow> world \<Rightarrow> bool" where
  "retried db0 t0 row chain_now w \<longleftrightarrow>
     (\<exists>db r. registry_step\<^sup>*\<^sup>* db0 db \<and> r \<in> set (agreements db) \<and> a_status r = Cancelling \<and> row = cancelling_from_row r) \<and>
     marked (ca_agreement row) (w_db w) \<and> clock_showed t0 (w_now w) (w_past w) \<and>
     (\<forall>ts. chain_now = Some ts \<longrightarrow> chain_said cc_latest_block_timestamp ts (w_past w))"

lemma lasting_retried [lasting_rules]: "lasting (retried db0 t0 row chain_now)"
  unfolding retried_def by (intro lasting_rules)

lemma may_end_retried:
  assumes "retried db0 t0 row chain_now w" and "over t0 row p"
  shows "shown (ia_id (ca_agreement row)) NotLive p \<Longrightarrow>
      may_end db0 t0 (ia_id (ca_agreement row)) (ended_status (if ca_abandoned row then Abandoned else NotWanted)) p"
    "shown (ia_id (ca_agreement row)) EndedByIndexer p \<Longrightarrow> grace_over t0 (ca_ended_seen_at row) p \<Longrightarrow>
      may_end db0 t0 (ia_id (ca_agreement row)) CanceledByIndexer p"
proof -
  from assms(1) obtain db r where r: "registry_step\<^sup>*\<^sup>* db0 db" "r \<in> set (agreements db)" "a_status r = Cancelling"
    "row = cancelling_from_row r" by (auto simp: retried_def)
  then have row: "ia_id (ca_agreement row) = a_id r" "ca_abandoned row = a_abandoned r" "ca_ended_seen_at row = a_ended_seen_at r"
    by (simp_all add: cancelling_from_row_def agreement_from_row_def)
  from r assms(2) have "over t0 (cancelling_from_row r) p" by simp
  with r(1-3) show "shown (ia_id (ca_agreement row)) NotLive p \<Longrightarrow>
      may_end db0 t0 (ia_id (ca_agreement row)) (ended_status (if ca_abandoned row then Abandoned else NotWanted)) p"
    "shown (ia_id (ca_agreement row)) EndedByIndexer p \<Longrightarrow> grace_over t0 (ca_ended_seen_at row) p \<Longrightarrow>
      may_end db0 t0 (ia_id (ca_agreement row)) CanceledByIndexer p"
    unfolding may_end_def row by blast+
qed

lemma safe_note_check: "lasting K \<Longrightarrow> safe (retry_guarantee db0 t0) K (note_check row failure ended)"
  unfolding note_check_def Let_def
  by (intro safe_rules registry_writes) (auto intro!: retry_writes(2) column_writes_move_nothing(1))

lemma safe_record_end_by_indexer:
  assumes "lasting K" and "\<And>w. K w \<Longrightarrow> may_end db0 t0 (ia_id a) CanceledByIndexer (w_past w)"
  shows "safe (retry_guarantee db0 t0) K (record_end_by_indexer cfg a)"
  unfolding record_end_by_indexer_def
  by (intro safe_rules registry_writes assms(1))
    (auto intro: retry_writes(2) [OF cancel_audit_moves] retry_writes(1) [OF ended_by_indexer_moves] assms(2))

lemma ensures_seen_past_grace:
  assumes "lasting K" and "\<And>w. K w \<Longrightarrow> clock_showed t0 (w_now w) (w_past w)"
  shows "ensures G K (seen_past_grace seen_at) (\<lambda>b w. b \<longrightarrow> grace_over t0 seen_at (w_past w))"
proof (cases seen_at)
  case (Some seen)
  have "ensures G K clock (\<lambda>now w. clock_showed t0 now (w_past w))"
    by (rule ensures_clock [OF assms(1)]) (auto simp: assms(2))
  then show ?thesis
    unfolding seen_past_grace_def Some option.case
    by (rule ensures_bind) (auto intro!: ensures_return assms(1) simp: grace_over_def)
qed (auto simp: seen_past_grace_def intro: ensures_return)

text \<open>What \<open>cancel_if_live\<close> found, as \<open>confirm_if_over\<close> is told of it.\<close>

definition told :: "indexing_agreement \<Rightarrow> b256 option \<Rightarrow> bool \<Rightarrow> move list \<Rightarrow> bool" where
  "told a tx_hash by_indexer p \<longleftrightarrow> shown (ia_id a) (if by_indexer then EndedByIndexer else NotLive) p \<and>
     (tx_hash \<noteq> None \<longrightarrow> cancel_mined (ia_id a) tx_hash p)"

lemma lasting_told [lasting_rules]: "lasting (\<lambda>w. told a tx_hash by_indexer (w_past w))"
  unfolding told_def by (intro lasting_rules)

lemma safe_confirm_if_over:
  "safe (retry_guarantee db0 t0) (\<lambda>w. retried db0 t0 row chain_now w \<and> told (ca_agreement row) tx_hash by_indexer (w_past w))
    (confirm_if_over cfg row tx_hash by_indexer chain_now)"
    (is "safe ?G ?K _")
proof -
  have K: "lasting ?K" by (intro lasting_rules)
  have grace: "ensures ?G ?K (seen_past_grace (ca_ended_seen_at row))
      (\<lambda>b w. b \<longrightarrow> grace_over t0 (ca_ended_seen_at row) (w_past w))"
    by (rule ensures_seen_past_grace [OF K]) (simp add: retried_def)
  let ?can = "\<lambda>past_grace. if ca_accepted_on_chain row then tx_hash \<noteq> None \<or> past_grace
    else (case chain_now of None \<Rightarrow> False | Some now \<Rightarrow> now > t_deadline (ia_terms (ca_agreement row)))"
  have is_over: "over t0 row (w_past w)"
    if "?can past_grace" "?K w \<and> (past_grace \<longrightarrow> grace_over t0 (ca_ended_seen_at row) (w_past w))" for past_grace w
    using that by (auto simp: over_def told_def retried_def split: if_splits option.splits)
  show ?thesis
    unfolding confirm_if_over_def Let_def
  proof (intro safe_after [OF grace K] safe_if safe_return)
    fix past_grace
    let ?K' = "\<lambda>w. ?K w \<and> (past_grace \<longrightarrow> grace_over t0 (ca_ended_seen_at row) (w_past w))"
    have K': "lasting ?K'" by (intro lasting_rules)
    assume can: "\<not> \<not> ?can past_grace"
    show "safe ?G ?K' (record_end_by_indexer cfg (ca_agreement row))" if "by_indexer" past_grace
      using that can is_over by (intro safe_record_end_by_indexer K') (auto simp: told_def intro!: may_end_retried(2))
    show "safe ?G ?K' (confirm_cancelled cfg (ca_agreement row) (if ca_abandoned row then Abandoned else NotWanted) tx_hash)"
      if "\<not> by_indexer"
    proof (rule safe_confirm_cancelled [OF K'])
      fix w :: world and db'
      assume w: "?K' w" and moves: "status_moves (\<lambda>r r'. a_id r = ia_id (ca_agreement row) \<and>
        a_status r' = ended_status (if ca_abandoned row then Abandoned else NotWanted)) (w_db w) db'"
      from w that have "shown (ia_id (ca_agreement row)) NotLive (w_past w)" by (simp add: told_def)
      from retry_writes(1) [OF moves may_end_retried(1) [OF conjunct1 [OF conjunct1 [OF w]] is_over [OF _ w] this]] can
      show "g_write ?G (w_past w) (w_db w) db'" by blast
    qed
  qed
qed

lemma safe_settle_cancel:
  assumes "lasting K" and "\<And>w. K w \<Longrightarrow> retried db0 t0 row chain_now w"
    and "\<And>w. failure = None \<Longrightarrow> K w \<Longrightarrow> told (ca_agreement row) tx_hash by_indexer (w_past w)"
  shows "safe (retry_guarantee db0 t0) K (settle_cancel cfg row chain_now tx_hash by_indexer failure)"
proof -
  have "safe (retry_guarantee db0 t0) K (confirm_if_over cfg row tx_hash by_indexer chain_now)" if "failure = None"
    by (rule safe_weaken [OF safe_confirm_if_over]) (use assms(2) assms(3) [OF that] in blast)
  then show ?thesis
    unfolding settle_cancel_def by (intro safe_bind safe_if safe_return safe_note_check assms(1))
qed

lemma safe_retry_cancel:
  "safe (retry_guarantee db0 t0) (retried db0 t0 row chain_now) (retry_cancel cfg row chain_now)"
    (is "safe ?G ?K _")
proof -
  have K: "lasting ?K" by (intro lasting_rules)
  have found: "ensures ?G ?K (cancel_if_live cfg (ca_agreement row)) (\<lambda>x w. cancel_found (ca_agreement row) x (w_past w))"
    by (rule ensures_cancel_if_live [OF K]) (auto simp: retried_def retry_guarantee_def)
  show ?thesis
    unfolding retry_cancel_def
  proof (rule safe_after [OF found K])
    fix x
    let ?K' = "\<lambda>w. ?K w \<and> cancel_found (ca_agreement row) x (w_past w)"
    have K': "lasting ?K'" by (intro lasting_rules)
    show "safe ?G ?K' (case x of ReadFailed _ \<Rightarrow> note_check row None None
     | NothingLive by_indexer \<Rightarrow> settle_cancel cfg row chain_now None by_indexer None
     | CancelEnded tx_hash \<Rightarrow> settle_cancel cfg row chain_now tx_hash False None
     | CancelFailed err \<Rightarrow> settle_cancel cfg row chain_now None False (Some err)
     | Unconfirmed _ _ \<Rightarrow> note_check row None None)"
    proof (cases x)
      case (NothingLive by_indexer)
      show ?thesis
        unfolding NothingLive live_cancel.case
        by (rule safe_settle_cancel [OF K' [unfolded NothingLive]]) (cases by_indexer; auto simp: told_def)+
    next
      case (CancelEnded tx_hash)
      show ?thesis
        unfolding CancelEnded live_cancel.case
        by (rule safe_settle_cancel [OF K' [unfolded CancelEnded]]) (auto simp: told_def)
    next
      case (CancelFailed err)
      show ?thesis
        unfolding CancelFailed live_cancel.case
        by (rule safe_settle_cancel [OF K' [unfolded CancelFailed]]) auto
    qed (simp_all add: safe_note_check K)
  qed
qed

lemma safe_retry_batch:
  "safe (retry_guarantee db0 t0) (\<lambda>w. \<forall>row \<in> set rows. retried db0 t0 row chain_now w) (retry_batch cfg chain_now started rows)"
proof (induction rows)
  case (Cons row rows)
  let ?G = "retry_guarantee db0 t0" and ?K = "\<lambda>w. \<forall>r \<in> set (row # rows). retried db0 t0 r chain_now w"
  have "safe ?G ?K (retry_cancel cfg row chain_now)" by (rule safe_weaken [OF safe_retry_cancel]) simp
  moreover have "safe ?G ?K (retry_batch cfg chain_now started rows)" by (rule safe_weaken [OF Cons.IH]) simp
  ultimately show ?case
    unfolding retry_batch.simps by (intro safe_bind [OF safe_look] safe_bind safe_if safe_return lasting_rules)
qed (simp add: safe_return)

lemma ensures_chain_time:
  "lasting K \<Longrightarrow> ensures G K chain_time
    (\<lambda>t w. \<forall>ts. t = Some ts \<longrightarrow> chain_said cc_latest_block_timestamp ts (w_past w))"
  unfolding chain_time_def
  by (rule ensures_bind [OF ensures_chain_read [where q = cc_latest_block_timestamp and
      F = "\<lambda>x w. \<forall>ts. x = Inr ts \<longrightarrow> chain_said cc_latest_block_timestamp ts (w_past w)"]])
    (auto simp: quiet_def intro!: ensures_return split: sum.splits)

lemma cancelling_rows:
  assumes "reg_inv db" and "get_cancelling_agreements now n m k db = Inr rows" and "row \<in> set rows"
  shows "\<exists>r \<in> set (agreements db). a_status r = Cancelling \<and> row = cancelling_from_row r"
    "marked (ca_agreement row) db"
proof -
  from assms(2,3) show row: "\<exists>r \<in> set (agreements db). a_status r = Cancelling \<and> row = cancelling_from_row r"
    by (auto simp: get_cancelling_agreements_def map_rows_Inr sql_limit_Inr cancel_due_def dest!: in_set_takeD)
  then show "marked (ca_agreement row) db"
    unfolding marked_def by (force simp: cancelling_from_row_def ending_def read_from_row)
qed

text \<open>The rows of a batch, as read.\<close>

definition cancels_read :: "registry \<Rightarrow> cancelling_agreement list \<Rightarrow> bool" where
  "cancels_read db0 rows \<longleftrightarrow> (\<forall>row \<in> set rows. \<exists>db r. registry_step\<^sup>*\<^sup>* db0 db \<and> r \<in> set (agreements db) \<and>
     a_status r = Cancelling \<and> row = cancelling_from_row r)"

abbreviation sweep_start :: "registry \<Rightarrow> timestamp \<Rightarrow> world \<Rightarrow> bool" where
  "sweep_start db0 t0 w \<equiv> registry_step\<^sup>*\<^sup>* db0 (w_db w) \<and> clock_showed t0 (w_now w) (w_past w)"

lemma safe_retry_cancelling_agreements:
  "safe (retry_guarantee db0 t0) (sweep_start db0 t0) (retry_cancelling_agreements cfg)"
    (is "safe ?G ?K _")
  unfolding retry_cancelling_agreements_def
proof (rule safe_then_await_read [where C = "cancels_read db0"
      and F = "\<lambda>rows w. \<forall>row \<in> set rows. marked (ca_agreement row) (w_db w)"])
  fix rows
  assume rows: "cancels_read db0 rows"
  let ?K' = "\<lambda>w. ?K w \<and> (\<forall>row \<in> set rows. marked (ca_agreement row) (w_db w))"
  have K': "lasting ?K'" by (intro lasting_rules)
  let ?time = "if \<exists>row \<in> set rows. \<not> ca_accepted_on_chain row then chain_time else State_Monad.return None"
  have time: "ensures ?G ?K' ?time (\<lambda>t w. \<forall>ts. t = Some ts \<longrightarrow> chain_said cc_latest_block_timestamp ts (w_past w))"
    by (intro ensures_if ensures_chain_time K' ensures_return) simp
  have batch: "safe ?G (\<lambda>w. ?K' w \<and> (\<forall>ts. t = Some ts \<longrightarrow> chain_said cc_latest_block_timestamp ts (w_past w)))
      (retry_batch cfg t started rows)" for t started
    by (rule safe_weaken [OF safe_retry_batch]) (use rows in \<open>auto simp: retried_def cancels_read_def\<close>)
  show "safe ?G ?K' (case Inr rows of Inl _ \<Rightarrow> State_Monad.return ()
     | Inr rows \<Rightarrow> if rows = [] then State_Monad.return ()
         else do {
           chain_now \<leftarrow> (if \<exists>row \<in> set rows. \<not> ca_accepted_on_chain row then chain_time
             else State_Monad.return None);
           started \<leftarrow> look mv_now;
           retry_batch cfg chain_now started rows })"
    unfolding sum.case
    by (intro safe_if safe_return safe_after [OF time K'] safe_bind [OF safe_look] batch lasting_rules)
next
  fix now and w :: world and rows
  assume w: "reg_inv (w_db w)" "?K w" and q: "get_cancelling_agreements now BATCH_SIZE MAX_CANCEL_ATTEMPTS SETTLE_MINUTES (w_db w) = Inr rows"
  from cancelling_rows [OF w(1) q] w(2)
  show "cancels_read db0 rows \<and> (\<forall>row \<in> set rows. marked (ca_agreement row) (w_db w))"
    unfolding cancels_read_def by blast
qed (auto intro!: lasting_rules safe_return)

lemma safe_replace_all:
  "safe (retry_guarantee db0 t0) (\<lambda>w. \<forall>a \<in> set as. marked a (w_db w)) (replace_all as)"
proof (induction as)
  case (Cons a as)
  let ?G = "retry_guarantee db0 t0" and ?K = "\<lambda>w. \<forall>b \<in> set (a # as). marked b (w_db w)"
  have K: "lasting ?K" by (intro lasting_rules)
  have "safe ?G ?K (replace_abandoned a)"
    by (rule safe_replace_abandoned [OF K]) (auto simp: retry_guarantee_def status_moves_def)
  moreover have "safe ?G ?K (replace_all as)" by (rule safe_weaken [OF Cons.IH]) simp
  ultimately show ?case
    unfolding replace_all.simps by (intro safe_bind K)
qed (simp add: safe_return)

lemma awaiting_replacement_marked:
  assumes "reg_inv db" and "get_ended_agreements_awaiting_replacement n db = Inr as" and "a \<in> set as"
  shows "marked a db"
proof -
  from assms(2,3) obtain r where r: "r \<in> set (agreements db)" "a_replacement_pending r" "a = agreement_from_row r"
    by (auto simp: get_ended_agreements_awaiting_replacement_def map_rows_Inr sql_limit_Inr dest!: in_set_takeD)
  with assms(1) have "a_status r \<in> set ending" by (auto simp: reg_inv_def row_inv_def list_all_iff)
  with r show ?thesis unfolding marked_def using read_from_row by blast
qed

lemma safe_replace_ended_abandoned: "lasting K \<Longrightarrow> safe (retry_guarantee db0 t0) K replace_ended_abandoned"
  unfolding replace_ended_abandoned_def
  by (rule safe_then_await_read [where C = "\<lambda>_. True" and F = "\<lambda>as w. \<forall>a \<in> set as. marked a (w_db w)"])
    (auto intro: lasting_rules safe_return awaiting_replacement_marked safe_weaken [OF safe_replace_all])

text \<open>A request read stays on record under its id and deployment.\<close>

definition request_known :: "registry \<Rightarrow> indexing_request \<Rightarrow> bool" where
  "request_known db q \<longleftrightarrow> (\<exists>r \<in> set (requests db). r_id r = ir_id q \<and> r_deployment_id r = ir_deployment_id q \<and>
     r_deployment_chain_id r = ir_deployment_chain_id q)"

lemma lasting_request_known [lasting_rules]: "lasting (\<lambda>w. request_known (w_db w) q)"
proof (rule lasting_step)
  fix db db'
  assume db: "reg_inv db" "registry_step db db'" and "request_known db q"
  then obtain r where r: "r \<in> set (requests db)" "r_id r = ir_id q" "r_deployment_id r = ir_deployment_id q"
      "r_deployment_chain_id r = ir_deployment_chain_id q"
    by (auto simp: request_known_def)
  from registry_system.step_grows [OF db] have "extends request_step (requests db) (requests db')" by (simp add: evolves_def)
  from extends_memD [OF this r(1)] r(2-4) show "request_known db' q"
    by (force simp: request_known_def request_step_def request_key_def)
qed

lemma safe_reassess_all:
  "safe (retry_guarantee db0 t0) (\<lambda>w. \<forall>q \<in> set qs. request_known (w_db w) q) (reassess_all qs)"
proof (induction qs)
  case (Cons q qs)
  let ?G = "retry_guarantee db0 t0" and ?K = "\<lambda>w. \<forall>q \<in> set (q # qs). request_known (w_db w) q"
  have K: "lasting ?K" by (intro lasting_rules)
  have "safe ?G ?K (timeout_push (reassess_indexing_request_job (ir_id q) (ir_deployment_id q)
      (ir_deployment_chain_id q) (ir_num_candidates q) Background))"
    by (rule safe_timeout_push [OF K])
      (force simp: retry_guarantee_def request_reassessed_def request_known_def)
  moreover have "safe ?G ?K (reassess_all qs)" by (rule safe_weaken [OF Cons.IH]) simp
  ultimately show ?case
    unfolding reassess_all.simps by (intro safe_bind K)
qed (simp add: safe_return)

lemma short_requests_known:
  assumes "get_short_requests_on_deployments_with_ended_agreements now s n db = Inr qs" and "q \<in> set qs"
  shows "request_known db q"
  using assms by (auto simp: get_short_requests_on_deployments_with_ended_agreements_def map_rows_Inr sql_limit_Inr
      request_known_def request_from_row_def dest!: in_set_takeD)

lemma safe_reassess_freed_requests: "lasting K \<Longrightarrow> safe (retry_guarantee db0 t0) K reassess_freed_requests"
  unfolding reassess_freed_requests_def
  by (rule safe_then_timeout_read [where C = "\<lambda>_. True" and F = "\<lambda>qs w. \<forall>q \<in> set qs. request_known (w_db w) q"])
    (auto intro: lasting_rules safe_return short_requests_known safe_weaken [OF safe_reassess_all])

interpretation retry_service: service "retry_guarantee db0 t0" "sweep_start db0 t0" "cancel_retry_sweep cfg" for db0 t0 cfg
proof unfold_locales
  show "safe (retry_guarantee db0 t0) (sweep_start db0 t0) (cancel_retry_sweep cfg)"
    unfolding cancel_retry_sweep_def
    by (intro safe_bind [OF safe_retry_cancelling_agreements] safe_bind safe_replace_ended_abandoned
        safe_reassess_freed_requests lasting_rules)
qed


lemma sample_cancelling: "reachable (sample_registry Cancelling)"
proof -
  have "mark_indexing_agreement_as_cancelling 0 sample_id (sample_registry Created) = Inr ((), sample_registry Cancelling)"
    by (simp add: mark_indexing_agreement_as_cancelling_def set_status_from_def update_status_from_def
        batch_update_status_from_def batch_set_status_def tx_bind_def update_status_def unique_active_def Let_def
        active_def sql_returning_def sample_defs)
  then have "registry_step (sample_registry Created) (sample_registry Cancelling)" by (rule registry_step.intros)
  with sample_created show ?thesis by (rule reachable_step)
qed

text \<open>Three days on, the deadline of the offer has passed.\<close>

definition sample_sweep :: world where
  "sample_sweep = sample_world (sample_registry Cancelling)
     (map (\<lambda>s. (sample_move s)\<lparr>mv_now := secs 300000\<rparr>) [NotLive, NotLive, NotLive, NotLive, NotLive])"

lemma sample_retried: "map (\<lambda>(p, db, db'). map a_status (agreements db'))
    (own_writes (snd (run_state (cancel_retry_sweep sample_config) sample_sweep))) = [[CanceledByRequester]]"
  by (simp add: sample_sweep_def cancel_retry_sweep_def replace_ended_abandoned_def get_ended_agreements_awaiting_replacement_def
      reassess_freed_requests_def get_short_requests_on_deployments_with_ended_agreements_def FREED_BATCH_SIZE_def
      retry_cancelling_agreements_def await_read_def timeout_read_def Let_def
      sample_world_def next_move_def elapse_def sample_move_def quiet_def no_timeout_def get_cancelling_agreements_def map_rows_def
      sql_limit_def cancel_due_def BATCH_SIZE_def MAX_CANCEL_ATTEMPTS_def SETTLE_MINUTES_def least_i32_def i32_max_def mins_def chain_time_def chain_read_def
      look_def retry_cancel_def cancel_if_live_def read_on_chain_def settle_cancel_def confirm_if_over_def seen_past_grace_def
      confirm_cancelled_def mark_ended_def await_def timeout_await_def SWEEP_BUDGET_def cancelling_from_row_def agreement_from_row_def
      mark_indexing_agreement_as_canceled_by_requester_def set_status_from_def update_status_from_def CANCEL_BY_REQUESTER_FROM_def
      batch_update_status_from_def batch_set_status_def tx_bind_def update_status_def unique_active_def active_def secs_def
      sql_returning_def sample_defs)


end
