(* ===== verification/Rpc_Pool.thy ===== *)
theory Rpc_Pool
  imports Outside "HOL-Library.Sublist"
begin

text \<open>
  \<open>chain_client/rpc_provider.rs\<close>: several RPC endpoints used as one. A call asks the endpoints in
  turn, each again after a pause while its failures are worth another try. What an endpoint answers,
  how long it takes and what else happens meanwhile is a parameter, the call \<open>f\<close> run on an
  environment that holds the time and the index the calls share. A \<open>Duration\<close> and an \<open>Instant\<close>
  are numbers of nanoseconds. Text is ASCII where \<open>to_lowercase\<close> reads it.
\<close>

section \<open>Durations\<close>

type_synonym duration = nat

definition from_secs :: "nat \<Rightarrow> duration" where "from_secs n = n * 1000000000"
definition from_millis :: "nat \<Rightarrow> duration" where "from_millis n = n * 1000000"

text \<open>The longest \<open>Duration\<close>; arithmetic that would pass it panics.\<close>

definition DURATION_MAX :: duration where
  "DURATION_MAX = from_secs (2 ^ 64 - 1) + 999999999"

definition checked_duration :: "duration \<Rightarrow> duration option" where
  "checked_duration d = (if d \<le> DURATION_MAX then Some d else None)"

section \<open>Text\<close>

definition to_lowercase :: "string \<Rightarrow> string" where
  "to_lowercase = map (\<lambda>c. let n = (of_char c :: nat) in if 65 \<le> n \<and> n \<le> 90 then char_of (n + 32) else c)"

definition str_contains :: "string \<Rightarrow> string \<Rightarrow> bool" where
  "str_contains s p \<longleftrightarrow> sublist p s"

text \<open>\<open>str::replace\<close> for a pattern that is not empty: each match from the left, none overlapping.\<close>

function str_replace :: "string \<Rightarrow> string \<Rightarrow> string \<Rightarrow> string" where
  "str_replace pat by_text s =
     (case s of
        [] \<Rightarrow> []
      | c # cs \<Rightarrow>
          if pat \<noteq> [] \<and> prefix pat s then by_text @ str_replace pat by_text (drop (length pat) s)
          else c # str_replace pat by_text cs)"
  by pat_completeness auto
termination
  by (relation "measure (\<lambda>(pat, by_text, s). length s)") auto

declare str_replace.simps [simp del]

definition trim_end_slashes :: "string \<Rightarrow> string" where
  "trim_end_slashes s = rev (dropWhile (\<lambda>c. c = CHR ''/'') (rev s))"

fun decimal :: "nat \<Rightarrow> string" where
  "decimal n = (if n < 10 then [char_of (48 + n)] else decimal (n div 10) @ [char_of (48 + n mod 10)])"

declare decimal.simps [simp del]

section \<open>Errors of a call\<close>

text \<open>
  What the code reads of a \<open>TransportError\<close>: its text, the status of an HTTP error, whether a
  JSON-RPC error is one worth a retry, the revert data such an error carries, and the client error
  boxed in it.
\<close>

datatype client_error =
    SubmitError string
  | ClientConfigError string
  | ClientRpcError string
  | Dropped b256 bool
  | Reverted b256
  | RevertedWith "u8 list" "u8 list"

record transport_error =
  te_text :: string
  te_http_status :: "u16 option"
  te_retry_err :: bool
  te_revert_data :: "u8 list option"
  te_boxed :: "client_error option"

definition custom_str :: "string \<Rightarrow> transport_error" where
  "custom_str s = \<lparr>te_text = s, te_http_status = None, te_retry_err = False, te_revert_data = None, te_boxed = None\<rparr>"

definition extract_chain_client_error :: "transport_error \<Rightarrow> client_error option" where
  "extract_chain_client_error e = te_boxed e"

text \<open>An endpoint's URL: its text, host and port.\<close>

record url =
  url_text :: string
  url_host :: "string option"
  url_port :: "u16 option"

definition endpoint_name :: "url \<Rightarrow> string" where
  "endpoint_name u = (case (url_host u, url_port u) of
       (Some host, Some port) \<Rightarrow> host @ '':'' @ decimal (unat port)
     | (Some host, None) \<Rightarrow> host
     | (None, _) \<Rightarrow> ''unnamed endpoint'')"

definition describe_failure :: "url \<Rightarrow> transport_error \<Rightarrow> string" where
  "describe_failure u e =
     str_replace (trim_end_slashes (url_text u)) (endpoint_name u)
       (str_replace (url_text u) (endpoint_name u) (te_text e))"

definition RETRYABLE_ERROR_PATTERNS :: "string list" where
  "RETRYABLE_ERROR_PATTERNS = [''header not found'', ''unknown block'', ''connection refused'', ''connection reset'',
     ''connection closed'', ''timeout'', ''timed out'', ''rate limit'', ''too many requests'', ''service unavailable'',
     ''bad gateway'', ''temporary internal error'']"

definition BEHIND_A_SEEN_BLOCK :: string where
  "BEHIND_A_SEEN_BLOCK = ''behind a block already seen''"

definition LAG_PAUSE :: duration where "LAG_PAUSE = from_millis 500"
definition LAG_RETRIES :: u32 where "LAG_RETRIES = 2"

definition is_behind :: "transport_error \<Rightarrow> bool" where
  "is_behind e \<longleftrightarrow> str_contains (te_text e) BEHIND_A_SEEN_BLOCK"

definition is_retryable :: "transport_error \<Rightarrow> bool" where
  "is_retryable e \<longleftrightarrow>
     (case te_http_status e of None \<Rightarrow> False | Some status \<Rightarrow> status \<ge> 500 \<or> status = 429) \<or>
     te_retry_err e \<or>
     (\<exists>p \<in> set RETRYABLE_ERROR_PATTERNS. str_contains (to_lowercase (te_text e)) p)"

definition saturating_mul :: "'a::len word \<Rightarrow> 'a word \<Rightarrow> 'a word" where
  "saturating_mul x y = (if uint x * uint y < 2 ^ LENGTH('a) then x * y else - 1)"

definition backoff_delay :: "u32 \<Rightarrow> duration" where
  "backoff_delay attempt =
     (let delay_ms = saturating_mul 1000 (push_bit (unat (min attempt 5)) (1 :: u64))
      in from_millis (unat (min delay_ms 30000)))"

section \<open>The pool\<close>

record rpc_pool =
  rp_providers :: "url list"
  rp_max_retries :: u32
  rp_worst_case_walk :: duration

text \<open>
  \<open>None\<close> is a panic: the longest walk does not fit a \<open>Duration\<close>. \<open>http_built\<close> is whether the HTTP
  client could be built.
\<close>

definition worst_case :: "duration \<Rightarrow> u32 \<Rightarrow> nat \<Rightarrow> duration option" where
  "worst_case request_timeout max_retries n =
     Option.bind (checked_duration (request_timeout * unat (max_retries + 1))) (\<lambda>asking.
     Option.bind (checked_duration (asking + sum_list (map (\<lambda>k. backoff_delay (of_nat k)) [0..<unat max_retries])))
       (\<lambda>one. checked_duration (one * unat (of_nat n :: u32))))"

definition rpc_pool_new :: "bool \<Rightarrow> url list \<Rightarrow> duration \<Rightarrow> u32 \<Rightarrow> (client_error + rpc_pool) option" where
  "rpc_pool_new http_built providers request_timeout max_retries =
     (if providers = [] then Some (Inl (ClientConfigError ''At least one RPC provider URL is required''))
      else if \<not> http_built then Some (Inl (ClientConfigError ''Failed to build HTTP client''))
      else map_option (\<lambda>walk. Inr \<lparr>rp_providers = providers, rp_max_retries = max_retries, rp_worst_case_walk = walk\<rparr>)
        (worst_case request_timeout max_retries (length providers)))"

definition endpoint_count :: "rpc_pool \<Rightarrow> nat" where
  "endpoint_count pool = length (rp_providers pool)"

text \<open>The answers to a cross-check in the order they come in; none for an endpoint that failed or was late.\<close>

definition latest_blocks :: "u64 option list \<Rightarrow> u64 list" where
  "latest_blocks answers = List.map_filter id answers"

record rpc_env =
  env_now :: nat
  env_index :: u64

definition sleep :: "duration \<Rightarrow> 'e rpc_env_scheme \<Rightarrow> 'e rpc_env_scheme" where
  "sleep d env = env\<lparr>env_now := env_now env + d\<rparr>"

definition rotate_pool :: "'e rpc_env_scheme \<Rightarrow> 'e rpc_env_scheme" where
  "rotate_pool env = env\<lparr>env_index := env_index env + 1\<rparr>"

definition url_at :: "rpc_pool \<Rightarrow> nat \<Rightarrow> url" where
  "url_at pool position = rp_providers pool ! (position mod length (rp_providers pool))"

type_synonym ('e, 'a) call = "nat \<Rightarrow> 'e rpc_env_scheme \<Rightarrow> (transport_error + 'a) \<times> 'e rpc_env_scheme"

text \<open>The attempts on one endpoint, from the given one to \<open>max_retries\<close>.\<close>

function ask_attempts :: "nat \<Rightarrow> u32 \<Rightarrow> ('e, 'a) call \<Rightarrow> nat \<Rightarrow> u32 \<Rightarrow> transport_error option \<Rightarrow>
    'e rpc_env_scheme \<Rightarrow> (transport_error + 'a) \<times> 'e rpc_env_scheme" where
  "ask_attempts position max_retries f attempt lag_retries endpoint_error env =
     (if attempt > unat max_retries
      then (Inl (case endpoint_error of Some e \<Rightarrow> e | None \<Rightarrow> custom_str ''no attempt was made''), env)
      else case f position env of
        (Inr result, env') \<Rightarrow> (Inr result, env')
      | (Inl e, env') \<Rightarrow>
          if is_behind e \<and> lag_retries < LAG_RETRIES \<and> attempt < unat max_retries
          then ask_attempts position max_retries f (attempt + 1) (lag_retries + 1) (Some e) (sleep LAG_PAUSE env')
          else if is_retryable e \<and> attempt < unat max_retries
          then ask_attempts position max_retries f (attempt + 1) lag_retries (Some e)
            (sleep (backoff_delay (of_nat attempt)) env')
          else (Inl e, env'))"
  by pat_completeness auto
termination
  by (relation "measure (\<lambda>(position, max_retries, f, attempt, _). Suc (unat max_retries) - attempt)") auto

declare ask_attempts.simps [simp del]

definition ask_endpoint :: "nat \<Rightarrow> u32 \<Rightarrow> ('e, 'a) call \<Rightarrow> 'e rpc_env_scheme \<Rightarrow>
    (transport_error + 'a) \<times> 'e rpc_env_scheme" where
  "ask_endpoint position max_retries f env = ask_attempts position max_retries f 0 0 None env"

fun join_reasons :: "string list \<Rightarrow> string" where
  "join_reasons [] = []"
| "join_reasons [r] = r"
| "join_reasons (r # rs) = r @ ''; '' @ join_reasons rs"

fun contract_revert :: "client_error \<Rightarrow> bool" where
  "contract_revert (RevertedWith _ _) = True"
| "contract_revert _ = False"

definition keep_refusal :: "client_error option \<Rightarrow> transport_error \<Rightarrow> client_error option" where
  "keep_refusal named e = (case named of
       Some err \<Rightarrow> Some err
     | None \<Rightarrow> (case extract_chain_client_error e of
         None \<Rightarrow> None
       | Some err \<Rightarrow> if contract_revert err then Some err else None))"

definition all_failed :: "rpc_pool \<Rightarrow> string \<Rightarrow> string list \<Rightarrow> client_error option \<Rightarrow> client_error" where
  "all_failed pool operation reasons named = (case named of
       Some err \<Rightarrow> err
     | None \<Rightarrow> ClientRpcError (''All '' @ decimal (length (rp_providers pool)) @ '' RPC providers failed for '' @
         operation @ '': '' @ join_reasons reasons))"

text \<open>The loop over the endpoints; \<open>None\<close> would be that it never ends.\<close>

partial_function (option) walk_ring :: "rpc_pool \<Rightarrow> string \<Rightarrow> u32 \<Rightarrow> ('e, 'a) call \<Rightarrow> u64 \<Rightarrow> nat \<Rightarrow> string list \<Rightarrow>
    client_error option \<Rightarrow> 'e rpc_env_scheme \<Rightarrow> ((client_error + 'a) \<times> 'e rpc_env_scheme) option" where
  "walk_ring pool operation max_retries f start tried reasons named env =
     (let position = unat (start + of_nat tried) mod length (rp_providers pool);
          url = url_at pool position
      in case ask_endpoint position max_retries f env of
        (Inr result, env') \<Rightarrow> Some (Inr result, env')
      | (Inl e, env') \<Rightarrow>
          (let reasons' = reasons @ [endpoint_name url @ '': '' @ describe_failure url e];
               tried' = tried + 1;
               named' = keep_refusal named e
           in if tried' \<ge> length (rp_providers pool) then Some (Inl (all_failed pool operation reasons' named'), env')
              else walk_ring pool operation max_retries f start tried' reasons' named' (rotate_pool env')))"

definition execute_with_retries :: "rpc_pool \<Rightarrow> string \<Rightarrow> u32 \<Rightarrow> ('e, 'a) call \<Rightarrow> 'e rpc_env_scheme \<Rightarrow>
    ((client_error + 'a) \<times> 'e rpc_env_scheme) option" where
  "execute_with_retries pool operation max_retries f env =
     walk_ring pool operation max_retries f (env_index env) 0 [] None env"

definition execute_with_endpoint :: "rpc_pool \<Rightarrow> string \<Rightarrow> ('e, 'a) call \<Rightarrow> 'e rpc_env_scheme \<Rightarrow>
    ((client_error + 'a) \<times> 'e rpc_env_scheme) option" where
  "execute_with_endpoint pool operation f env = execute_with_retries pool operation (rp_max_retries pool) f env"

section \<open>Every call returns\<close>

lemma backoff_cases: "backoff_delay a \<in> from_secs ` {1, 2, 4, 8, 16, 30}"
proof -
  have "min a 5 \<le> 5" by simp
  then have "unat (min a 5) \<le> 5" by (simp add: word_le_nat_alt)
  then consider "unat (min a 5) = 0" | "unat (min a 5) = 1" | "unat (min a 5) = 2" | "unat (min a 5) = 3"
    | "unat (min a 5) = 4" | "unat (min a 5) = 5" by linarith
  then show ?thesis
    by cases (simp_all add: backoff_delay_def saturating_mul_def from_millis_def from_secs_def push_bit_eq_mult)
qed

lemma lag_pause_shorter: "LAG_PAUSE \<le> backoff_delay a"
  using backoff_cases [of a] by (auto simp: LAG_PAUSE_def from_millis_def from_secs_def)

text \<open>The pauses a run of attempts can take.\<close>

definition pauses :: "nat \<Rightarrow> nat \<Rightarrow> duration" where
  "pauses attempt n = sum_list (map (\<lambda>k. backoff_delay (of_nat k)) [attempt..<n])"

lemma pauses_step: "attempt < n \<Longrightarrow> pauses attempt n = backoff_delay (of_nat attempt) + pauses (Suc attempt) n"
  by (simp add: pauses_def upt_conv_Cons)

text \<open>A call whose every request is over in time and goes on record.\<close>

definition timely :: "duration \<Rightarrow> ('e, 'a) call \<Rightarrow> bool" where
  "timely timeout f \<longleftrightarrow> (\<forall>position env. env_now (snd (f position env)) \<le> env_now env + timeout)"

definition recorded :: "(nat list, 'a) call \<Rightarrow> bool" where
  "recorded f \<longleftrightarrow> (\<forall>position env. rpc_env.more (snd (f position env)) = rpc_env.more env @ [position])"

lemma sleep_simps [simp]: "env_now (sleep d env) = env_now env + d" "env_index (sleep d env) = env_index env"
    "rpc_env.more (sleep d env) = rpc_env.more env"
  by (simp_all add: sleep_def)

lemma rotate_simps [simp]: "env_now (rotate_pool env) = env_now env" "rpc_env.more (rotate_pool env) = rpc_env.more env"
  by (simp_all add: rotate_pool_def)

lemma ask_attempts_time:
  assumes f: "timely timeout f" and "attempt \<le> unat max_retries"
  shows "env_now (snd (ask_attempts position max_retries f attempt lag err env)) \<le>
    env_now env + timeout * (Suc (unat max_retries) - attempt) + pauses attempt (unat max_retries)"
  using assms(2)
proof (induction "unat max_retries - attempt" arbitrary: attempt lag err env)
  case 0
  then have last_attempt: "attempt = unat max_retries" by simp
  obtain x env' where x: "f position env = (x, env')" by fastforce
  with f have "env_now env' \<le> env_now env + timeout" unfolding timely_def by (metis snd_conv)
  then show ?case
    by (subst ask_attempts.simps) (auto simp: last_attempt x pauses_def split: sum.split)
next
  case (Suc n)
  then have more: "attempt < unat max_retries" "n = unat max_retries - Suc attempt" "Suc attempt \<le> unat max_retries" by simp_all
  obtain x env' where x: "f position env = (x, env')" by fastforce
  with f have t: "env_now env' \<le> env_now env + timeout" unfolding timely_def by (metis snd_conv)
  have rest: "env_now (snd (ask_attempts position max_retries f (Suc attempt) lag' err' (sleep d env'))) \<le>
      env_now env + timeout * (Suc (unat max_retries) - attempt) + pauses attempt (unat max_retries)"
    if "d \<le> backoff_delay (of_nat attempt)" for lag' err' d
  proof -
    have "Suc (unat max_retries) - attempt = Suc (Suc (unat max_retries) - Suc attempt)" using more by simp
    with Suc.hyps(1) [OF more(2,3), of lag' err' "sleep d env'"] t that show ?thesis
      by (simp add: pauses_step [OF more(1)])
  qed
  have "timeout * 1 \<le> timeout * (Suc (unat max_retries) - attempt)" using more(1) by (intro mult_le_mono2) simp
  with t have "env_now env' \<le> env_now env + timeout * (Suc (unat max_retries) - attempt) + pauses attempt (unat max_retries)"
    by linarith
  then show ?case
    using more(1) by (subst ask_attempts.simps) (simp add: x rest lag_pause_shorter split: sum.split)
qed

lemma ask_attempts_log:
  assumes f: "recorded f" and "attempt \<le> unat max_retries"
  shows "\<exists>n. 1 \<le> n \<and> n \<le> Suc (unat max_retries) - attempt \<and>
    rpc_env.more (snd (ask_attempts position max_retries f attempt lag err env)) = rpc_env.more env @ replicate n position"
  using assms(2)
proof (induction "unat max_retries - attempt" arbitrary: attempt lag err env)
  case 0
  then have last_attempt: "attempt = unat max_retries" by simp
  obtain x env' where x: "f position env = (x, env')" by fastforce
  with f have "rpc_env.more env' = rpc_env.more env @ replicate 1 position" unfolding recorded_def by (metis snd_conv replicate_0 replicate_Suc One_nat_def)
  then show ?case
    by (intro exI [of _ 1], subst ask_attempts.simps) (auto simp: last_attempt x split: sum.split)
next
  case (Suc n)
  then have more: "attempt < unat max_retries" "n = unat max_retries - Suc attempt" "Suc attempt \<le> unat max_retries" by simp_all
  obtain x env' where x: "f position env = (x, env')" by fastforce
  with f have t: "rpc_env.more env' = rpc_env.more env @ [position]" unfolding recorded_def by (metis snd_conv)
  let ?one = "\<lambda>env''. \<exists>n. 1 \<le> n \<and> n \<le> Suc (unat max_retries) - attempt \<and> rpc_env.more env'' = rpc_env.more env @ replicate n position"
  have rest: "?one (snd (ask_attempts position max_retries f (Suc attempt) lag' err' (sleep d env')))" for lag' err' d
  proof -
    from Suc.hyps(1) [OF more(2,3), of lag' err' "sleep d env'"] obtain k where
      "k \<le> Suc (unat max_retries) - Suc attempt"
      "rpc_env.more (snd (ask_attempts position max_retries f (Suc attempt) lag' err' (sleep d env'))) =
        rpc_env.more env' @ replicate k position" by auto
    with t more(1) show ?thesis by (intro exI [of _ "Suc k"]) simp
  qed
  have now: "?one env'" using t more(1) by (intro exI [of _ 1]) simp
  show ?case
    by (subst ask_attempts.simps) (use more(1) rest now in \<open>auto simp: x split: sum.split\<close>)
qed

text \<open>One visit to an endpoint takes at most \<open>per_endpoint\<close>.\<close>

abbreviation per_endpoint :: "duration \<Rightarrow> u32 \<Rightarrow> duration" where
  "per_endpoint timeout max_retries \<equiv> timeout * Suc (unat max_retries) + pauses 0 (unat max_retries)"

lemma ask_endpoint_time:
  "timely timeout f \<Longrightarrow> ask_endpoint position max_retries f env = (x, env') \<Longrightarrow>
    env_now env' \<le> env_now env + per_endpoint timeout max_retries"
  using ask_attempts_time [of timeout f 0 max_retries position 0 None env] by (simp add: ask_endpoint_def)

lemma ask_endpoint_log:
  "recorded f \<Longrightarrow> ask_endpoint position max_retries f env = (x, env') \<Longrightarrow>
    \<exists>n. 1 \<le> n \<and> n \<le> Suc (unat max_retries) \<and> rpc_env.more env' = rpc_env.more env @ replicate n position"
  using ask_attempts_log [of f 0 max_retries position 0 None env] by (simp add: ask_endpoint_def)

text \<open>
  The walk, from the endpoint at offset \<open>tried\<close> on: it ends, in time, with the record of a number of
  attempts on each endpoint of the ring in turn, the last one answering or all of them failing.
\<close>

lemma walk_ring_returns:
  assumes f: "timely timeout f" "recorded f" and "tried < length (rp_providers pool)"
  shows "\<exists>r env' ns. walk_ring pool operation max_retries f start tried reasons named env = Some (r, env') \<and>
    env_now env' \<le> env_now env + per_endpoint timeout max_retries * (length (rp_providers pool) - tried) \<and>
    rpc_env.more env' = rpc_env.more env @ concat (map (\<lambda>(k, n). replicate n
      (unat (start + of_nat k) mod length (rp_providers pool))) (zip [tried..<length (rp_providers pool)] ns)) \<and>
    ns \<noteq> [] \<and> length ns \<le> length (rp_providers pool) - tried \<and> set ns \<subseteq> {1..Suc (unat max_retries)} \<and>
    (\<forall>e. r = Inl e \<longrightarrow> length ns = length (rp_providers pool) - tried)"
    (is "\<exists>r env' ns. _ \<and> env_now env' \<le> ?late env tried \<and> _ = ?log env tried ns \<and> ?ns r tried ns")
  using assms(3)
proof (induction "length (rp_providers pool) - Suc tried" arbitrary: tried reasons named env)
  case 0
  let ?len = "length (rp_providers pool)"
  from 0 have last_one: "?len = Suc tried" by simp
  let ?position = "unat (start + of_nat tried) mod ?len"
  obtain x env1 where x: "ask_endpoint ?position max_retries f env = (x, env1)" by fastforce
  note t = ask_endpoint_time [OF f(1) x]
  from ask_endpoint_log [OF f(2) x] obtain n where n: "n \<in> {1..Suc (unat max_retries)}"
    "rpc_env.more env1 = rpc_env.more env @ replicate n ?position" by auto
  have "\<exists>r. walk_ring pool operation max_retries f start tried reasons named env = Some (r, env1)"
    using x last_one by (subst walk_ring.simps) (auto simp: Let_def split: sum.split)
  then show ?case
    using t n by (auto simp: last_one intro!: exI [of _ "[n]"])
next
  case (Suc m)
  let ?len = "length (rp_providers pool)"
  from Suc have more: "Suc tried < ?len" "m = ?len - Suc (Suc tried)" by simp_all
  let ?position = "unat (start + of_nat tried) mod ?len"
  obtain x env1 where x: "ask_endpoint ?position max_retries f env = (x, env1)" by fastforce
  note t = ask_endpoint_time [OF f(1) x]
  from ask_endpoint_log [OF f(2) x] obtain n where n: "n \<in> {1..Suc (unat max_retries)}"
    "rpc_env.more env1 = rpc_env.more env @ replicate n ?position" by auto
  have upt: "[tried..<?len] = tried # [Suc tried..<?len]" using more(1) by (simp add: upt_conv_Cons)
  have len: "?len - tried = Suc (?len - Suc tried)" using more(1) by simp
  show ?case
  proof (cases x)
    case (Inr y)
    have "walk_ring pool operation max_retries f start tried reasons named env = Some (Inr y, env1)"
      by (subst walk_ring.simps) (simp add: x [unfolded Inr] Let_def)
    with t n more(1) show ?thesis
      by (intro exI [of _ "Inr y"] exI [of _ env1] exI [of _ "[n]"]) (simp add: upt len)
  next
    case (Inl e)
    have "walk_ring pool operation max_retries f start tried reasons named env = walk_ring pool operation max_retries f
        start (Suc tried) (reasons @ [endpoint_name (url_at pool ?position) @ '': '' @ describe_failure (url_at pool ?position) e])
        (keep_refusal named e) (rotate_pool env1)"
      using more(1) by (subst walk_ring.simps) (simp add: x [unfolded Inl] Let_def)
    then obtain reasons' named' where go: "walk_ring pool operation max_retries f start tried reasons named env =
        walk_ring pool operation max_retries f start (Suc tried) reasons' named' (rotate_pool env1)" by blast
    from Suc.hyps(1) [OF more(2,1), of reasons' named' "rotate_pool env1"] obtain r env' ns where
      r: "walk_ring pool operation max_retries f start (Suc tried) reasons' named' (rotate_pool env1) = Some (r, env')"
        "env_now env' \<le> ?late (rotate_pool env1) (Suc tried)" "rpc_env.more env' = ?log (rotate_pool env1) (Suc tried) ns"
        "?ns r (Suc tried) ns" by blast
    have "env_now env' \<le> ?late env tried" using r(2) t by (simp add: len)
    moreover have "rpc_env.more env' = ?log env tried (n # ns)" using r(3) n(2) by (simp add: upt)
    moreover have "?ns r tried (n # ns)" using r(4) n(1) by (simp add: len)
    ultimately show ?thesis unfolding go r(1) by blast
  qed
qed

lemma new_pool:
  assumes "rpc_pool_new built providers timeout max_retries = Some (Inr pool)" and "max_retries \<noteq> - 1"
    and "length providers < 2 ^ 32"
  shows "rp_providers pool = providers" "rp_max_retries pool = max_retries" "providers \<noteq> []"
    "rp_worst_case_walk pool = per_endpoint timeout max_retries * length providers"
proof -
  from assms(1) have pool: "rp_providers pool = providers" "rp_max_retries pool = max_retries" "providers \<noteq> []"
      "worst_case timeout max_retries (length providers) = Some (rp_worst_case_walk pool)"
    by (auto simp: rpc_pool_new_def split: if_splits)
  then show "rp_providers pool = providers" "rp_max_retries pool = max_retries" "providers \<noteq> []" by simp_all
  have "unat (max_retries + 1) = Suc (unat max_retries)"
    using assms(2) by (metis unatSuc add.commute add_left_cancel add.right_inverse)
  moreover have "unat (of_nat (length providers) :: u32) = length providers"
    using assms(3) by (simp add: unat_of_nat take_bit_nat_eq_self)
  ultimately show "rp_worst_case_walk pool = per_endpoint timeout max_retries * length providers"
    using pool(4) by (auto simp: worst_case_def checked_duration_def pauses_def bind_eq_Some_conv split: if_splits)
qed


definition sample_url :: "string \<Rightarrow> url" where
  "sample_url host = \<lparr>url_text = ''https://'' @ host @ ''/key'', url_host = Some host, url_port = None\<rparr>"

text \<open>The first endpoint times out, the second answers.\<close>

definition sample_call :: "(nat list, u64) call" where
  "sample_call position env =
     (if position = 1 then Inr 7 else Inl (custom_str ''operation timed out''),
      rpc_env.more_update (\<lambda>l. l @ [position]) (sleep 5 env))"

lemma sample_call_timely: "timely (from_secs 2) sample_call"
  by (simp add: timely_def sample_call_def sleep_def from_secs_def)

lemma sample_call_recorded: "recorded sample_call"
  by (simp add: recorded_def sample_call_def)


end
