(* ===== verification/Seen_Block.thy ===== *)
theory Seen_Block
  imports Rpc_Pool
begin

text \<open>
  The newest block the chain client has seen (\<open>chain_client/client.rs\<close>): which endpoints it reads
  from, when it asks them to agree and what it takes from them.
\<close>

section \<open>The newest block seen\<close>

definition WEEK_OF_BLOCKS :: u64 where "WEEK_OF_BLOCKS = 2419200"
definition BLOCKS_PER_SECOND :: u64 where "BLOCKS_PER_SECOND = 4"
definition ALERT_GAP_BLOCKS :: u64 where "ALERT_GAP_BLOCKS = 14400"
definition AGREE_WITHIN_BLOCKS :: u64 where "AGREE_WITHIN_BLOCKS = 60 * BLOCKS_PER_SECOND"
definition CROSS_CHECK_INTERVAL :: duration where "CROSS_CHECK_INTERVAL = from_secs 60"

record seen_block =
  sb_number :: u64
  sb_moved_at :: nat
  sb_confirmed :: bool
  sb_cross_checked_at :: "nat option"
  sb_jump_reported :: bool

datatype noted = Taken | Unagreed | TooFarAhead

definition seen_block_new :: "nat \<Rightarrow> seen_block" where
  "seen_block_new now = \<lparr>sb_number = 0, sb_moved_at = now, sb_confirmed = False, sb_cross_checked_at = None,
     sb_jump_reported = False\<rparr>"

text \<open>\<open>saturating_duration_since\<close> in whole seconds, which fit 64 bits.\<close>

definition secs_since :: "nat \<Rightarrow> nat \<Rightarrow> u64" where
  "secs_since now earlier = of_nat (min ((now - earlier) div 1000000000) (2 ^ 64 - 1))"

definition believable_limit :: "seen_block \<Rightarrow> nat \<Rightarrow> u64" where
  "believable_limit s now = saturating_add (saturating_add (sb_number s) WEEK_OF_BLOCKS)
     (saturating_mul (secs_since now (sb_moved_at s)) BLOCKS_PER_SECOND)"

definition block_bounds :: "seen_block \<Rightarrow> nat \<Rightarrow> u64 \<times> u64" where
  "block_bounds s now = (sb_number s, if sb_confirmed s then believable_limit s now else - 1)"

definition lone_limit :: "seen_block \<Rightarrow> nat \<Rightarrow> u64" where
  "lone_limit s now = saturating_add (saturating_add (sb_number s) AGREE_WITHIN_BLOCKS)
     (saturating_mul (secs_since now (sb_moved_at s)) BLOCKS_PER_SECOND)"

definition take_block :: "u64 \<Rightarrow> nat \<Rightarrow> seen_block \<Rightarrow> seen_block" where
  "take_block block now s = (if block > sb_number s then s\<lparr>sb_number := block, sb_moved_at := now\<rparr> else s)"

definition advance :: "u64 \<Rightarrow> nat \<Rightarrow> bool \<Rightarrow> seen_block \<Rightarrow> noted \<times> seen_block" where
  "advance block now only_endpoint s =
     (if sb_confirmed s \<and> block > believable_limit s now then (TooFarAhead, s)
      else if sb_confirmed s \<and> \<not> only_endpoint \<and> block > lone_limit s now
      then (Unagreed, s\<lparr>sb_jump_reported := True\<rparr>)
      else (Taken, take_block block now s))"

definition confirm :: "u64 \<Rightarrow> nat \<Rightarrow> seen_block \<Rightarrow> seen_block" where
  "confirm block now s =
     (let s = s\<lparr>sb_jump_reported := False\<rparr>
      in if sb_confirmed s then (if block \<le> believable_limit s now then take_block block now s else s)
      else let s = (if block > sb_number s \<or> sb_number s > saturating_add block AGREE_WITHIN_BLOCKS
                    then s\<lparr>sb_number := block, sb_moved_at := now\<rparr> else s)
           in s\<lparr>sb_confirmed := True\<rparr>)"

definition cross_check_due :: "nat \<Rightarrow> seen_block \<Rightarrow> bool \<times> seen_block" where
  "cross_check_due now s =
     (let checked_lately = (case sb_cross_checked_at s of None \<Rightarrow> False | Some t \<Rightarrow> now - t < CROSS_CHECK_INTERVAL)
      in if sb_confirmed s \<and> \<not> sb_jump_reported s \<or> checked_lately then (False, s)
      else (True, s\<lparr>sb_cross_checked_at := Some now\<rparr>))"

section \<open>The block most endpoints agree on\<close>

text \<open>
  The inner loop of \<open>agreed_head\<close>: the first block from \<open>start\<close> on that is within reach of \<open>head\<close>.
  An index past the end would panic, \<open>None\<close>.
\<close>

function move_start :: "u64 list \<Rightarrow> u64 \<Rightarrow> nat \<Rightarrow> nat option" where
  "move_start heads head start =
     (if start \<ge> length heads then None
      else if head - heads ! start > AGREE_WITHIN_BLOCKS then move_start heads head (start + 1)
      else Some start)"
  by pat_completeness auto
termination
  by (relation "measure (\<lambda>(heads, head, start). length heads - start)") auto

declare move_start.simps [simp del]

fun agree_from :: "u64 list \<Rightarrow> (nat \<times> u64) list \<Rightarrow> nat \<Rightarrow> (nat \<times> u64) option \<Rightarrow> (nat \<times> u64) option option" where
  "agree_from heads [] start agreed = Some agreed"
| "agree_from heads ((end_at, head) # rest) start agreed =
     Option.bind (move_start heads head start) (\<lambda>start'.
       let agreeing = end_at - start' + 1
       in agree_from heads rest start'
            (if agreeing \<ge> 2 \<and> (case agreed of None \<Rightarrow> True | Some (most, _) \<Rightarrow> agreeing \<ge> most)
             then Some (agreeing, head) else agreed))"

definition agreed_head :: "u64 list \<Rightarrow> u64 option option" where
  "agreed_head answers =
     (let heads = sort answers
      in map_option (map_option snd) (agree_from heads (enumerate 0 heads) 0 None))"

section \<open>Why reads are refused\<close>

definition FAR_AHEAD_OF_A_SEEN_BLOCK :: string where
  "FAR_AHEAD_OF_A_SEEN_BLOCK = ''too far ahead of the newest block seen''"

record refusals =
  rf_nearest :: u64
  rf_other_failures :: nat

definition refusals_new :: refusals where
  "refusals_new = \<lparr>rf_nearest = - 1, rf_other_failures = 0\<rparr>"

definition refused_for :: "string \<Rightarrow> u64 \<Rightarrow> u64 \<Rightarrow> transport_error" where
  "refused_for why head seen = custom_str (''endpoint is at block '' @ decimal (unat head) @ '', '' @ why @ '' ('' @
     decimal (unat seen) @ '')'')"

definition refuse_behind :: "u64 \<Rightarrow> u64 \<Rightarrow> refusals \<Rightarrow> (transport_error + unit) \<times> refusals" where
  "refuse_behind head seen rf =
     (if head \<ge> seen then (Inr (), rf)
      else (Inl (refused_for BEHIND_A_SEEN_BLOCK head seen), rf\<lparr>rf_nearest := min (rf_nearest rf) (seen - head)\<rparr>))"

definition refuse_far_ahead :: "u64 \<Rightarrow> u64 \<Rightarrow> u64 \<Rightarrow> refusals \<Rightarrow> (transport_error + unit) \<times> refusals" where
  "refuse_far_ahead head seen highest rf =
     (if head \<le> highest then (Inr (), rf)
      else (Inl (refused_for FAR_AHEAD_OF_A_SEEN_BLOCK head seen), rf\<lparr>rf_nearest := min (rf_nearest rf) (head - seen)\<rparr>))"

definition count_other :: "(transport_error + 'a) \<Rightarrow> refusals \<Rightarrow> refusals" where
  "count_other r rf = (case r of Inl _ \<Rightarrow> rf\<lparr>rf_other_failures := rf_other_failures rf + 1\<rparr> | Inr _ \<Rightarrow> rf)"

definition all_far_off :: "refusals \<Rightarrow> bool" where
  "all_far_off rf \<longleftrightarrow> rf_other_failures rf = 0 \<and> rf_nearest rf \<noteq> - 1 \<and> rf_nearest rf > ALERT_GAP_BLOCKS"

section \<open>Each endpoint's latest block\<close>

definition HEAD_REUSE :: duration where "HEAD_REUSE = from_secs 1"

type_synonym endpoint_heads = "(u64 \<times> nat) option list"

definition endpoint_heads_new :: "nat \<Rightarrow> endpoint_heads" where
  "endpoint_heads_new n = replicate n None"

definition fresh_head :: "nat \<Rightarrow> nat \<Rightarrow> endpoint_heads \<Rightarrow> u64 option" where
  "fresh_head endpoint now heads = (case heads ! endpoint of
       None \<Rightarrow> None
     | Some (head, asked_at) \<Rightarrow> if now - asked_at < HEAD_REUSE then Some head else None)"

definition remember_head :: "nat \<Rightarrow> u64 \<Rightarrow> nat \<Rightarrow> endpoint_heads \<Rightarrow> endpoint_heads" where
  "remember_head endpoint head asked_at heads = heads[endpoint := Some (head, asked_at)]"

definition forget_head :: "nat \<Rightarrow> endpoint_heads \<Rightarrow> endpoint_heads" where
  "forget_head endpoint heads = heads[endpoint := None]"

section \<open>The agreed block is the newest of the largest group\<close>

text \<open>How many answers are at \<open>head\<close> or at most a minute of blocks before it.\<close>

definition agreeing_with :: "u64 list \<Rightarrow> u64 \<Rightarrow> nat" where
  "agreeing_with answers head = length (filter (\<lambda>x. x \<le> head \<and> head - x \<le> AGREE_WITHIN_BLOCKS) answers)"

text \<open>The same, up to an index of the sorted answers.\<close>

definition reach :: "u64 list \<Rightarrow> nat \<Rightarrow> nat set" where
  "reach xs i = {j. j \<le> i \<and> xs ! i - xs ! j \<le> AGREE_WITHIN_BLOCKS}"

lemma finite_reach [simp]: "finite (reach xs i)"
  by (rule finite_subset [of _ "{..i}"]) (auto simp: reach_def)

lemma word_diff_antimono: "x \<le> y \<Longrightarrow> y \<le> z \<Longrightarrow> z - y \<le> z - (x :: u64)"
  by (simp add: word_le_nat_alt unat_sub order_trans)

lemma reach_interval:
  assumes "sorted xs" and "i < length xs" and "s \<le> i" and "\<And>j. j < s \<Longrightarrow> xs ! i - xs ! j > AGREE_WITHIN_BLOCKS"
    and "xs ! i - xs ! s \<le> AGREE_WITHIN_BLOCKS"
  shows "reach xs i = {s..i}"
proof -
  have "xs ! i - xs ! j \<le> AGREE_WITHIN_BLOCKS" if "s \<le> j" "j \<le> i" for j
    using word_diff_antimono [of "xs ! s" "xs ! j" "xs ! i"] sorted_nth_mono [OF assms(1)] that assms(2,5) by force
  moreover have "s \<le> j" if "xs ! i - xs ! j \<le> AGREE_WITHIN_BLOCKS" for j
    using assms(4) [of j] that by (meson leD leI)
  ultimately show ?thesis by (auto simp: reach_def)
qed

lemma move_start_reaches:
  assumes "i < length xs" and "start \<le> i" and "\<And>j. j < start \<Longrightarrow> xs ! i - xs ! j > AGREE_WITHIN_BLOCKS"
  shows "\<exists>s. move_start xs (xs ! i) start = Some s \<and> start \<le> s \<and> s \<le> i \<and>
    (\<forall>j < s. xs ! i - xs ! j > AGREE_WITHIN_BLOCKS) \<and> xs ! i - xs ! s \<le> AGREE_WITHIN_BLOCKS"
  using assms(2,3)
proof (induction "i - start" arbitrary: start)
  case 0
  then have "start = i" by simp
  with 0 assms(1) show ?case by (subst move_start.simps) (auto simp: AGREE_WITHIN_BLOCKS_def)
next
  case (Suc n)
  show ?case
  proof (cases "xs ! i - xs ! start > AGREE_WITHIN_BLOCKS")
    case True
    have "\<exists>s. move_start xs (xs ! i) (Suc start) = Some s \<and> Suc start \<le> s \<and> s \<le> i \<and>
        (\<forall>j < s. xs ! i - xs ! j > AGREE_WITHIN_BLOCKS) \<and> xs ! i - xs ! s \<le> AGREE_WITHIN_BLOCKS"
      using Suc.hyps(2) Suc.prems(2) True by (intro Suc.hyps(1)) (auto simp: less_Suc_eq)
    with True Suc.hyps(2) assms(1) show ?thesis by (subst move_start.simps) auto
  next
    case False
    with Suc assms(1) show ?thesis by (subst move_start.simps) (auto simp: not_less)
  qed
qed

text \<open>What one block does to the best group so far.\<close>

definition best_so_far :: "u64 list \<Rightarrow> nat \<Rightarrow> (nat \<times> u64) option \<Rightarrow> (nat \<times> u64) option" where
  "best_so_far xs i agreed =
     (if card (reach xs i) \<ge> 2 \<and> (case agreed of None \<Rightarrow> True | Some (most, _) \<Rightarrow> card (reach xs i) \<ge> most)
      then Some (card (reach xs i), xs ! i) else agreed)"

lemma agree_from_folds:
  assumes "sorted xs" and "e \<le> length xs" and "start \<le> e" and "\<And>i j. e \<le> i \<Longrightarrow> i < length xs \<Longrightarrow> j < start \<Longrightarrow> xs ! i - xs ! j > AGREE_WITHIN_BLOCKS"
  shows "agree_from xs (enumerate e (drop e xs)) start agreed = Some (fold (best_so_far xs) [e..<length xs] agreed)"
  using assms(2-)
proof (induction "length xs - e" arbitrary: e start agreed)
  case (Suc n)
  then have e: "e < length xs" by simp
  from move_start_reaches [OF e Suc.prems(2)] Suc.prems(3) e obtain s where
    s: "move_start xs (xs ! e) start = Some s" "start \<le> s" "s \<le> e" "\<And>j. j < s \<Longrightarrow> xs ! e - xs ! j > AGREE_WITHIN_BLOCKS"
      "xs ! e - xs ! s \<le> AGREE_WITHIN_BLOCKS" by blast
  have far: "xs ! i - xs ! j > AGREE_WITHIN_BLOCKS" if "e \<le> i" "i < length xs" "j < s" for i j
  proof -
    have "xs ! j \<le> xs ! e" "xs ! e \<le> xs ! i" using that s(3) assms(1) by (auto intro: sorted_nth_mono)
    then have "xs ! e - xs ! j \<le> xs ! i - xs ! j" by (simp add: word_le_nat_alt unat_sub order_trans)
    with s(4) [OF that(3)] show ?thesis by simp
  qed
  have card: "card (reach xs e) = e - s + 1" by (simp add: reach_interval [OF assms(1) e s(3,4,5)] s(3) Suc_diff_le)
  have "agree_from xs (enumerate (Suc e) (drop (Suc e) xs)) s a = Some (fold (best_so_far xs) [Suc e..<length xs] a)" for a
    using Suc.hyps(2) s(3) far e by (intro Suc.hyps(1)) auto
  moreover have "best_so_far xs e agreed = (if e - s + 1 \<ge> 2 \<and>
      (case agreed of None \<Rightarrow> True | Some (most, _) \<Rightarrow> e - s + 1 \<ge> most) then Some (e - s + 1, xs ! e) else agreed)"
    by (simp only: best_so_far_def card)
  ultimately show ?case
    using e by (cases agreed) (simp_all add: Cons_nth_drop_Suc [symmetric] upt_conv_Cons s(1) Let_def split: prod.splits)
qed simp

text \<open>The last of the largest groups.\<close>

definition best_index :: "u64 list \<Rightarrow> nat \<Rightarrow> nat \<Rightarrow> bool" where
  "best_index xs n k \<longleftrightarrow> k < n \<and> 2 \<le> card (reach xs k) \<and> (\<forall>i < n. card (reach xs i) \<le> card (reach xs k)) \<and>
     (\<forall>i < n. k < i \<longrightarrow> card (reach xs i) < card (reach xs k))"

lemma fold_best:
  "if \<forall>i < n. card (reach xs i) < 2 then fold (best_so_far xs) [0..<n] None = None
   else \<exists>k. best_index xs n k \<and> fold (best_so_far xs) [0..<n] None = Some (card (reach xs k), xs ! k)"
proof (induction n)
  case (Suc n)
  let ?c = "\<lambda>i. card (reach xs i)"
  consider "\<forall>i < n. ?c i < 2" "fold (best_so_far xs) [0..<n] None = None" |
    k where "best_index xs n k" "fold (best_so_far xs) [0..<n] None = Some (?c k, xs ! k)"
    using Suc.IH by (auto split: if_splits)
  then show ?case
  proof cases
    case 1
    show ?thesis
    proof (cases "?c n < 2")
      case True
      then have "best_so_far xs n None = None" by (simp add: best_so_far_def)
      with 1 True show ?thesis by (simp add: less_Suc_eq)
    next
      case False
      have "best_index xs (Suc n) n"
        using 1(1) False by (force simp: best_index_def less_Suc_eq)
      moreover have "fold (best_so_far xs) [0..<Suc n] None = Some (?c n, xs ! n)"
        using 1(2) False by (simp add: best_so_far_def [of xs n])
      moreover have "\<not> (\<forall>i < Suc n. ?c i < 2)" using False by blast
      ultimately show ?thesis by (simp only: if_False) blast
    qed
  next
    case 2
    then have "\<not> (\<forall>i < Suc n. ?c i < 2)" by (auto simp: best_index_def not_less less_Suc_eq)
    moreover have "\<exists>k'. best_index xs (Suc n) k' \<and> fold (best_so_far xs) [0..<Suc n] None = Some (?c k', xs ! k')"
    proof (cases "?c k \<le> ?c n")
      case True
      with 2 show ?thesis
        by (intro exI [of _ n]) (auto simp: best_so_far_def [of xs n] best_index_def less_Suc_eq intro: order_trans)
    next
      case False
      with 2 show ?thesis
        by (intro exI [of _ k]) (auto simp: best_so_far_def [of xs n] best_index_def less_Suc_eq)
    qed
    ultimately show ?thesis by (simp only: if_False)
  qed
qed simp

lemma agreeing_card:
  "agreeing_with xs h = card {j. j < length xs \<and> xs ! j \<le> h \<and> h - xs ! j \<le> AGREE_WITHIN_BLOCKS}"
  by (simp add: agreeing_with_def length_filter_conv_card)

lemma reach_agreeing:
  assumes "sorted xs" and "i < length xs"
  shows "card (reach xs i) \<le> agreeing_with xs (xs ! i)"
    "(\<And>j. i < j \<Longrightarrow> j < length xs \<Longrightarrow> xs ! j \<noteq> xs ! i) \<Longrightarrow> card (reach xs i) = agreeing_with xs (xs ! i)"
proof -
  let ?A = "{j. j < length xs \<and> xs ! j \<le> xs ! i \<and> xs ! i - xs ! j \<le> AGREE_WITHIN_BLOCKS}"
  have sub: "reach xs i \<subseteq> ?A" using assms by (auto simp: reach_def intro: sorted_nth_mono)
  have "finite ?A" by simp
  from card_mono [OF this sub] show "card (reach xs i) \<le> agreeing_with xs (xs ! i)" by (simp add: agreeing_card)
  assume last_one: "\<And>j. i < j \<Longrightarrow> j < length xs \<Longrightarrow> xs ! j \<noteq> xs ! i"
  have "j \<le> i" if "j \<in> ?A" for j
  proof (rule ccontr)
    assume "\<not> j \<le> i"
    with that assms(1) have "xs ! i \<le> xs ! j" by (auto intro: sorted_nth_mono)
    with that last_one [of j] \<open>\<not> j \<le> i\<close> show False by auto
  qed
  then have "?A \<subseteq> reach xs i" by (auto simp: reach_def)
  with sub have "reach xs i = ?A" by (rule equalityI)
  then show "card (reach xs i) = agreeing_with xs (xs ! i)" by (simp only: agreeing_card)
qed

lemma last_index:
  assumes "h \<in> set xs"
  shows "\<exists>i < length xs. xs ! i = h \<and> (\<forall>j. i < j \<longrightarrow> j < length xs \<longrightarrow> xs ! j \<noteq> h)"
proof -
  from split_list_last [OF assms] obtain ys zs where xs: "xs = ys @ h # zs" "h \<notin> set zs" by blast
  have "xs ! j \<noteq> h" if "length ys < j" "j < length xs" for j
    using that xs by (auto simp: nth_append nth_Cons' split: if_splits)
  with xs(1) show ?thesis by (intro exI [of _ "length ys"]) simp
qed

lemma best_is_largest:
  assumes "sorted xs" and best: "best_index xs (length xs) k"
  shows "card (reach xs k) = agreeing_with xs (xs ! k)" "xs ! k \<in> set xs"
    "\<And>h. h \<in> set xs \<Longrightarrow> agreeing_with xs h \<le> agreeing_with xs (xs ! k)"
    "\<And>h. h \<in> set xs \<Longrightarrow> agreeing_with xs h = agreeing_with xs (xs ! k) \<Longrightarrow> h \<le> xs ! k"
proof -
  from best have k: "k < length xs" "\<And>i. i < length xs \<Longrightarrow> card (reach xs i) \<le> card (reach xs k)"
      "\<And>i. i < length xs \<Longrightarrow> k < i \<Longrightarrow> card (reach xs i) < card (reach xs k)" by (auto simp: best_index_def)
  have "xs ! j \<noteq> xs ! k" if "k < j" "j < length xs" for j
  proof
    assume "xs ! j = xs ! k"
    with that have "reach xs k \<subseteq> reach xs j" by (auto simp: reach_def)
    from card_mono [OF finite_reach this] k(3) [OF that(2,1)] show False by simp
  qed
  from reach_agreeing(2) [OF assms(1) k(1) this] show c: "card (reach xs k) = agreeing_with xs (xs ! k)" .
  from k(1) show "xs ! k \<in> set xs" by simp
  fix h
  assume "h \<in> set xs"
  from last_index [OF this] obtain i where i: "i < length xs" "xs ! i = h" "\<And>j. i < j \<Longrightarrow> j < length xs \<Longrightarrow> xs ! j \<noteq> h" by blast
  with reach_agreeing(2) [OF assms(1) i(1)] have ci: "card (reach xs i) = agreeing_with xs h" by simp
  with k(2) [OF i(1)] c show "agreeing_with xs h \<le> agreeing_with xs (xs ! k)" by simp
  assume "agreeing_with xs h = agreeing_with xs (xs ! k)"
  with ci c k(3) [OF i(1)] have "i \<le> k" by (metis leI less_irrefl)
  with assms(1) k(1) i(2) show "h \<le> xs ! k" by (auto intro: sorted_nth_mono)
qed

lemma agreeing_sort: "agreeing_with (sort answers) = agreeing_with answers"
proof
  fix h
  show "agreeing_with (sort answers) h = agreeing_with answers h"
    unfolding agreeing_with_def by (simp add: filter_sort)
qed

text \<open>
  C34: \<open>agreed_head\<close>, which slides a window over the sorted answers, never indexes out of range and
  gives the newest block of the largest group: when no two answers are within a minute of blocks of
  each other it gives none, and otherwise the highest of the answers that the most answers are at or
  at most a minute behind.
\<close>

theorem agreed_head_largest_group:
  "agreed_head answers = Some (
     if \<forall>h \<in> set answers. agreeing_with answers h < 2 then None
     else Some (Max {h \<in> set answers. \<forall>g \<in> set answers. agreeing_with answers g \<le> agreeing_with answers h}))"
proof -
  define xs where "xs = sort answers"
  have xs: "sorted xs" "set xs = set answers" by (simp_all add: xs_def)
  have folds: "agree_from xs (enumerate 0 xs) 0 None = Some (fold (best_so_far xs) [0..<length xs] None)"
    using agree_from_folds [OF xs(1), of 0 0 None] by simp
  have agreeing: "agreeing_with answers = agreeing_with xs" by (simp add: xs_def agreeing_sort)
  show ?thesis
  proof (cases "\<forall>i < length xs. card (reach xs i) < 2")
    case True
    with fold_best [of "length xs" xs] have "fold (best_so_far xs) [0..<length xs] None = None" by simp
    moreover have "\<forall>h \<in> set xs. agreeing_with xs h < 2"
    proof
      fix h
      assume "h \<in> set xs"
      from last_index [OF this] obtain i where "i < length xs" "xs ! i = h" "\<forall>j. i < j \<longrightarrow> j < length xs \<longrightarrow> xs ! j \<noteq> h" by blast
      with reach_agreeing(2) [OF xs(1), of i] True show "agreeing_with xs h < 2" by auto
    qed
    ultimately show ?thesis
      using folds by (simp add: agreed_head_def Let_def agreeing xs(2) flip: xs_def)
  next
    case False
    with fold_best [of "length xs" xs] obtain k where k: "best_index xs (length xs) k"
      "fold (best_so_far xs) [0..<length xs] None = Some (card (reach xs k), xs ! k)" by auto
    note best = best_is_largest [OF xs(1) k(1)]
    have "2 \<le> agreeing_with xs (xs ! k)" using k(1) best(1) by (simp add: best_index_def)
    then have "\<not> (\<forall>h \<in> set xs. agreeing_with xs h < 2)" using best(2) by force
    moreover have "Max {h \<in> set xs. \<forall>g \<in> set xs. agreeing_with xs g \<le> agreeing_with xs h} = xs ! k"
    proof (rule Max_eqI)
      show "xs ! k \<in> {h \<in> set xs. \<forall>g \<in> set xs. agreeing_with xs g \<le> agreeing_with xs h}" using best(2,3) by blast
      show "h \<le> xs ! k" if "h \<in> {h \<in> set xs. \<forall>g \<in> set xs. agreeing_with xs g \<le> agreeing_with xs h}" for h
        using that best(2) best(3) [of h] by (intro best(4)) (auto intro: order_antisym)
    qed simp
    ultimately show ?thesis
      using folds k(2) by (simp add: agreed_head_def Let_def agreeing xs(2) [symmetric] flip: xs_def)
  qed
qed

theorem agreed_head_largest_group_witness:
  "agreed_head [1003, 5, 1000] = Some (Some 1003) \<and>
   Max {h \<in> set [1003, 5, 1000]. \<forall>g \<in> set [1003, 5, 1000]. agreeing_with [1003, 5, 1000] g \<le> agreeing_with [1003, 5, 1000] h} = 1003"
proof -
  have "agreed_head [1003, 5, 1000] = Some (Some 1003)" by code_simp
  with agreed_head_largest_group [of "[1003, 5, 1000]"] show ?thesis by (simp split: if_splits)
qed

section \<open>A confirmed block holds\<close>

text \<open>What happens to the newest block seen: an endpoint reports one, two agree or a receipt confirms one, a cross-check is due.\<close>

datatype seen_op = Reported u64 nat bool | Confirmed u64 nat | Checked nat

fun op_at :: "seen_op \<Rightarrow> nat" where
  "op_at (Reported _ t _) = t"
| "op_at (Confirmed _ t) = t"
| "op_at (Checked t) = t"

fun seen_after :: "seen_op \<Rightarrow> seen_block \<Rightarrow> seen_block" where
  "seen_after (Reported block now only_endpoint) s = snd (advance block now only_endpoint s)"
| "seen_after (Confirmed block now) s = confirm block now s"
| "seen_after (Checked now) s = snd (cross_check_due now s)"

text \<open>How far beyond the chain's own progress each may move it: a minute of blocks, or a week where more than one endpoint vouches for it or there is only one.\<close>

fun allowance :: "seen_op \<Rightarrow> int" where
  "allowance (Reported _ _ only_endpoint) = (if only_endpoint then 2419200 else 240)"
| "allowance (Confirmed _ _) = 2419200"
| "allowance (Checked _) = 0"

lemma uint_saturating_mul_le: "uint (saturating_mul x y) \<le> uint x * uint y"
  by (auto simp: saturating_mul_def uint_word_ariths zmod_le_nonneg_dividend zmod_minus1)

lemma uint_secs_since: "uint (secs_since now t) \<le> int (now - t) div 1000000000"
proof -
  have "uint (secs_since now t) = int (min ((now - t) div 1000000000) (2 ^ 64 - 1)) mod 2 ^ 64"
    by (simp add: secs_since_def unsigned_of_nat take_bit_eq_mod of_nat_mod)
  also have "\<dots> \<le> int (min ((now - t) div 1000000000) (2 ^ 64 - 1))" by (rule zmod_le_nonneg_dividend) simp
  also have "\<dots> \<le> int ((now - t) div 1000000000)" by (simp only: of_nat_le_iff min.cobounded1)
  also have "\<dots> = int (now - t) div 1000000000" by (simp only: zdiv_int of_nat_numeral)
  finally show ?thesis .
qed

lemma limit_bounds:
  "uint (believable_limit s now) \<le> uint (sb_number s) + 2419200 + 4 * (int (now - sb_moved_at s) div 1000000000)"
  "uint (lone_limit s now) \<le> uint (sb_number s) + 240 + 4 * (int (now - sb_moved_at s) div 1000000000)"
proof -
  have sat: "uint (saturating_add x y) \<le> uint x + uint y" for x y :: u64 by (simp add: uint_saturating_add)
  have "uint (saturating_mul (secs_since now (sb_moved_at s)) BLOCKS_PER_SECOND) \<le> uint (secs_since now (sb_moved_at s)) * 4"
    using uint_saturating_mul_le [of "secs_since now (sb_moved_at s)" BLOCKS_PER_SECOND] by (simp add: BLOCKS_PER_SECOND_def)
  with uint_secs_since [of now "sb_moved_at s"]
  have added: "uint (saturating_mul (secs_since now (sb_moved_at s)) BLOCKS_PER_SECOND) \<le> 4 * (int (now - sb_moved_at s) div 1000000000)"
    by linarith
  show "uint (believable_limit s now) \<le> uint (sb_number s) + 2419200 + 4 * (int (now - sb_moved_at s) div 1000000000)"
    unfolding believable_limit_def
    using added sat [of "saturating_add (sb_number s) WEEK_OF_BLOCKS"] sat [of "sb_number s" WEEK_OF_BLOCKS]
    by (simp add: WEEK_OF_BLOCKS_def) (smt (verit))
  show "uint (lone_limit s now) \<le> uint (sb_number s) + 240 + 4 * (int (now - sb_moved_at s) div 1000000000)"
    unfolding lone_limit_def
    using added sat [of "saturating_add (sb_number s) AGREE_WITHIN_BLOCKS"] sat [of "sb_number s" AGREE_WITHIN_BLOCKS]
    by (simp add: AGREE_WITHIN_BLOCKS_def BLOCKS_PER_SECOND_def) (smt (verit))
qed

text \<open>One step either leaves a confirmed block or moves it forward to a time's worth of blocks and the allowance.\<close>

lemma confirmed_step:
  assumes "sb_confirmed s"
  shows "sb_confirmed (seen_after op s)"
    "sb_number (seen_after op s) = sb_number s \<and> sb_moved_at (seen_after op s) = sb_moved_at s \<or>
     sb_number s < sb_number (seen_after op s) \<and> sb_moved_at (seen_after op s) = op_at op \<and>
     uint (sb_number (seen_after op s)) \<le>
       uint (sb_number s) + allowance op + 4 * (int (op_at op - sb_moved_at s) div 1000000000)"
proof -
  show "sb_confirmed (seen_after op s)"
    using assms by (cases op) (auto simp: advance_def take_block_def confirm_def cross_check_due_def Let_def)
  have flagged: "believable_limit (s\<lparr>sb_jump_reported := b\<rparr>) now = believable_limit s now" for b now
    by (simp add: believable_limit_def)
  have le: "uint b \<le> uint c" if "\<not> c < b" for b c :: u64 using that by (simp add: word_less_def)
  show "sb_number (seen_after op s) = sb_number s \<and> sb_moved_at (seen_after op s) = sb_moved_at s \<or>
     sb_number s < sb_number (seen_after op s) \<and> sb_moved_at (seen_after op s) = op_at op \<and>
     uint (sb_number (seen_after op s)) \<le>
       uint (sb_number s) + allowance op + 4 * (int (op_at op - sb_moved_at s) div 1000000000)"
  proof (cases op)
    case (Reported block now only_endpoint)
    with assms le [of "believable_limit s now" block] le [of "lone_limit s now" block] limit_bounds [of s now] show ?thesis
      by (auto simp: advance_def take_block_def)
  next
    case (Confirmed block now)
    have "uint block \<le> uint (believable_limit s now)" if "block \<le> believable_limit s now" using that by (simp add: word_le_def)
    with assms limit_bounds(1) [of s now] Confirmed show ?thesis
      by (auto simp: confirm_def take_block_def Let_def flagged)
  next
    case (Checked now)
    then show ?thesis by (auto simp: cross_check_due_def Let_def)
  qed
qed

lemma confirmed_run:
  assumes "sb_confirmed s" and "sorted (map op_at ops)" and "\<forall>op \<in> set ops. sb_moved_at s \<le> op_at op \<and> op_at op \<le> t"
    and "sb_moved_at s \<le> t"
  shows "sb_confirmed (fold seen_after ops s)" "sb_number s \<le> sb_number (fold seen_after ops s)"
    "1000000000 * uint (sb_number (fold seen_after ops s)) + 4 * int (sb_moved_at s) \<le>
      1000000000 * (uint (sb_number s) + sum_list (map allowance ops)) + 4 * int (sb_moved_at (fold seen_after ops s))"
    "sb_moved_at (fold seen_after ops s) \<le> t"
proof -
  have "sb_confirmed (fold seen_after ops s) \<and> sb_number s \<le> sb_number (fold seen_after ops s) \<and>
    1000000000 * uint (sb_number (fold seen_after ops s)) + 4 * int (sb_moved_at s) \<le>
      1000000000 * (uint (sb_number s) + sum_list (map allowance ops)) + 4 * int (sb_moved_at (fold seen_after ops s)) \<and>
    sb_moved_at (fold seen_after ops s) \<le> t"
    using assms
  proof (induction ops arbitrary: s)
    case (Cons op ops)
    let ?s = "seen_after op s"
    note step = confirmed_step [OF Cons.prems(1), of op]
    have allowed: "0 \<le> allowance op" by (cases op) simp_all
    have at: "sb_moved_at s \<le> op_at op" "op_at op \<le> t" using Cons.prems(3) by simp_all
    have "4 * (int (op_at op - sb_moved_at s) div 1000000000) * 1000000000 \<le> 4 * int (op_at op - sb_moved_at s)"
      by (simp add: algebra_simps)
    then have moved: "1000000000 * uint (sb_number ?s) + 4 * int (sb_moved_at s) \<le>
        1000000000 * (uint (sb_number s) + allowance op) + 4 * int (sb_moved_at ?s)"
      using step(2) allowed at(1) by (auto simp: of_nat_diff)
    have "sb_number s \<le> sb_number ?s" "sb_moved_at ?s \<le> t" using step(2) at Cons.prems(4) by auto
    moreover have "\<forall>o' \<in> set ops. sb_moved_at ?s \<le> op_at o' \<and> op_at o' \<le> t" "sorted (map op_at ops)"
      using step(2) Cons.prems(2,3) at by auto
    ultimately show ?case
      using Cons.IH [OF step(1)] moved by (auto intro: order_trans)
  qed simp
  then show "sb_confirmed (fold seen_after ops s)" "sb_number s \<le> sb_number (fold seen_after ops s)"
    "1000000000 * uint (sb_number (fold seen_after ops s)) + 4 * int (sb_moved_at s) \<le>
      1000000000 * (uint (sb_number s) + sum_list (map allowance ops)) + 4 * int (sb_moved_at (fold seen_after ops s))"
    "sb_moved_at (fold seen_after ops s) \<le> t" by simp_all
qed

text \<open>
  C35: once confirmed, the newest block seen stays confirmed and never goes back, whatever endpoints
  report, and it runs ahead of the chain by little: over a run of reports and confirmations it moves
  by no more than the four blocks a second the chain can add since it last moved, plus a minute of
  blocks for each report of one endpoint among several and a week of blocks for each report of a
  sole endpoint and each confirmation. The confirmation of a block that is not yet confirmed puts it
  at the block confirmed or at most a minute of blocks past it, so a wrong block far ahead is
  replaced.
\<close>

theorem confirmed_block_holds:
  assumes "sb_confirmed s" and "sorted (map op_at ops)"
    and "\<forall>op \<in> set ops. sb_moved_at s \<le> op_at op \<and> op_at op \<le> t" and "sb_moved_at s \<le> t"
    and "\<not> sb_confirmed u"
  shows "sb_confirmed (fold seen_after ops s) \<and> sb_number s \<le> sb_number (fold seen_after ops s) \<and>
    uint (sb_number (fold seen_after ops s)) \<le>
      uint (sb_number s) + sum_list (map allowance ops) + 4 * int (t - sb_moved_at s) div 1000000000 \<and>
    sb_confirmed (confirm block now u) \<and> block \<le> sb_number (confirm block now u) \<and>
    uint (sb_number (confirm block now u)) \<le> uint block + 240"
proof -
  let ?s = "fold seen_after ops s"
  note run = confirmed_run [OF assms(1-4)]
  have "1000000000 * (uint (sb_number ?s) - uint (sb_number s) - sum_list (map allowance ops)) \<le> 4 * int (t - sb_moved_at s)"
    using run(3,4) assms(4) by (simp add: of_nat_diff algebra_simps)
  from zdiv_mono1 [OF this, of 1000000000]
  have "uint (sb_number ?s) - uint (sb_number s) - sum_list (map allowance ops) \<le> 4 * int (t - sb_moved_at s) div 1000000000"
    by simp
  moreover have "block \<le> sb_number (confirm block now u) \<and> uint (sb_number (confirm block now u)) \<le> uint block + 240"
    using assms(5) by (auto simp: confirm_def Let_def word_le_def word_less_def uint_saturating_add AGREE_WITHIN_BLOCKS_def
        BLOCKS_PER_SECOND_def)
  ultimately show ?thesis
    using run(1,2) assms(5) by (simp add: confirm_def Let_def)
qed

text \<open>A confirmed block that one of several endpoints would move far ahead; two then agree.\<close>

definition sample_seen :: seen_block where
  "sample_seen = confirm 1000 0 (seen_block_new 0)"

theorem confirmed_block_holds_witness:
  "sb_confirmed sample_seen \<and> \<not> sb_confirmed (seen_block_new 0) \<and>
   uint (sb_number (fold seen_after [Reported 1200 5 False, Reported 90000 6 False, Confirmed 1300 7] sample_seen)) \<le> 2420680 \<and>
   uint (sb_number (confirm 50 3 (seen_block_new 0))) \<le> 290"
proof -
  have s: "sb_confirmed sample_seen" "sb_moved_at sample_seen = 0" "sb_number sample_seen = 1000" "\<not> sb_confirmed (seen_block_new 0)"
    by (simp_all add: sample_seen_def confirm_def seen_block_new_def)
  from confirmed_block_holds [of sample_seen "[Reported 1200 5 False, Reported 90000 6 False, Confirmed 1300 7]" 7
      "seen_block_new 0" 50 3] s show ?thesis by simp
qed

end
