(* ===== verification/Chain_Client.thy ===== *)
theory Chain_Client
  imports Seen_Block Ids "HOL-Library.State_Monad"
begin

text \<open>
  \<open>chain_client/client.rs\<close> and \<open>chain_client/gas.rs\<close>: how dipper reads the chain and sends its
  transactions. A node answers a request as the next of a list of events has it; what other calls
  learn of the newest block meanwhile comes with the event. Calls to the contracts are kept as the
  values they encode; signing is a parameter, which gives the hash of what it signs. The locked part
  of a submission runs as one program, its deadline cutting it short at a request.
\<close>

section \<open>Gas\<close>

type_synonym u128 = "128 word"

definition f64_of_word :: "'a::len word \<Rightarrow> f64" where
  "f64_of_word x = f64_of_nat (unat x)"

record gas_estimator =
  ge_buffer_multiplier :: f64
  ge_floor :: u64
  ge_max_addition :: u64

record gas_bounds =
  gb_gas_limit :: u64
  gb_with_buffer :: u64
  gb_ceiling :: u64
  gb_applied_bound :: string

definition compute_bounds :: "gas_estimator \<Rightarrow> u64 \<Rightarrow> gas_bounds" where
  "compute_bounds g estimated =
     (let with_buffer = of_nat (f64_as_unsigned (2 ^ 64 - 1) (f64_mul (f64_of_word estimated) (ge_buffer_multiplier g)));
          ceiling = saturating_add estimated (ge_max_addition g);
          (capped, capped_bound) = (if ceiling < with_buffer then (ceiling, ''ceiling'') else (with_buffer, ''buffer''));
          (gas_limit, applied_bound) = (if ge_floor g > capped then (ge_floor g, ''floor'') else (capped, capped_bound))
      in \<lparr>gb_gas_limit = gas_limit, gb_with_buffer = with_buffer, gb_ceiling = ceiling, gb_applied_bound = applied_bound\<rparr>)"

definition calculate_max_fee :: "u128 \<Rightarrow> u128 \<Rightarrow> f64 \<Rightarrow> u128" where
  "calculate_max_fee base_fee priority_fee multiplier =
     saturating_add (of_nat (f64_as_unsigned (2 ^ 128 - 1) (f64_mul (f64_of_word base_fee) multiplier))) priority_fee"

definition exceeds_max_gas_price :: "u128 \<Rightarrow> u64 \<Rightarrow> bool" where
  "exceeds_max_gas_price max_fee_per_gas max_gwei \<longleftrightarrow> max_fee_per_gas > ucast max_gwei * 1000000000"

definition classify_estimate_error :: "transport_error \<Rightarrow> client_error" where
  "classify_estimate_error e = (case te_revert_data e of
       Some data \<Rightarrow> if length data \<ge> 4 then RevertedWith (take 4 data) data
         else ClientRpcError (''Gas estimation failed: '' @ te_text e)
     | None \<Rightarrow> ClientRpcError (''Gas estimation failed: '' @ te_text e))"

section \<open>Requests and the client\<close>

datatype contract_call =
    OfferAgreement address u8 sol_rca
  | CancelAgreement address agreement_id b256 u16
  | ReconcileProvider address address
  | ReconcileAgreement address agreement_id
  | GetAgreementDetails agreement_id u256
  | GetMaxNextClaim agreement_id
  | GetProviderCount address
  | GetProviderAt address u256
  | GetEscrowAccount address address
  | GetAgreementCount address address
  | GetAgreementAt address address u256

text \<open>What a view returns once decoded.\<close>

datatype view_output =
    ViewState u16
  | ViewNumber u256
  | ViewAddress address
  | ViewEscrow u256 u256 u256
  | ViewId agreement_id

record tx_request =
  tr_from :: address
  tr_to :: address
  tr_input :: "contract_call option"
  tr_value :: u256
  tr_gas_limit :: "u64 option"
  tr_max_fee :: "u128 option"
  tr_priority_fee :: "u128 option"
  tr_chain_id :: "u64 option"
  tr_nonce :: "u64 option"

record block_header =
  bh_number :: u64
  bh_timestamp :: u64
  bh_base_fee :: "u64 option"

record receipt =
  rc_block_number :: "u64 option"
  rc_status :: bool

record node_event =
  ne_took :: duration
  ne_others :: "seen_op list"
  ne_estimate_gas :: "tx_request \<Rightarrow> transport_error + u64"
  ne_latest_block :: "transport_error + block_header option"
  ne_priority_fee :: "transport_error + u128"
  ne_transaction_count :: "address \<Rightarrow> transport_error + u64"
  ne_send_raw :: "tx_request \<Rightarrow> transport_error + b256"
  ne_receipt :: "b256 \<Rightarrow> transport_error + receipt option"
  ne_block_number :: "transport_error + u64"
  ne_heads :: "u64 option list"
  ne_call :: "address \<Rightarrow> contract_call \<Rightarrow> u64 option \<Rightarrow> transport_error + view_output option"

record chain_env = rpc_env +
  ce_events :: "node_event list"
  ce_nonce :: u64
  ce_seen :: seen_block
  ce_heads :: endpoint_heads
  ce_refusals :: refusals
  ce_offered :: "tx_request list"

record chain_client_inner =
  cl_pool :: rpc_pool
  cl_gas :: gas_estimator
  cl_signer :: address
  cl_sign :: "tx_request \<Rightarrow> string + b256"
  cl_collector :: address
  cl_manager :: address
  cl_chain_id :: u64
  cl_gas_price_multiplier :: f64
  cl_max_gas_price_gwei :: u64
  cl_submit_deadline :: duration

type_synonym 'a cprog = "(chain_env, 'a) state"
type_synonym 'a attempt = "nat \<Rightarrow> chain_env \<Rightarrow> (transport_error + 'a) \<times> chain_env"

definition request :: "(node_event \<Rightarrow> transport_error + 'a) \<Rightarrow> chain_env \<Rightarrow> (transport_error + 'a) \<times> chain_env" where
  "request q env = (case ce_events env of
       [] \<Rightarrow> (Inl (custom_str ''connection refused''), env)
     | ev # evs \<Rightarrow> (q ev, env\<lparr>ce_events := evs, env_now := env_now env + ne_took ev,
         ce_seen := fold seen_after (ne_others ev) (ce_seen env)\<rparr>))"

text \<open>A call through the pool, which always returns.\<close>

definition execute :: "chain_client_inner \<Rightarrow> string \<Rightarrow> 'a attempt \<Rightarrow> (client_error + 'a) cprog" where
  "execute c operation f = State (\<lambda>env. case execute_with_endpoint (cl_pool c) operation f env of
       Some r \<Rightarrow> r
     | None \<Rightarrow> (Inl (ClientRpcError ''no endpoint''), env))"

definition env_time :: "nat cprog" where
  "env_time = State (\<lambda>env. (env_now env, env))"

definition PROCESS_JOB_TIMEOUT :: duration where "PROCESS_JOB_TIMEOUT = from_secs 420"

definition derive_submit_deadline :: "rpc_pool \<Rightarrow> duration option" where
  "derive_submit_deadline pool =
     map_option (\<lambda>budget. let cap = PROCESS_JOB_TIMEOUT div 5 * 4 in if budget > cap then cap else budget)
       (checked_duration (rp_worst_case_walk pool * 2))"

section \<open>Nonces\<close>

definition OFFER_TYPE_NEW :: u8 where "OFFER_TYPE_NEW = 1"
definition NONCE_UNINITIALIZED :: u64 where "NONCE_UNINITIALIZED = - 1"
definition MAX_NONCE_RETRIES :: u32 where "MAX_NONCE_RETRIES = 2"

definition NONCE_ERROR_PATTERNS :: "string list" where
  "NONCE_ERROR_PATTERNS = [''nonce too low'', ''nonce is too low'', ''invalid nonce'', ''replacement transaction underpriced'',
     ''already known'']"

definition is_nonce_error :: "string \<Rightarrow> bool" where
  "is_nonce_error e \<longleftrightarrow> (\<exists>p \<in> set NONCE_ERROR_PATTERNS. str_contains (to_lowercase e) p)"

definition ALREADY_BROADCAST_PATTERNS :: "string list" where
  "ALREADY_BROADCAST_PATTERNS = [''already known'', ''already imported'', ''known transaction'']"

definition is_already_broadcast :: "transport_error \<Rightarrow> bool" where
  "is_already_broadcast e \<longleftrightarrow> (\<exists>p \<in> set ALREADY_BROADCAST_PATTERNS. str_contains (to_lowercase (te_text e)) p)"

definition hash_hex :: "b256 \<Rightarrow> string" where
  "hash_hex h = ''0x'' @ concat (map (\<lambda>i. byte_hex (ucast (drop_bit (8 * (31 - i)) h))) [0..<32])"

fun error_text :: "client_error \<Rightarrow> string" where
  "error_text (SubmitError s) = ''failed to submit transaction: '' @ s"
| "error_text (ClientConfigError s) = ''configuration error: '' @ s"
| "error_text (ClientRpcError s) = ''RPC error: '' @ s"
| "error_text (Dropped h _) = ''tx '' @ hash_hex h @ '' did not mine within the receipt-poll window''"
| "error_text (Reverted h) = ''tx '' @ hash_hex h @ '' reverted on-chain''"
| "error_text (RevertedWith selector _) = ''contract reverted with selector 0x'' @ concat (map byte_hex selector)"

definition classify_fill_nonce_gap_outcome :: "client_error + b256 \<Rightarrow> client_error + unit" where
  "classify_fill_nonce_gap_outcome submission = (case submission of
       Inr _ \<Rightarrow> Inr ()
     | Inl e \<Rightarrow> if is_nonce_error (error_text e) then Inr () else Inl e)"

record submitted_tx =
  st_hash :: b256
  st_nonce :: u64

definition fetch_chain_nonce :: "chain_client_inner \<Rightarrow> (client_error + u64) cprog" where
  "fetch_chain_nonce c = execute c ''get_nonce'' (\<lambda>_. request (\<lambda>ev. ne_transaction_count ev (cl_signer c)))"

text \<open>A request cut short once the submission's deadline has passed: \<open>None\<close>.\<close>

definition cut_at :: "nat \<Rightarrow> 'a cprog \<Rightarrow> 'a option cprog" where
  "cut_at deadline m = do {
     x \<leftarrow> m;
     now \<leftarrow> env_time;
     State_Monad.return (if now > deadline then None else Some x) }"

definition store_nonce :: "(u64 \<Rightarrow> u64) \<Rightarrow> unit cprog" where
  "store_nonce f = State (\<lambda>env. ((), env\<lparr>ce_nonce := f (ce_nonce env)\<rparr>))"

definition next_nonce :: "chain_client_inner \<Rightarrow> nat \<Rightarrow> (client_error + u64) option cprog" where
  "next_nonce c deadline = do {
     current \<leftarrow> State (\<lambda>env. (ce_nonce env, env));
     if current \<noteq> NONCE_UNINITIALIZED then State_Monad.return (Some (Inr current))
     else do {
       fetched \<leftarrow> cut_at deadline (fetch_chain_nonce c);
       case fetched of
         Some (Inr chain_nonce) \<Rightarrow> do {
           _ \<leftarrow> store_nonce (\<lambda>_. chain_nonce);
           State_Monad.return (Some (Inr chain_nonce)) }
       | _ \<Rightarrow> State_Monad.return fetched } }"

definition commit_nonce :: "u64 \<Rightarrow> unit cprog" where
  "commit_nonce nonce = store_nonce (max (nonce + 1))"

definition resync_nonce :: "chain_client_inner \<Rightarrow> nat \<Rightarrow> (client_error + unit) option cprog" where
  "resync_nonce c deadline = do {
     fetched \<leftarrow> cut_at deadline (fetch_chain_nonce c);
     case fetched of
       None \<Rightarrow> State_Monad.return None
     | Some (Inl e) \<Rightarrow> State_Monad.return (Some (Inl e))
     | Some (Inr chain_nonce) \<Rightarrow> do {
         _ \<leftarrow> store_nonce (max chain_nonce);
         State_Monad.return (Some (Inr ())) } }"

section \<open>Sending\<close>

definition send_failure :: "client_error \<Rightarrow> client_error" where
  "send_failure e = (case e of ClientRpcError cause \<Rightarrow> SubmitError cause | _ \<Rightarrow> e)"

definition offer_raw :: "tx_request \<Rightarrow> b256 \<Rightarrow> b256 attempt" where
  "offer_raw tx signed_hash position env =
     (case request (\<lambda>ev. ne_send_raw ev tx) (env\<lparr>ce_offered := ce_offered env @ [tx]\<rparr>) of
        (Inr _, env') \<Rightarrow> (Inr signed_hash, env')
      | (Inl e, env') \<Rightarrow> (if is_already_broadcast e then Inr signed_hash else Inl e, env'))"

definition send_transaction :: "chain_client_inner \<Rightarrow> tx_request \<Rightarrow> (client_error + b256) cprog" where
  "send_transaction c tx =
     (if tr_chain_id tx \<noteq> Some (cl_chain_id c)
      then State_Monad.return (Inl (SubmitError (''refusing to sign for another chain than '' @ decimal (unat (cl_chain_id c)))))
      else case cl_sign c tx of
        Inl e \<Rightarrow> State_Monad.return (Inl (SubmitError (''Transaction not ready to send: '' @ e)))
      | Inr signed_hash \<Rightarrow> do {
          r \<leftarrow> execute c ''send_transaction'' (offer_raw tx signed_hash);
          State_Monad.return (case r of Inl e \<Rightarrow> Inl (send_failure e) | Inr h \<Rightarrow> Inr h) })"

text \<open>The attempts of \<open>sign_and_send_locked\<close>; \<open>None\<close> once its deadline has cut it short.\<close>

fun send_attempts :: "chain_client_inner \<Rightarrow> tx_request \<Rightarrow> nat \<Rightarrow> u32 list \<Rightarrow> (client_error + submitted_tx) option cprog" where
  "send_attempts c tx deadline [] =
     State_Monad.return (Some (Inl (SubmitError ''Failed to send transaction after 2 nonce retries'')))"
| "send_attempts c tx deadline (attempt # rest) = do {
     synced \<leftarrow> (if attempt > 0 then resync_nonce c deadline else State_Monad.return (Some (Inr ())));
     case synced of
       None \<Rightarrow> State_Monad.return None
     | Some (Inl e) \<Rightarrow> State_Monad.return (Some (Inl e))
     | Some (Inr _) \<Rightarrow> do {
         next \<leftarrow> next_nonce c deadline;
         case next of
           None \<Rightarrow> State_Monad.return None
         | Some (Inl e) \<Rightarrow> State_Monad.return (Some (Inl e))
         | Some (Inr nonce) \<Rightarrow> do {
             result \<leftarrow> cut_at deadline (send_transaction c (tx\<lparr>tr_nonce := Some nonce\<rparr>));
             case result of
               None \<Rightarrow> State_Monad.return None
             | Some (Inr tx_hash) \<Rightarrow> do {
                 _ \<leftarrow> commit_nonce nonce;
                 State_Monad.return (Some (Inr \<lparr>st_hash = tx_hash, st_nonce = nonce\<rparr>)) }
             | Some (Inl e) \<Rightarrow>
                 if is_nonce_error (error_text e) \<and> attempt + 1 < MAX_NONCE_RETRIES
                 then send_attempts c tx deadline rest
                 else State_Monad.return (Some (Inl e)) } } }"

definition sign_and_send :: "chain_client_inner \<Rightarrow> tx_request \<Rightarrow> (client_error + submitted_tx) cprog" where
  "sign_and_send c tx = do {
     now \<leftarrow> env_time;
     done \<leftarrow> send_attempts c tx (now + cl_submit_deadline c) [0, 1];
     State_Monad.return (case done of
         Some r \<Rightarrow> r
       | None \<Rightarrow> Inl (SubmitError (''gave up submitting after '' @ decimal (cl_submit_deadline c div 1000000000) @
           ''s holding the submission lock''))) }"

definition get_gas_prices :: "chain_client_inner \<Rightarrow> (client_error + u128 \<times> u128) cprog" where
  "get_gas_prices c = execute c ''get_gas_prices'' (\<lambda>_ env.
     case request ne_latest_block env of
       (Inl e, env1) \<Rightarrow> (Inl (custom_str (''RPC error: Failed to get block: '' @ te_text e)), env1)
     | (Inr None, env1) \<Rightarrow> (Inl (custom_str ''RPC error: No latest block found''), env1)
     | (Inr (Some block), env1) \<Rightarrow>
         (case bh_base_fee block of
            None \<Rightarrow> (Inl (custom_str ''RPC error: Block has no base fee (pre-EIP-1559?)''), env1)
          | Some base_fee \<Rightarrow>
              (case request ne_priority_fee env1 of
                 (Inl e, env2) \<Rightarrow> (Inl (custom_str (''RPC error: Failed to get priority fee: '' @ te_text e)), env2)
               | (Inr priority_fee, env2) \<Rightarrow> (Inr (ucast base_fee, priority_fee), env2))))"

definition boxed :: "client_error \<Rightarrow> transport_error" where
  "boxed e = (custom_str (error_text e))\<lparr>te_boxed := Some e\<rparr>"

definition estimate_gas :: "chain_client_inner \<Rightarrow> tx_request \<Rightarrow> (client_error + u64) cprog" where
  "estimate_gas c tx = execute c ''estimate_gas'' (\<lambda>_ env.
     case request (\<lambda>ev. ne_estimate_gas ev tx) env of
       (Inl e, env') \<Rightarrow> (Inl (boxed (classify_estimate_error e)), env')
     | (Inr estimated, env') \<Rightarrow> (Inr (gb_gas_limit (compute_bounds (cl_gas c) estimated)), env'))"

definition call_request :: "chain_client_inner \<Rightarrow> address \<Rightarrow> contract_call \<Rightarrow> tx_request" where
  "call_request c dest call = \<lparr>tr_from = cl_signer c, tr_to = dest, tr_input = Some call, tr_value = 0, tr_gas_limit = None,
     tr_max_fee = None, tr_priority_fee = None, tr_chain_id = None, tr_nonce = None\<rparr>"

definition build_and_send_call :: "chain_client_inner \<Rightarrow> address \<Rightarrow> contract_call \<Rightarrow> (client_error + submitted_tx) cprog" where
  "build_and_send_call c dest call = do {
     let tx = call_request c dest call;
     limit \<leftarrow> estimate_gas c tx;
     case limit of
       Inl e \<Rightarrow> State_Monad.return (Inl e)
     | Inr gas_limit \<Rightarrow> do {
         prices \<leftarrow> get_gas_prices c;
         case prices of
           Inl e \<Rightarrow> State_Monad.return (Inl e)
         | Inr (base_fee, priority_fee) \<Rightarrow>
             (let max_fee = calculate_max_fee base_fee priority_fee (cl_gas_price_multiplier c)
              in if exceeds_max_gas_price max_fee (cl_max_gas_price_gwei c)
                 then State_Monad.return (Inl (SubmitError (''Gas price '' @ decimal (unat (max_fee div 1000000000)) @
                   '' gwei exceeds maximum '' @ decimal (unat (cl_max_gas_price_gwei c)) @ '' gwei'')))
                 else sign_and_send c (tx\<lparr>tr_gas_limit := Some gas_limit, tr_max_fee := Some max_fee,
                   tr_priority_fee := Some priority_fee, tr_chain_id := Some (cl_chain_id c)\<rparr>)) } }"

definition fill_nonce_gap :: "chain_client_inner \<Rightarrow> u64 \<Rightarrow> (client_error + unit) cprog" where
  "fill_nonce_gap c nonce = do {
     prices \<leftarrow> get_gas_prices c;
     case prices of
       Inl e \<Rightarrow> State_Monad.return (Inl e)
     | Inr (base_fee, priority_fee) \<Rightarrow> do {
         sent \<leftarrow> send_transaction c \<lparr>tr_from = cl_signer c, tr_to = cl_signer c, tr_input = None, tr_value = 0,
           tr_gas_limit = Some 21000, tr_max_fee = Some (calculate_max_fee base_fee priority_fee (cl_gas_price_multiplier c)),
           tr_priority_fee = Some priority_fee, tr_chain_id = Some (cl_chain_id c), tr_nonce = Some nonce\<rparr>;
         State_Monad.return (classify_fill_nonce_gap_outcome sent) } }"

definition RECEIPT_POLL_TIMEOUT :: duration where "RECEIPT_POLL_TIMEOUT = from_secs 15"
definition RECEIPT_POLL_INTERVAL :: duration where "RECEIPT_POLL_INTERVAL = from_millis 500"

datatype receipt_wait = Mined bool | NotSeen bool

definition confirm_block :: "u64 \<Rightarrow> chain_env \<Rightarrow> chain_env" where
  "confirm_block block env = env\<lparr>ce_seen := confirm block (env_now env) (ce_seen env)\<rparr>"

text \<open>The receipt poll; \<open>None\<close> would be that it never ends.\<close>

partial_function (option) poll_receipt :: "chain_client_inner \<Rightarrow> b256 \<Rightarrow> nat \<Rightarrow> bool \<Rightarrow> chain_env \<Rightarrow>
    (receipt_wait \<times> chain_env) option" where
  "poll_receipt c tx_hash deadline checked env =
     (case run_state (execute c ''get_transaction_receipt'' (\<lambda>_. request (\<lambda>ev. ne_receipt ev tx_hash))) env of
        (receipt, env') \<Rightarrow>
          (case receipt of
             Inr (Some r) \<Rightarrow> Some (Mined (rc_status r),
               (case rc_block_number r of None \<Rightarrow> env' | Some block \<Rightarrow> confirm_block block env'))
           | _ \<Rightarrow>
               (let checked' = (checked \<or> receipt = Inr None)
                in if env_now env' \<ge> deadline then Some (NotSeen checked', env')
                   else poll_receipt c tx_hash deadline checked' (sleep RECEIPT_POLL_INTERVAL env'))))"

definition wait_for_receipt :: "chain_client_inner \<Rightarrow> b256 \<Rightarrow> duration \<Rightarrow> receipt_wait cprog" where
  "wait_for_receipt c tx_hash timeout = State (\<lambda>env.
     case poll_receipt c tx_hash (env_now env + timeout) False env of
       Some r \<Rightarrow> r
     | None \<Rightarrow> (NotSeen False, env))"

text \<open>A call of the manager, sent and waited for: offers, cancels and reconciles alike.\<close>

definition settle_tx :: "chain_client_inner \<Rightarrow> submitted_tx \<Rightarrow> (client_error + b256 option) cprog" where
  "settle_tx c submitted = do {
     waited \<leftarrow> wait_for_receipt c (st_hash submitted) RECEIPT_POLL_TIMEOUT;
     case waited of
       Mined ok \<Rightarrow> State_Monad.return (if ok then Inr (Some (st_hash submitted)) else Inl (Reverted (st_hash submitted)))
     | NotSeen checked \<Rightarrow> do {
         _ \<leftarrow> fill_nonce_gap c (st_nonce submitted);
         State_Monad.return (Inl (Dropped (st_hash submitted) checked)) } }"

definition send_reconcile :: "chain_client_inner \<Rightarrow> contract_call \<Rightarrow> (client_error + b256 option) cprog" where
  "send_reconcile c call = do {
     sent \<leftarrow> build_and_send_call c (cl_manager c) call;
     case sent of Inl e \<Rightarrow> State_Monad.return (Inl e) | Inr submitted \<Rightarrow> settle_tx c submitted }"

definition offer_via_manager :: "chain_client_inner \<Rightarrow> sol_rca \<Rightarrow> (client_error + b256 option) cprog" where
  "offer_via_manager c rca = do {
     sent \<leftarrow> build_and_send_call c (cl_manager c) (OfferAgreement (cl_collector c) OFFER_TYPE_NEW rca);
     case sent of Inl e \<Rightarrow> State_Monad.return (Inl e) | Inr submitted \<Rightarrow> settle_tx c submitted }"

definition cancel_via_manager :: "chain_client_inner \<Rightarrow> address \<Rightarrow> agreement_id \<Rightarrow> b256 \<Rightarrow> u16 \<Rightarrow>
    (client_error + b256 option) cprog" where
  "cancel_via_manager c collector i version_hash options = do {
     sent \<leftarrow> build_and_send_call c (cl_manager c) (CancelAgreement collector i version_hash options);
     case sent of Inl e \<Rightarrow> State_Monad.return (Inl e) | Inr submitted \<Rightarrow> settle_tx c submitted }"

definition reconcile_provider :: "chain_client_inner \<Rightarrow> address \<Rightarrow> address \<Rightarrow> (client_error + b256 option) cprog" where
  "reconcile_provider c collector provider = send_reconcile c (ReconcileProvider collector provider)"

definition reconcile_agreement :: "chain_client_inner \<Rightarrow> address \<Rightarrow> agreement_id \<Rightarrow> (client_error + b256 option) cprog" where
  "reconcile_agreement c collector i = send_reconcile c (ReconcileAgreement collector i)"

section \<open>Reading\<close>

definition CROSS_CHECK_DEADLINE :: duration where "CROSS_CHECK_DEADLINE = from_secs 3"

text \<open>Every endpoint is asked at once, and none waited for past the deadline.\<close>

definition ask_heads :: "chain_env \<Rightarrow> u64 list \<times> chain_env" where
  "ask_heads env = (case ce_events env of
       [] \<Rightarrow> ([], env)
     | ev # evs \<Rightarrow> (latest_blocks (ne_heads ev), env\<lparr>ce_events := evs,
         env_now := env_now env + min (ne_took ev) CROSS_CHECK_DEADLINE,
         ce_seen := fold seen_after (ne_others ev) (ce_seen env)\<rparr>))"

definition cross_check_seen_block :: "chain_client_inner \<Rightarrow> unit cprog" where
  "cross_check_seen_block c = State (\<lambda>env.
     if endpoint_count (cl_pool c) < 2 then ((), env)
     else let (due, seen) = cross_check_due (env_now env) (ce_seen env)
          in if \<not> due then ((), env\<lparr>ce_seen := seen\<rparr>)
          else case ask_heads (env\<lparr>ce_seen := seen\<rparr>) of
              (heads, env') \<Rightarrow> (case agreed_head heads of
                  Some (Some head) \<Rightarrow> ((), confirm_block head env')
                | _ \<Rightarrow> ((), env')))"

definition note_block :: "chain_client_inner \<Rightarrow> u64 \<Rightarrow> unit cprog" where
  "note_block c block = State (\<lambda>env.
     ((), env\<lparr>ce_seen := snd (advance block (env_now env) (endpoint_count (cl_pool c) < 2) (ce_seen env))\<rparr>))"

definition count_failure :: "(transport_error + 'a) \<times> chain_env \<Rightarrow> (transport_error + 'a) \<times> chain_env" where
  "count_failure r = (fst r, (snd r)\<lparr>ce_refusals := count_other (fst r) (ce_refusals (snd r))\<rparr>)"

text \<open>An endpoint's latest block, asked for unless a fresh one not behind \<open>seen\<close> is at hand.\<close>

definition latest_head :: "nat \<Rightarrow> u64 \<Rightarrow> chain_env \<Rightarrow> (transport_error + u64) \<times> chain_env" where
  "latest_head endpoint seen env =
     (case Option.bind (fresh_head endpoint (env_now env) (ce_heads env)) (\<lambda>head. if head \<ge> seen then Some head else None) of
        Some head \<Rightarrow> (Inr head, env)
      | None \<Rightarrow> (case count_failure (request ne_block_number env) of
          (Inl e, env') \<Rightarrow> (Inl e, env')
        | (Inr head, env') \<Rightarrow> (Inr head, env'\<lparr>ce_heads := remember_head endpoint head (env_now env) (ce_heads env')\<rparr>)))"

definition refuse :: "(refusals \<Rightarrow> (transport_error + unit) \<times> refusals) \<Rightarrow> chain_env \<Rightarrow> (transport_error + unit) \<times> chain_env" where
  "refuse f env = (case f (ce_refusals env) of (r, rf) \<Rightarrow> (r, env\<lparr>ce_refusals := rf\<rparr>))"

definition read_at_head :: "address \<Rightarrow> contract_call \<Rightarrow> u64 \<Rightarrow> u64 \<Rightarrow> u64 \<Rightarrow> chain_env \<Rightarrow>
    (transport_error + view_output option) \<times> chain_env" where
  "read_at_head dest call seen highest head env =
     (case refuse (refuse_behind head seen) env of
        (Inl e, env1) \<Rightarrow> (Inl e, env1)
      | (Inr _, env1) \<Rightarrow>
          (case refuse (refuse_far_ahead head seen highest) env1 of
             (Inl e, env2) \<Rightarrow> (Inl e, env2)
           | (Inr _, env2) \<Rightarrow> count_failure (request (\<lambda>ev. ne_call ev dest call (Some head)) env2)))"

definition view_attempt :: "address \<Rightarrow> contract_call \<Rightarrow> u64 \<Rightarrow> u64 \<Rightarrow> (u64 \<times> view_output option) attempt" where
  "view_attempt dest call seen highest endpoint env =
     (case latest_head endpoint seen env of
        (Inl e, env1) \<Rightarrow> (Inl e, env1)
      | (Inr head, env1) \<Rightarrow>
          (case read_at_head dest call seen highest head env1 of
             (Inl e, env2) \<Rightarrow> (Inl e, env2\<lparr>ce_heads := forget_head endpoint (ce_heads env2)\<rparr>)
           | (Inr out, env2) \<Rightarrow> (Inr (head, out), env2)))"

definition start_read :: "(u64 \<times> u64) cprog" where
  "start_read = State (\<lambda>env. (block_bounds (ce_seen env) (env_now env), env\<lparr>ce_refusals := refusals_new\<rparr>))"

definition undecodable :: "string \<Rightarrow> client_error" where
  "undecodable operation = ClientRpcError (''undecodable '' @ operation)"

definition view_at_seen_block :: "chain_client_inner \<Rightarrow> address \<Rightarrow> contract_call \<Rightarrow> string \<Rightarrow>
    (client_error + view_output) cprog" where
  "view_at_seen_block c dest call operation = do {
     _ \<leftarrow> cross_check_seen_block c;
     (seen, highest) \<leftarrow> start_read;
     r \<leftarrow> execute c operation (view_attempt dest call seen highest);
     case r of
       Inl e \<Rightarrow> State_Monad.return (Inl e)
     | Inr (head, out) \<Rightarrow> do {
         _ \<leftarrow> note_block c head;
         State_Monad.return (case out of None \<Rightarrow> Inl (undecodable operation) | Some v \<Rightarrow> Inr v) } }"

definition view :: "chain_client_inner \<Rightarrow> address \<Rightarrow> contract_call \<Rightarrow> string \<Rightarrow> (client_error + view_output) cprog" where
  "view c dest call operation = do {
     r \<leftarrow> execute c operation (\<lambda>_. request (\<lambda>ev. ne_call ev dest call None));
     State_Monad.return (case r of
         Inl e \<Rightarrow> Inl e
       | Inr None \<Rightarrow> Inl (undecodable operation)
       | Inr (Some v) \<Rightarrow> Inr v) }"

definition VERSION_CURRENT :: u256 where "VERSION_CURRENT = 0"
definition STATE_REGISTERED :: u16 where "STATE_REGISTERED = 1"
definition STATE_ACCEPTED :: u16 where "STATE_ACCEPTED = 2"
definition STATE_NOTICE_GIVEN :: u16 where "STATE_NOTICE_GIVEN = 4"
definition STATE_SETTLED :: u16 where "STATE_SETTLED = 8"
definition STATE_BY_PROVIDER :: u16 where "STATE_BY_PROVIDER = 32"

definition still_live :: "u16 \<Rightarrow> bool" where
  "still_live state =
     (let accepted = (and state STATE_ACCEPTED \<noteq> 0);
          pending_offer = (and state STATE_REGISTERED \<noteq> 0 \<and> \<not> accepted \<and> and state STATE_SETTLED = 0)
      in pending_offer \<or> accepted \<and> and state STATE_NOTICE_GIVEN = 0)"

definition on_chain :: "u16 \<Rightarrow> agreement_on_chain" where
  "on_chain state = (if still_live state then Live
     else if and state STATE_BY_PROVIDER \<noteq> 0 then EndedByIndexer else NotLive)"

definition agreement_state :: "chain_client_inner \<Rightarrow> agreement_id \<Rightarrow> (client_error + u16) cprog" where
  "agreement_state c i = do {
     r \<leftarrow> view_at_seen_block c (cl_collector c) (GetAgreementDetails i VERSION_CURRENT) ''get_agreement_details'';
     State_Monad.return (case r of
         Inl e \<Rightarrow> Inl e
       | Inr (ViewState s) \<Rightarrow> Inr s
       | Inr _ \<Rightarrow> Inl (undecodable ''get_agreement_details'')) }"

definition read_agreement_on_chain :: "chain_client_inner \<Rightarrow> agreement_id \<Rightarrow> (client_error + agreement_on_chain) cprog" where
  "read_agreement_on_chain c i = do {
     r \<leftarrow> agreement_state c i;
     State_Monad.return (case r of Inl e \<Rightarrow> Inl e | Inr s \<Rightarrow> Inr (on_chain s)) }"

definition block_attempt :: "u64 \<Rightarrow> u64 \<Rightarrow> block_header option attempt" where
  "block_attempt seen highest endpoint env =
     (case count_failure (request ne_latest_block env) of
        (Inl e, env1) \<Rightarrow> (Inl e, env1)
      | (Inr None, env1) \<Rightarrow> (Inr None, env1)
      | (Inr (Some block), env1) \<Rightarrow>
          (case refuse (refuse_far_ahead (bh_number block) seen highest) env1 of
             (Inl e, env2) \<Rightarrow> (Inl e, env2)
           | (Inr _, env2) \<Rightarrow> (Inr (Some block), env2)))"

definition latest_block_timestamp :: "chain_client_inner \<Rightarrow> (client_error + u64) cprog" where
  "latest_block_timestamp c = do {
     _ \<leftarrow> cross_check_seen_block c;
     (seen, highest) \<leftarrow> start_read;
     r \<leftarrow> execute c ''get_latest_block'' (block_attempt seen highest);
     case r of
       Inl e \<Rightarrow> State_Monad.return (Inl e)
     | Inr None \<Rightarrow> State_Monad.return (Inl (ClientRpcError ''no latest block returned''))
     | Inr (Some block) \<Rightarrow> do {
         _ \<leftarrow> note_block c (bh_number block);
         State_Monad.return (Inr (bh_timestamp block)) } }"

section \<open>The manager's escrow\<close>

text \<open>\<open>u64::try_from\<close> of a \<open>U256\<close>.\<close>

definition count_from :: "u256 \<Rightarrow> u64 option" where
  "count_from n = (if uint n < 2 ^ 64 then Some (ucast n) else None)"

definition view_count :: "chain_client_inner \<Rightarrow> contract_call \<Rightarrow> string \<Rightarrow> (client_error + u64) cprog" where
  "view_count c call operation = do {
     r \<leftarrow> view c (cl_manager c) call operation;
     State_Monad.return (case r of
         Inl e \<Rightarrow> Inl e
       | Inr (ViewNumber n) \<Rightarrow> (case count_from n of
           None \<Rightarrow> Inl (ClientRpcError ''implausible count'')
         | Some k \<Rightarrow> Inr k)
       | Inr _ \<Rightarrow> Inl (undecodable operation)) }"

record tracked_providers =
  tp_providers :: "address list"
  tp_complete :: bool

text \<open>The loop over the list, up to its first index that cannot be read.\<close>

fun read_providers :: "chain_client_inner \<Rightarrow> address \<Rightarrow> nat list \<Rightarrow> tracked_providers \<Rightarrow> tracked_providers cprog" where
  "read_providers c collector [] acc = State_Monad.return acc"
| "read_providers c collector (index # rest) acc = do {
     r \<leftarrow> view c (cl_manager c) (GetProviderAt collector (of_nat index)) ''get_provider_at'';
     case r of
       Inr (ViewAddress provider) \<Rightarrow>
         read_providers c collector rest
           (if provider \<in> set (tp_providers acc) then acc\<lparr>tp_complete := False\<rparr>
            else acc\<lparr>tp_providers := tp_providers acc @ [provider]\<rparr>)
     | _ \<Rightarrow> State_Monad.return (acc\<lparr>tp_complete := False\<rparr>) }"

definition tracked_providers_of :: "chain_client_inner \<Rightarrow> address \<Rightarrow> (client_error + tracked_providers) cprog" where
  "tracked_providers_of c collector = do {
     n \<leftarrow> view_count c (GetProviderCount collector) ''get_provider_count'';
     case n of
       Inl e \<Rightarrow> State_Monad.return (Inl e)
     | Inr count \<Rightarrow> do {
         out \<leftarrow> read_providers c collector [0..<unat count] \<lparr>tp_providers = [], tp_complete = True\<rparr>;
         State_Monad.return (Inr out) } }"

record escrow_account =
  ea_balance :: u256
  ea_tokens_thawing :: u256
  ea_thaw_end_timestamp :: u256

definition escrow_account_of :: "chain_client_inner \<Rightarrow> address \<Rightarrow> address \<Rightarrow> (client_error + escrow_account) cprog" where
  "escrow_account_of c collector provider = do {
     r \<leftarrow> view c (cl_manager c) (GetEscrowAccount collector provider) ''get_escrow_account'';
     State_Monad.return (case r of
         Inl e \<Rightarrow> Inl e
       | Inr (ViewEscrow balance thawing thaw_end) \<Rightarrow>
           Inr \<lparr>ea_balance = balance, ea_tokens_thawing = thawing, ea_thaw_end_timestamp = thaw_end\<rparr>
       | Inr _ \<Rightarrow> Inl (undecodable ''get_escrow_account'')) }"

definition tracked_agreement_count :: "chain_client_inner \<Rightarrow> address \<Rightarrow> address \<Rightarrow> (client_error + u64) cprog" where
  "tracked_agreement_count c collector provider =
     view_count c (GetAgreementCount collector provider) ''get_agreement_count''"

definition tracked_agreement_at :: "chain_client_inner \<Rightarrow> address \<Rightarrow> address \<Rightarrow> u64 \<Rightarrow> (client_error + agreement_id) cprog" where
  "tracked_agreement_at c collector provider index = do {
     r \<leftarrow> view c (cl_manager c) (GetAgreementAt collector provider (ucast index)) ''get_agreement_at'';
     State_Monad.return (case r of
         Inl e \<Rightarrow> Inl e
       | Inr (ViewId i) \<Rightarrow> Inr i
       | Inr _ \<Rightarrow> Inl (undecodable ''get_agreement_at'')) }"

definition max_next_claim :: "chain_client_inner \<Rightarrow> address \<Rightarrow> agreement_id \<Rightarrow> (client_error + u256) cprog" where
  "max_next_claim c collector i = do {
     r \<leftarrow> view c collector (GetMaxNextClaim i) ''get_max_next_claim'';
     State_Monad.return (case r of
         Inl e \<Rightarrow> Inl e
       | Inr (ViewNumber n) \<Rightarrow> Inr n
       | Inr _ \<Rightarrow> Inl (undecodable ''get_max_next_claim'')) }"

section \<open>What a call through the pool keeps\<close>

text \<open>
  A relation on environments that every attempt, pause and rotation keeps, the call keeps.
\<close>

locale kept =
  fixes R :: "chain_env \<Rightarrow> chain_env \<Rightarrow> bool"
  assumes kept_refl: "R env env" and kept_trans: "R env env1 \<Longrightarrow> R env1 env2 \<Longrightarrow> R env env2"
    and kept_sleep: "R env (sleep d env)" and kept_rotate: "R env (rotate_pool env)"
begin

lemma kept_attempts:
  fixes f :: "'a attempt"
  assumes "\<And>env. R env (snd (f position env))"
  shows "R env (snd (ask_attempts position max_retries f attempt lag err env))"
proof (induction "Suc (unat max_retries) - attempt" arbitrary: attempt lag err env)
  case 0
  then show ?case by (subst ask_attempts.simps) (simp add: kept_refl)
next
  case (Suc n)
  obtain x env1 where x: "f position env = (x, env1)" by fastforce
  with assms [of env] have r: "R env env1" by simp
  have "R env (snd (ask_attempts position max_retries f (Suc attempt) lag' err' (sleep d env1)))" for lag' err' d
  proof -
    have "n = Suc (unat max_retries) - Suc attempt" using Suc.hyps(2) by simp
    from kept_trans [OF kept_trans [OF r kept_sleep] Suc.hyps(1) [OF this]] show ?thesis .
  qed
  with r Suc.hyps(2) show ?case
    by (subst ask_attempts.simps) (simp add: x kept_refl split: sum.split)
qed

lemma kept_walk:
  fixes f :: "'a attempt"
  assumes "\<And>position env. R env (snd (f position env))"
    and "walk_ring pool operation max_retries f start tried reasons named env = Some (r, env')"
  shows "R env env'"
  using assms(2)
proof (induction "length (rp_providers pool) - tried" arbitrary: tried reasons named env)
  case 0
  obtain x env1 where x: "ask_endpoint (unat (start + of_nat tried) mod length (rp_providers pool)) max_retries f env = (x, env1)"
    by fastforce
  with kept_attempts [of f, OF assms(1)] have "R env env1" by (metis ask_endpoint_def snd_conv)
  with 0 x show ?case by (subst (asm) walk_ring.simps) (auto simp: Let_def split: sum.splits)
next
  case (Suc n)
  obtain x env1 where x: "ask_endpoint (unat (start + of_nat tried) mod length (rp_providers pool)) max_retries f env = (x, env1)"
    by fastforce
  with kept_attempts [of f, OF assms(1)] have r: "R env env1" by (metis ask_endpoint_def snd_conv)
  have n: "n = length (rp_providers pool) - Suc tried" using Suc.hyps(2) by simp
  from Suc.prems consider "env' = env1" |
    reasons' named' where "walk_ring pool operation max_retries f start (Suc tried) reasons' named' (rotate_pool env1) = Some (r, env')"
    by (subst (asm) walk_ring.simps) (auto simp: x Let_def split: sum.splits if_splits)
  then show ?case
  proof cases
    case 2
    from Suc.hyps(1) [OF n 2] show ?thesis by (rule kept_trans [OF kept_trans [OF r kept_rotate]])
  qed (simp add: r)
qed

lemma kept_execute:
  fixes f :: "'a attempt"
  assumes "\<And>position env. R env (snd (f position env))"
  shows "R env (snd (run_state (execute c operation f) env))"
proof -
  have "R env (snd (case execute_with_endpoint (cl_pool c) operation f env of
      Some r \<Rightarrow> r | None \<Rightarrow> (Inl (ClientRpcError ''no endpoint''), env)))"
    using kept_walk [OF assms] by (auto simp: execute_with_endpoint_def execute_with_retries_def kept_refl split: option.split)
  then show ?thesis by (simp add: execute_def)
qed

lemma kept_bind:
  assumes "\<And>env. R env (snd (run_state m env))" and "\<And>x env. R env (snd (run_state (k x) env))"
  shows "R env (snd (run_state (State_Monad.bind m k) env))"
proof -
  obtain x env1 where x: "run_state m env = (x, env1)" by fastforce
  with assms(1) [of env] assms(2) [of env1 x] show ?thesis by (auto intro: kept_trans)
qed

lemma kept_return: "R env (snd (run_state (State_Monad.return x) env))"
  by (simp add: kept_refl)

lemma kept_if:
  "(b \<Longrightarrow> R env (snd (run_state m env))) \<Longrightarrow> (\<not> b \<Longrightarrow> R env (snd (run_state m' env))) \<Longrightarrow>
    R env (snd (run_state (if b then m else m') env))"
  by simp

lemma kept_option:
  "(x = None \<Longrightarrow> R env (snd (run_state m env))) \<Longrightarrow> (\<And>y. x = Some y \<Longrightarrow> R env (snd (run_state (k y) env))) \<Longrightarrow>
    R env (snd (run_state (case x of None \<Rightarrow> m | Some y \<Rightarrow> k y) env))"
  by (cases x) simp_all

lemma kept_sum:
  "(\<And>e. x = Inl e \<Longrightarrow> R env (snd (run_state (h e) env))) \<Longrightarrow> (\<And>y. x = Inr y \<Longrightarrow> R env (snd (run_state (k y) env))) \<Longrightarrow>
    R env (snd (run_state (case x of Inl e \<Rightarrow> h e | Inr y \<Rightarrow> k y) env))"
  by (cases x) simp_all

lemmas kept_rules = kept_bind kept_return kept_if kept_option kept_sum

lemma attempt_result:
  fixes f :: "'a attempt"
  assumes f: "\<And>env. R env (snd (f position env))"
    and Q: "\<And>env1 v env2. R env0 env1 \<Longrightarrow> f position env1 = (Inr v, env2) \<Longrightarrow> Q v"
    and "R env0 env" and "ask_attempts position max_retries f attempt lag err env = (Inr v, env')"
  shows "Q v"
  using assms(3,4)
proof (induction "Suc (unat max_retries) - attempt" arbitrary: attempt lag err env)
  case 0
  then show ?case by (subst (asm) ask_attempts.simps) simp
next
  case (Suc n)
  obtain x env1 where x: "f position env = (x, env1)" by fastforce
  with f [of env] have r: "R env env1" by simp
  have n: "n = Suc (unat max_retries) - Suc attempt" using Suc.hyps(2) by simp
  have next_env: "R env0 (sleep d env1)" for d by (rule kept_trans [OF kept_trans [OF Suc.prems(1) r] kept_sleep])
  from Suc.prems(2) Suc.hyps(2) consider "x = Inr v" |
    lag' err' d where "ask_attempts position max_retries f (Suc attempt) lag' err' (sleep d env1) = (Inr v, env')"
    by (subst (asm) ask_attempts.simps) (auto simp: x split: sum.splits if_splits)
  then show ?case
    by cases (use Q [OF Suc.prems(1)] x Suc.hyps(1) [OF n next_env] in blast)+
qed

lemma walk_result:
  fixes f :: "'a attempt"
  assumes f: "\<And>position env. R env (snd (f position env))"
    and Q: "\<And>position env1 v env2. R env0 env1 \<Longrightarrow> f position env1 = (Inr v, env2) \<Longrightarrow> Q v"
    and "R env0 env" and "walk_ring pool operation max_retries f start tried reasons named env = Some (Inr v, env')"
  shows "Q v"
  using assms(3,4)
proof (induction "length (rp_providers pool) - tried" arbitrary: tried reasons named env rule: less_induct)
  case less
  let ?position = "unat (start + of_nat tried) mod length (rp_providers pool)"
  obtain x env1 where x: "ask_endpoint ?position max_retries f env = (x, env1)" by fastforce
  with kept_attempts [of f, OF f] have r: "R env env1" by (metis ask_endpoint_def snd_conv)
  have next_env: "R env0 (rotate_pool env1)" by (rule kept_trans [OF kept_trans [OF less.prems(1) r] kept_rotate])
  from less.prems(2) consider "x = Inr v" |
    reasons' named' where "tried < length (rp_providers pool)"
      "walk_ring pool operation max_retries f start (Suc tried) reasons' named' (rotate_pool env1) = Some (Inr v, env')"
    by (subst (asm) walk_ring.simps) (auto simp: x Let_def split: sum.splits if_splits)
  then show ?case
  proof cases
    case 1
    with attempt_result [of f, OF f Q less.prems(1)] x show ?thesis by (auto simp: ask_endpoint_def)
  next
    case 2
    have "length (rp_providers pool) - Suc tried < length (rp_providers pool) - tried" using 2(1) by simp
    from less.hyps [OF this next_env 2(2)] show ?thesis .
  qed
qed

lemma execute_result:
  fixes f :: "'a attempt"
  assumes "\<And>position env. R env (snd (f position env))"
    and "\<And>position env1 v env2. R env env1 \<Longrightarrow> f position env1 = (Inr v, env2) \<Longrightarrow> Q v"
    and "run_state (execute c operation f) env = (Inr v, env')"
  shows "Q v"
proof -
  from assms(3) have "walk_ring (cl_pool c) operation (rp_max_retries (cl_pool c)) f (env_index env) 0 [] None env = Some (Inr v, env')"
    by (auto simp: execute_def execute_with_endpoint_def execute_with_retries_def split: option.splits)
  from walk_result [of f env Q, OF assms(1,2) kept_refl this] show ?thesis .
qed

end

text \<open>The events to come run out, and a call that is no submission leaves the counter alone.\<close>

definition nonce_kept :: "chain_env \<Rightarrow> chain_env \<Rightarrow> bool" where
  "nonce_kept env env' \<longleftrightarrow> ce_nonce env' = ce_nonce env \<and> set (ce_events env') \<subseteq> set (ce_events env)"

interpretation nonce_calls: kept nonce_kept
  by unfold_locales (auto simp: nonce_kept_def sleep_def rotate_pool_def)

text \<open>Every transaction offered meanwhile satisfies \<open>P\<close>.\<close>

definition offers :: "(tx_request \<Rightarrow> bool) \<Rightarrow> chain_env \<Rightarrow> chain_env \<Rightarrow> bool" where
  "offers P env env' \<longleftrightarrow> set (ce_events env') \<subseteq> set (ce_events env) \<and>
     (\<exists>txs. ce_offered env' = ce_offered env @ txs \<and> (\<forall>tx \<in> set txs. P tx))"

interpretation offer_calls: kept "offers P" for P
proof unfold_locales
  show "offers P env env2" if "offers P env env1" "offers P env1 env2" for env env1 env2
  proof -
    from that obtain txs us where "ce_offered env1 = ce_offered env @ txs" "ce_offered env2 = ce_offered env1 @ us"
      "\<forall>tx \<in> set txs. P tx" "\<forall>tx \<in> set us. P tx" by (auto simp: offers_def)
    with that show ?thesis unfolding offers_def by (intro conjI exI [of _ "txs @ us"]) auto
  qed
qed (auto simp: offers_def sleep_def rotate_pool_def)

lemma request_keeps: "nonce_kept env (snd (request q env))" "offers P env (snd (request q env))"
  by (auto simp: request_def nonce_kept_def offers_def split: list.split)

section \<open>The counter of nonces\<close>

text \<open>The counter, below every nonce while it is not initialized.\<close>

definition counter :: "chain_env \<Rightarrow> int" where
  "counter env = (if ce_nonce env = NONCE_UNINITIALIZED then - 1 else uint (ce_nonce env))"

text \<open>No node will answer with a transaction count above \<open>n\<close>.\<close>

definition counts_below :: "chain_client_inner \<Rightarrow> int \<Rightarrow> chain_env \<Rightarrow> bool" where
  "counts_below c n env \<longleftrightarrow>
     (\<forall>ev \<in> set (ce_events env). \<forall>k. ne_transaction_count ev (cl_signer c) = Inr k \<longrightarrow> uint k \<le> n)"

lemma nonce_kept_counter: "nonce_kept env env' \<Longrightarrow> counter env' = counter env \<and> (counts_below c n env \<longrightarrow> counts_below c n env')"
  by (auto simp: nonce_kept_def counter_def counts_below_def)

lemma fetched_nonce:
  assumes "counts_below c n env" and "run_state (fetch_chain_nonce c) env = (r, env')"
  shows "nonce_kept env env'" "r = Inr k \<Longrightarrow> uint k \<le> n"
proof -
  have "nonce_kept env (snd (run_state (fetch_chain_nonce c) env))"
    unfolding fetch_chain_nonce_def by (rule nonce_calls.kept_execute) (rule request_keeps)
  with assms(2) show "nonce_kept env env'" by simp
  assume "r = Inr k"
  with assms(2) have "run_state (execute c ''get_nonce'' (\<lambda>_. request (\<lambda>ev. ne_transaction_count ev (cl_signer c)))) env = (Inr k, env')"
    by (simp add: fetch_chain_nonce_def)
  then show "uint k \<le> n"
  proof (rule nonce_calls.execute_result [OF request_keeps(1), rotated, where Q = "\<lambda>k. uint k \<le> n"])
    fix env1 v env2
    assume "nonce_kept env env1" "request (\<lambda>ev. ne_transaction_count ev (cl_signer c)) env1 = (Inr v, env2)"
    with assms(1) show "uint v \<le> n"
      by (auto simp: request_def nonce_kept_def counts_below_def split: list.splits)
  qed
qed

lemma cut_at_runs: "run_state (cut_at deadline m) env = (r, env') \<Longrightarrow>
    \<exists>x. run_state m env = (x, env') \<and> (r = None \<or> r = Some x)"
  by (cases "run_state m env") (auto simp: cut_at_def env_time_def split: if_splits)

lemma uint_not_uninitialized: "uint k < 2 ^ 64 - 1 \<Longrightarrow> k \<noteq> NONCE_UNINITIALIZED"
  by (auto simp: NONCE_UNINITIALIZED_def uint_word_ariths zmod_minus1)

text \<open>Where the counter may be after a step that had it at most at \<open>m\<close>.\<close>

definition counted :: "chain_client_inner \<Rightarrow> int \<Rightarrow> int \<Rightarrow> chain_env \<Rightarrow> chain_env \<Rightarrow> bool" where
  "counted c n m env env' \<longleftrightarrow> counts_below c n env' \<and> counter env \<le> counter env' \<and> counter env' \<le> m"

lemma counted_trans: "counted c n m env env1 \<Longrightarrow> counted c n m env1 env2 \<Longrightarrow> counted c n m env env2"
  by (auto simp: counted_def)

lemma counted_kept: "counts_below c n env \<Longrightarrow> counter env \<le> m \<Longrightarrow> nonce_kept env env' \<Longrightarrow> counted c n m env env'"
  using nonce_kept_counter by (auto simp: counted_def)

lemma resync_counted:
  assumes "counts_below c n env" and "counter env \<le> m" and "n \<le> m" and "m < 2 ^ 64 - 1"
    and "run_state (resync_nonce c deadline) env = (r, env')"
  shows "counted c n m env env'"
proof -
  obtain fetched env1 where f: "run_state (cut_at deadline (fetch_chain_nonce c)) env = (fetched, env1)" by fastforce
  from cut_at_runs [OF f] obtain x where x: "run_state (fetch_chain_nonce c) env = (x, env1)" "fetched = None \<or> fetched = Some x" by blast
  note k = fetched_nonce [OF assms(1) x(1)]
  note kept = counted_kept [OF assms(1,2) k(1)]
  consider "env' = env1" | k where "x = Inr k" "env' = env1\<lparr>ce_nonce := max k (ce_nonce env1)\<rparr>"
    using assms(5) x(2) by (auto simp: resync_nonce_def f store_nonce_def split: option.splits sum.splits)
  then show ?thesis
  proof cases
    case (2 k')
    from k(2) [OF 2(1)] assms(3,4) have "uint k' \<le> m" "uint k' < 2 ^ 64 - 1" by linarith+
    note small = this(1) uint_not_uninitialized [OF this(2)]
    show ?thesis
    proof (cases "ce_nonce env1 = NONCE_UNINITIALIZED")
      case True
      then have "max k' (ce_nonce env1) = ce_nonce env1" by (simp add: NONCE_UNINITIALIZED_def max_def)
      with kept 2(2) show ?thesis by (simp add: counted_def counts_below_def counter_def)
    next
      case False
      with small kept 2(2) show ?thesis
        by (auto simp: counted_def counts_below_def counter_def max_def word_le_def)
    qed
  qed (simp add: kept)
qed

lemma next_nonce_counted:
  assumes "counts_below c n env" and "counter env \<le> m" and "n \<le> m" and "m < 2 ^ 64 - 1"
    and "run_state (next_nonce c deadline) env = (r, env')"
  shows "counted c n m env env'" "r = Some (Inr k) \<Longrightarrow> counter env' = uint k"
proof -
  have goal: "counted c n m env env' \<and> (\<forall>k. r = Some (Inr k) \<longrightarrow> counter env' = uint k)"
  proof (cases "ce_nonce env = NONCE_UNINITIALIZED")
    case False
    with assms show ?thesis by (auto simp: next_nonce_def counted_def counter_def)
  next
    case True
    obtain fetched env1 where f: "run_state (cut_at deadline (fetch_chain_nonce c)) env = (fetched, env1)" by fastforce
    from cut_at_runs [OF f] obtain x where x: "run_state (fetch_chain_nonce c) env = (x, env1)" "fetched = None \<or> fetched = Some x" by blast
    note k = fetched_nonce [OF assms(1) x(1)]
    note kept = counted_kept [OF assms(1,2) k(1)]
    consider "env' = env1" "\<nexists>k. r = Some (Inr k)" | k where "x = Inr k" "env' = env1\<lparr>ce_nonce := k\<rparr>" "r = Some (Inr k)"
      using assms(5) x(2) True by (auto simp: next_nonce_def f store_nonce_def split: option.splits sum.splits)
    then show ?thesis
    proof cases
      case (2 k')
      from k(2) [OF 2(1)] assms(3,4) have "uint k' \<le> m" "uint k' < 2 ^ 64 - 1" by linarith+
      note small = this(1) uint_not_uninitialized [OF this(2)]
      have "- 1 \<le> uint k'" by (rule order_trans [OF _ uint_ge_0]) simp
      with small kept 2 True show ?thesis by (auto simp: counted_def counts_below_def counter_def)
    qed (use kept in blast)
  qed
  then show "counted c n m env env'" "r = Some (Inr k) \<Longrightarrow> counter env' = uint k" by blast+
qed

lemma send_transaction_keeps: "nonce_kept env (snd (run_state (send_transaction c tx) env))"
proof -
  have offer: "nonce_kept env (snd (offer_raw tx h position env))" for h position env
    using request_keeps(1) [of "env\<lparr>ce_offered := ce_offered env @ [tx]\<rparr>" "\<lambda>ev. ne_send_raw ev tx"]
    by (auto simp: offer_raw_def nonce_kept_def split: prod.split sum.split)
  have "nonce_kept env (snd (run_state (execute c ''send_transaction'' (offer_raw tx h)) env))" for h
    by (rule nonce_calls.kept_execute) (rule offer)
  then show ?thesis
    by (simp add: send_transaction_def nonce_calls.kept_refl case_prod_beta split: sum.split)
qed

lemma commit_counted:
  assumes "counter env = uint k" and "counter env \<le> m" and "m < 2 ^ 64 - 2" and "run_state (commit_nonce k) env = (u, env')"
  shows "counter env' = uint k + 1" "ce_events env' = ce_events env"
proof -
  have env': "env' = env\<lparr>ce_nonce := max (k + 1) (ce_nonce env)\<rparr>"
    using assms(4) by (simp add: commit_nonce_def store_nonce_def)
  have k: "uint (k + 1) = uint k + 1" using assms(1-3) by (simp add: uint_word_ariths)
  have "ce_nonce env \<noteq> NONCE_UNINITIALIZED \<and> ce_nonce env = k"
  proof -
    have "uint k \<noteq> - 1" using uint_ge_0 [of k] by linarith
    with assms(1) show ?thesis by (auto simp: counter_def word_uint_eq_iff split: if_splits)
  qed
  moreover have "k \<le> k + 1" "k + 1 \<noteq> NONCE_UNINITIALIZED"
    using k assms(1-3) uint_not_uninitialized [of "k + 1"] by (simp_all add: word_le_def)
  ultimately show "counter env' = uint k + 1" "ce_events env' = ce_events env"
    using k by (simp_all add: env' counter_def max_def)
qed

text \<open>What a submission leaves of the counter, by its outcome.\<close>

fun outcome_counted :: "chain_env \<Rightarrow> chain_env \<Rightarrow> int \<Rightarrow> (client_error + submitted_tx) option \<Rightarrow> bool" where
  "outcome_counted env env' m (Some (Inr st)) \<longleftrightarrow>
     counter env \<le> uint (st_nonce st) \<and> counter env' = uint (st_nonce st) + 1 \<and> counter env' \<le> m + 1"
| "outcome_counted env env' m _ \<longleftrightarrow> counter env \<le> counter env' \<and> counter env' \<le> m"

lemma outcome_later: "counter env \<le> counter env1 \<Longrightarrow> outcome_counted env1 env' m r \<Longrightarrow> outcome_counted env env' m r"
  by (cases "(env, env', m, r)" rule: outcome_counted.cases) auto

lemma send_attempts_counted:
  assumes "counts_below c n env" and "counter env \<le> m" and "n \<le> m" and "m < 2 ^ 64 - 2"
    and "run_state (send_attempts c tx deadline attempts) env = (r, env')"
  shows "counts_below c n env' \<and> outcome_counted env env' m r"
  using assms(1,2,5)
proof (induction attempts arbitrary: env)
  case (Cons attempt rest)
  have m: "m < 2 ^ 64 - 1" using assms(4) by simp
  obtain synced env1 where s: "run_state (if attempt > 0 then resync_nonce c deadline else State_Monad.return (Some (Inr ()))) env = (synced, env1)"
    by fastforce
  have s': "counted c n m env env1"
    using s resync_counted [OF Cons.prems(1,2) assms(3) m] Cons.prems(1,2)
    by (cases "attempt > 0") (auto simp: counted_def)
  obtain got env2 where g: "run_state (next_nonce c deadline) env1 = (got, env2)" by fastforce
  from s' have env1: "counts_below c n env1" "counter env1 \<le> m" by (simp_all add: counted_def)
  note g' = counted_trans [OF s' next_nonce_counted(1) [OF env1 assms(3) m g]] next_nonce_counted(2) [OF env1 assms(3) m g]
  show ?case
  proof (cases "\<exists>nonce. got = Some (Inr nonce) \<and> synced = Some (Inr ())")
    case False
    then have "env' = env1 \<and> r \<in> {None} \<union> Some ` range Inl \<or> env' = env2 \<and> r \<in> {None} \<union> Some ` range Inl"
      using Cons.prems(3) s g by (auto split: option.splits sum.splits)
    then show ?thesis using s' g'(1) by (auto simp: counted_def)
  next
    case True
    then obtain nonce where nonce: "got = Some (Inr nonce)" "synced = Some (Inr ())" by blast
    let ?tx = "tx\<lparr>tr_nonce := Some nonce\<rparr>"
    obtain result env3 where t: "run_state (cut_at deadline (send_transaction c ?tx)) env2 = (result, env3)" by fastforce
    from cut_at_runs [OF t] send_transaction_keeps [of env2 c ?tx] have "nonce_kept env2 env3" by auto
    with nonce_kept_counter g' nonce have env3: "counter env3 = uint nonce" "counts_below c n env3" "counter env3 \<le> m"
        "counter env \<le> counter env3"
      by (auto simp: counted_def)
    from Cons.prems(3) s g t nonce consider "env' = env3" "r \<in> {None} \<union> Some ` range Inl" |
      h where "result = Some (Inr h)" "run_state (commit_nonce nonce) env3 = ((), env')" "r = Some (Inr \<lparr>st_hash = h, st_nonce = nonce\<rparr>)" |
      "run_state (send_attempts c tx deadline rest) env3 = (r, env')"
      by (auto split: option.splits sum.splits if_splits prod.splits)
    then show ?thesis
    proof cases
      case 1
      with env3 show ?thesis by auto
    next
      case 2
      from commit_counted [OF env3(1,3) assms(4) 2(2)] 2(3) env3 show ?thesis by (auto simp: counts_below_def)
    next
      case 3
      from Cons.IH [OF env3(2,3) 3] outcome_later [OF env3(4)] show ?thesis by blast
    qed
  qed
qed auto

section \<open>What is offered to the endpoints\<close>

lemma offers_nothing:
  "offers P env (snd (run_state (fetch_chain_nonce c) env))"
  "offers P env (snd (run_state (store_nonce g) env))"
  "offers P env (snd (run_state env_time env))"
  "offers P env (snd (run_state (State_Monad.return x) env))"
proof -
  show "offers P env (snd (run_state (fetch_chain_nonce c) env))"
    unfolding fetch_chain_nonce_def by (rule offer_calls.kept_execute) (rule request_keeps)
qed (auto simp: offers_def store_nonce_def env_time_def)

lemma offers_cut: "(\<And>env. offers P env (snd (run_state m env))) \<Longrightarrow> offers P env (snd (run_state (cut_at deadline m) env))"
  unfolding cut_at_def by (intro offer_calls.kept_bind offers_nothing)

lemma offers_nonces:
  "offers P env (snd (run_state (resync_nonce c deadline) env))"
  "offers P env (snd (run_state (next_nonce c deadline) env))"
proof -
  have fetch: "offers P env (snd (run_state (cut_at deadline (fetch_chain_nonce c)) env))" for env
    by (intro offers_cut offers_nothing)
  show "offers P env (snd (run_state (resync_nonce c deadline) env))"
    unfolding resync_nonce_def by (intro offer_calls.kept_rules fetch offers_nothing)
  have "offers P env (snd (run_state (State (\<lambda>env. (ce_nonce env, env))) env))" for env
    by (simp add: offer_calls.kept_refl)
  then show "offers P env (snd (run_state (next_nonce c deadline) env))"
    unfolding next_nonce_def by (intro offer_calls.kept_rules fetch offers_nothing)
qed

lemma offers_send_transaction: "P tx \<Longrightarrow> offers P env (snd (run_state (send_transaction c tx) env))"
proof -
  assume P: "P tx"
  have "offers P env (snd (offer_raw tx h position env))" for h position env
  proof -
    let ?env = "env\<lparr>ce_offered := ce_offered env @ [tx]\<rparr>"
    have "offers P env ?env" using P by (simp add: offers_def)
    from offer_calls.kept_trans [OF this request_keeps(2) [of _ _ "\<lambda>ev. ne_send_raw ev tx"]] show ?thesis
      by (cases "request (\<lambda>ev. ne_send_raw ev tx) ?env") (auto simp: offer_raw_def split: sum.split)
  qed
  then have "offers P env (snd (run_state (execute c ''send_transaction'' (offer_raw tx h)) env))" for h
    by (intro offer_calls.kept_execute)
  then show ?thesis
    by (simp add: send_transaction_def offer_calls.kept_refl case_prod_beta split: sum.split)
qed

lemma offers_send_attempts:
  assumes "\<And>nonce. P (tx\<lparr>tr_nonce := Some nonce\<rparr>)"
  shows "offers P env (snd (run_state (send_attempts c tx deadline attempts) env))"
proof (induction attempts arbitrary: env)
  case Nil
  show ?case by (simp add: offer_calls.kept_refl)
next
  case (Cons attempt rest)
  have sync: "offers P env (snd (run_state (if attempt > 0 then resync_nonce c deadline else State_Monad.return (Some (Inr ()))) env))" for env
    by (auto simp: offers_nonces offer_calls.kept_refl)
  have commit: "offers P env (snd (run_state (commit_nonce nonce) env))" for nonce env
    unfolding commit_nonce_def by (rule offers_nothing)
  have send: "offers P env (snd (run_state (cut_at deadline (send_transaction c (tx\<lparr>tr_nonce := Some nonce\<rparr>))) env))" for nonce env
    by (intro offers_cut offers_send_transaction assms)
  show ?case
    unfolding send_attempts.simps by (intro offer_calls.kept_rules sync offers_nonces send commit Cons.IH)
qed

lemma offers_sign_and_send:
  "(\<And>nonce. P (tx\<lparr>tr_nonce := Some nonce\<rparr>)) \<Longrightarrow> offers P env (snd (run_state (sign_and_send c tx) env))"
  unfolding sign_and_send_def
  by (intro offer_calls.kept_bind offers_send_attempts offers_nothing) blast

text \<open>The readings before a submission.\<close>

lemma gas_prices_keep:
  "nonce_kept env (snd (run_state (get_gas_prices c) env))" "offers P env (snd (run_state (get_gas_prices c) env))"
proof -
  have two: "R env (snd (case request ne_latest_block env of
       (Inl e, env1) \<Rightarrow> (Inl (custom_str (''RPC error: Failed to get block: '' @ te_text e)), env1)
     | (Inr None, env1) \<Rightarrow> (Inl (custom_str ''RPC error: No latest block found''), env1)
     | (Inr (Some block), env1) \<Rightarrow>
         (case bh_base_fee block of
            None \<Rightarrow> (Inl (custom_str ''RPC error: Block has no base fee (pre-EIP-1559?)''), env1)
          | Some base_fee \<Rightarrow>
              (case request ne_priority_fee env1 of
                 (Inl e, env2) \<Rightarrow> (Inl (custom_str (''RPC error: Failed to get priority fee: '' @ te_text e)), env2)
               | (Inr priority_fee, env2) \<Rightarrow> (Inr (ucast base_fee :: u128, priority_fee), env2)))))"
    if R: "\<And>env :: chain_env. R env (snd (request ne_latest_block env))" "\<And>env. R env (snd (request ne_priority_fee env))"
      "\<And>a b d. R a b \<Longrightarrow> R b d \<Longrightarrow> R a d" for R env
  proof -
    obtain x env1 where x: "request ne_latest_block env = (x, env1)" by fastforce
    obtain y env2 where y: "request ne_priority_fee env1 = (y, env2)" by fastforce
    have r: "R env env1" "R env env2" using R(1) [of env] R(3) [OF R(1) R(2), of env] x y by auto
    show ?thesis by (auto simp: x y r split: sum.split option.split)
  qed
  show "nonce_kept env (snd (run_state (get_gas_prices c) env))"
    unfolding get_gas_prices_def
    by (rule nonce_calls.kept_execute) (rule two, (rule request_keeps)+, rule nonce_calls.kept_trans)
  show "offers P env (snd (run_state (get_gas_prices c) env))"
    unfolding get_gas_prices_def
    by (rule offer_calls.kept_execute) (rule two, (rule request_keeps)+, rule offer_calls.kept_trans)
qed

lemma gas_limit_bounds:
  "ge_floor g \<le> gb_gas_limit (compute_bounds g estimated)"
  "gb_gas_limit (compute_bounds g estimated) \<le> max (ge_floor g) (saturating_add estimated (ge_max_addition g))"
  by (auto simp: compute_bounds_def Let_def max_def)

lemma estimate_keeps:
  "nonce_kept env (snd (run_state (estimate_gas c tx) env))" "offers P env (snd (run_state (estimate_gas c tx) env))"
proof -
  have one: "R env (snd (case request (\<lambda>ev. ne_estimate_gas ev tx) env of
       (Inl e, env') \<Rightarrow> (Inl (boxed (classify_estimate_error e)), env')
     | (Inr estimated, env') \<Rightarrow> (Inr (gb_gas_limit (compute_bounds (cl_gas c) estimated)), env')))"
    if "\<And>env :: chain_env. R env (snd (request (\<lambda>ev. ne_estimate_gas ev tx) env))" for R env
    using that [of env] by (auto split: prod.splits sum.splits)
  show "nonce_kept env (snd (run_state (estimate_gas c tx) env))"
    unfolding estimate_gas_def by (rule nonce_calls.kept_execute) (rule one, rule request_keeps)
  show "offers P env (snd (run_state (estimate_gas c tx) env))"
    unfolding estimate_gas_def by (rule offer_calls.kept_execute) (rule one, rule request_keeps)
qed

lemma estimated_limit:
  assumes "run_state (estimate_gas c tx) env = (Inr limit, env')"
  shows "\<exists>ev \<in> set (ce_events env). \<exists>estimated. ne_estimate_gas ev tx = Inr estimated \<and>
    limit = gb_gas_limit (compute_bounds (cl_gas c) estimated)"
proof -
  let ?f = "\<lambda>(_ :: nat) env. case request (\<lambda>ev. ne_estimate_gas ev tx) env of
       (Inl e, env') \<Rightarrow> (Inl (boxed (classify_estimate_error e)), env')
     | (Inr estimated, env') \<Rightarrow> (Inr (gb_gas_limit (compute_bounds (cl_gas c) estimated)), env')"
  have kept: "nonce_kept env (snd (?f position env))" for position env
    using request_keeps(1) [of env "\<lambda>ev. ne_estimate_gas ev tx"] by (auto split: prod.splits sum.splits)
  show ?thesis
  proof (rule nonce_calls.execute_result [OF kept _ assms [unfolded estimate_gas_def]])
    fix env1 v env2
    assume e: "nonce_kept env env1" and run: "?f 0 env1 = (Inr v, env2)"
    then obtain ev where "ev \<in> set (ce_events env1)" "\<exists>estimated. ne_estimate_gas ev tx = Inr estimated \<and>
        v = gb_gas_limit (compute_bounds (cl_gas c) estimated)"
      by (auto simp: request_def split: list.splits sum.splits)
    with e show "\<exists>ev \<in> set (ce_events env). \<exists>estimated. ne_estimate_gas ev tx = Inr estimated \<and>
        v = gb_gas_limit (compute_bounds (cl_gas c) estimated)"
      by (auto simp: nonce_kept_def)
  qed
qed

section \<open>Submissions\<close>

text \<open>
  Submissions in the order they take the lock: calls of the manager, and fills of a slot a dropped
  transaction left. The transactions that went out are collected.
\<close>

datatype submission = Call address contract_call | Fill u64

fun run_submissions :: "chain_client_inner \<Rightarrow> submission list \<Rightarrow> submitted_tx list cprog" where
  "run_submissions c [] = State_Monad.return []"
| "run_submissions c (Call dest call # rest) = do {
     r \<leftarrow> build_and_send_call c dest call;
     sent \<leftarrow> run_submissions c rest;
     State_Monad.return (case r of Inl _ \<Rightarrow> sent | Inr st \<Rightarrow> st # sent) }"
| "run_submissions c (Fill nonce # rest) = do {
     _ \<leftarrow> fill_nonce_gap c nonce;
     run_submissions c rest }"

text \<open>
  A call dipper may send: signed for its chain, the fee within the configured limit, the gas between
  the floor and the estimate of a node plus the allowed addition.
\<close>

definition call_tx :: "chain_client_inner \<Rightarrow> node_event set \<Rightarrow> address \<Rightarrow> contract_call \<Rightarrow> tx_request \<Rightarrow> bool" where
  "call_tx c evs dest call tx \<longleftrightarrow> tr_from tx = cl_signer c \<and> tr_to tx = dest \<and> tr_input tx = Some call \<and> tr_value tx = 0 \<and>
     tr_chain_id tx = Some (cl_chain_id c) \<and>
     (\<exists>fee. tr_max_fee tx = Some fee \<and> uint fee \<le> uint (cl_max_gas_price_gwei c) * 1000000000) \<and>
     (\<exists>gas. tr_gas_limit tx = Some gas \<and> ge_floor (cl_gas c) \<le> gas \<and>
       (\<exists>ev \<in> evs. \<exists>estimated. ne_estimate_gas ev (call_request c dest call) = Inr estimated \<and>
         gas \<le> max (ge_floor (cl_gas c)) (saturating_add estimated (ge_max_addition (cl_gas c)))))"

definition fill_tx :: "chain_client_inner \<Rightarrow> u64 \<Rightarrow> tx_request \<Rightarrow> bool" where
  "fill_tx c nonce tx \<longleftrightarrow> tr_from tx = cl_signer c \<and> tr_to tx = cl_signer c \<and> tr_input tx = None \<and> tr_value tx = 0 \<and>
     tr_chain_id tx = Some (cl_chain_id c) \<and> tr_gas_limit tx = Some 21000 \<and> tr_nonce tx = Some nonce"

lemma call_request_fields [simp]:
  "tr_from (call_request c dest call) = cl_signer c" "tr_to (call_request c dest call) = dest"
  "tr_input (call_request c dest call) = Some call" "tr_value (call_request c dest call) = 0"
  by (simp_all add: call_request_def)

lemma fee_within_limit:
  assumes "\<not> exceeds_max_gas_price fee gwei"
  shows "uint fee \<le> uint gwei * 1000000000"
proof -
  have "uint (ucast gwei * 1000000000 :: u128) \<le> uint gwei * 1000000000"
    by (simp add: uint_word_ariths uint_up_ucast is_up zmod_le_nonneg_dividend)
  moreover from assms have "uint fee \<le> uint (ucast gwei * 1000000000 :: u128)"
    by (simp add: exceeds_max_gas_price_def word_less_def)
  ultimately show ?thesis by linarith
qed

lemma sign_and_send_counted:
  assumes "counts_below c n env" and "counter env \<le> m" and "n \<le> m" and "m < 2 ^ 64 - 2"
    and "run_state (sign_and_send c tx) env = (r, env')"
  shows "counts_below c n env' \<and> outcome_counted env env' m (Some r)"
proof -
  obtain sent env1 where s: "run_state (send_attempts c tx (env_now env + cl_submit_deadline c) [0, 1]) env = (sent, env1)" by fastforce
  from send_attempts_counted [OF assms(1-4) s] assms(5) s show ?thesis
    by (cases sent) (auto simp: sign_and_send_def env_time_def simp del: send_attempts.simps)
qed

lemma build_and_send_counted:
  assumes "counts_below c n env" and "counter env \<le> m" and "n \<le> m" and "m < 2 ^ 64 - 2"
    and "run_state (build_and_send_call c dest call) env = (r, env')"
  shows "counts_below c n env' \<and> outcome_counted env env' m (Some r)"
    "offers (call_tx c (set (ce_events env)) dest call) env env'"
proof -
  let ?tx = "call_request c dest call" and ?P = "call_tx c (set (ce_events env)) dest call"
  obtain limit env1 where l: "run_state (estimate_gas c ?tx) env = (limit, env1)" by fastforce
  obtain prices env2 where p: "run_state (get_gas_prices c) env1 = (prices, env2)" by fastforce
  have kept: "nonce_kept env env1" "nonce_kept env env2"
    using estimate_keeps(1) [of env c ?tx] gas_prices_keep(1) [of env1 c] l p
    by (auto intro: nonce_calls.kept_trans)
  have offered: "offers ?P env env1" "offers ?P env env2"
    using estimate_keeps(2) [of ?P env c ?tx] gas_prices_keep(2) [of ?P env1 c] l p
    by (auto intro: offer_calls.kept_trans)
  from assms(5) consider e where "r = Inl e" "env' = env1 \<or> env' = env2" |
    gas priority fee where "limit = Inr gas" "\<not> exceeds_max_gas_price fee (cl_max_gas_price_gwei c)"
      "run_state (sign_and_send c (?tx\<lparr>tr_gas_limit := Some gas, tr_max_fee := Some fee,
         tr_priority_fee := Some priority, tr_chain_id := Some (cl_chain_id c)\<rparr>)) env2 = (r, env')"
    by (auto simp: build_and_send_call_def l p Let_def split: sum.splits prod.splits if_splits)
  then have "(counts_below c n env' \<and> outcome_counted env env' m (Some r)) \<and> offers ?P env env'"
  proof cases
    case 1
    with nonce_kept_counter [OF kept(1)] nonce_kept_counter [OF kept(2)] assms(1,2) offered
    show ?thesis by auto
  next
    case 2
    from nonce_kept_counter [OF kept(2)] assms(1,2) have env2: "counts_below c n env2" "counter env2 \<le> m" "counter env \<le> counter env2"
      by auto
    from sign_and_send_counted [OF env2(1,2) assms(3,4) 2(3)] outcome_later [OF env2(3)]
    have "counts_below c n env' \<and> outcome_counted env env' m (Some r)" by blast
    moreover have "offers ?P env env'"
    proof -
      have "ge_floor (cl_gas c) \<le> gas \<and> (\<exists>ev \<in> set (ce_events env). \<exists>estimated. ne_estimate_gas ev ?tx = Inr estimated \<and>
          gas \<le> max (ge_floor (cl_gas c)) (saturating_add estimated (ge_max_addition (cl_gas c))))"
        using estimated_limit [OF l [unfolded 2(1)]] gas_limit_bounds by blast
      with fee_within_limit [OF 2(2)]
      have "?P (?tx\<lparr>tr_gas_limit := Some gas, tr_max_fee := Some fee, tr_priority_fee := Some priority,
          tr_chain_id := Some (cl_chain_id c), tr_nonce := Some nonce\<rparr>)" for nonce
        by (simp add: call_tx_def)
      then have "offers ?P env2 (snd (run_state (sign_and_send c (?tx\<lparr>tr_gas_limit := Some gas, tr_max_fee := Some fee,
           tr_priority_fee := Some priority, tr_chain_id := Some (cl_chain_id c)\<rparr>)) env2))"
        by (intro offers_sign_and_send) simp
      with 2(3) offered(2) show ?thesis by (auto intro: offer_calls.kept_trans)
    qed
    ultimately show ?thesis ..
  qed
  then show "counts_below c n env' \<and> outcome_counted env env' m (Some r)" "offers ?P env env'" by blast+
qed

lemma fill_nonce_gap_keeps:
  "nonce_kept env (snd (run_state (fill_nonce_gap c nonce) env))"
  "offers (fill_tx c nonce) env (snd (run_state (fill_nonce_gap c nonce) env))"
  unfolding fill_nonce_gap_def
  by (intro nonce_calls.kept_rules gas_prices_keep, simp only: case_prod_beta, intro nonce_calls.kept_rules send_transaction_keeps)
    (intro offer_calls.kept_rules gas_prices_keep, simp only: case_prod_beta, intro offer_calls.kept_rules offers_send_transaction,
      simp add: fill_tx_def)

text \<open>Transactions dipper may offer for the given submissions.\<close>

definition submission_tx :: "chain_client_inner \<Rightarrow> node_event set \<Rightarrow> submission list \<Rightarrow> tx_request \<Rightarrow> bool" where
  "submission_tx c evs subs tx \<longleftrightarrow> (\<exists>dest call. Call dest call \<in> set subs \<and> call_tx c evs dest call tx) \<or>
     (\<exists>nonce. Fill nonce \<in> set subs \<and> fill_tx c nonce tx)"

lemma offers_mono: "offers P env env' \<Longrightarrow> (\<And>tx. P tx \<Longrightarrow> Q tx) \<Longrightarrow> offers Q env env'"
  unfolding offers_def by blast

lemma call_tx_mono: "call_tx c evs dest call tx \<Longrightarrow> evs \<subseteq> evs' \<Longrightarrow> call_tx c evs' dest call tx"
  unfolding call_tx_def by blast

lemma submission_tx_mono:
  "submission_tx c evs subs tx \<Longrightarrow> evs \<subseteq> evs' \<Longrightarrow> set subs \<subseteq> set subs' \<Longrightarrow> submission_tx c evs' subs' tx"
  unfolding submission_tx_def using call_tx_mono by blast

lemma run_submissions_counted:
  assumes "counts_below c n env" and "counter env \<le> m" and "n \<le> m" and "m + int (length subs) < 2 ^ 64 - 1"
    and "run_state (run_submissions c subs) env = (sent, env')"
  shows "counter env \<le> counter env' \<and> sorted_wrt (<) (map (\<lambda>st. uint (st_nonce st)) sent) \<and>
    (\<forall>st \<in> set sent. counter env \<le> uint (st_nonce st) \<and> uint (st_nonce st) < counter env') \<and>
    offers (submission_tx c (set (ce_events env)) subs) env env'"
  using assms
proof (induction subs arbitrary: env m sent)
  case Nil
  then show ?case by (simp add: offer_calls.kept_refl)
next
  case (Cons sub subs)
  let ?P = "submission_tx c (set (ce_events env)) (sub # subs)"
  obtain env1 r where step: "case sub of Call dest call \<Rightarrow> run_state (build_and_send_call c dest call) env = (r, env1)
      | Fill nonce \<Rightarrow> env1 = snd (run_state (fill_nonce_gap c nonce) env) \<and> r = Inl (SubmitError [])"
    by (cases sub; cases "run_state (build_and_send_call c (case sub of Call dest _ \<Rightarrow> dest | _ \<Rightarrow> 0)
        (case sub of Call _ call \<Rightarrow> call | _ \<Rightarrow> GetProviderCount 0)) env") auto
  obtain sent1 where rest: "run_state (run_submissions c subs) env1 = (sent1, env')" and
    sent: "sent = (case r of Inl _ \<Rightarrow> sent1 | Inr st \<Rightarrow> st # sent1)"
    using step Cons.prems(5) by (cases sub) (auto split: prod.splits sum.splits)
  have m: "m < 2 ^ 64 - 2" using Cons.prems(4) by simp
  have "(counts_below c n env1 \<and> outcome_counted env env1 m (Some r)) \<and> offers ?P env env1"
  proof (cases sub)
    case (Call dest call)
    with step have "run_state (build_and_send_call c dest call) env = (r, env1)" by simp
    note build = build_and_send_counted [OF Cons.prems(1-3) m this]
    have "offers ?P env env1"
      by (rule offers_mono [OF build(2)]) (simp add: submission_tx_def Call, blast)
    with build(1) show ?thesis ..
  next
    case (Fill nonce)
    with step have "env1 = snd (run_state (fill_nonce_gap c nonce) env)" "r = Inl (SubmitError [])" by simp_all
    with fill_nonce_gap_keeps(1) [of env c nonce] fill_nonce_gap_keeps(2) [of c nonce env] nonce_kept_counter [of env env1] Cons.prems(1,2) show ?thesis
      by (auto simp: Fill submission_tx_def elim!: offers_mono)
  qed
  then have env1: "counts_below c n env1" "outcome_counted env env1 m (Some r)" "offers ?P env env1" by simp_all
  have le: "counter env1 \<le> m + 1" "counter env \<le> counter env1" using env1(2) by (cases r; simp)+
  from Cons.IH [OF env1(1) le(1) _ _ rest] Cons.prems(3,4)
  have tail: "counter env1 \<le> counter env'" "sorted_wrt (<) (map (\<lambda>st. uint (st_nonce st)) sent1)"
      "\<forall>st \<in> set sent1. counter env1 \<le> uint (st_nonce st) \<and> uint (st_nonce st) < counter env'"
      "offers (submission_tx c (set (ce_events env1)) subs) env1 env'"
    by simp_all
  from env1(3) have "set (ce_events env1) \<subseteq> set (ce_events env)" by (simp add: offers_def)
  with tail(4) have "offers ?P env1 env'"
    by (elim offers_mono) (rule submission_tx_mono, auto)
  from offer_calls.kept_trans [OF env1(3) this] tail le env1(2) show ?case
    by (cases r) (auto simp: sent)
qed

text \<open>
  C36: dipper's transactions never share a nonce and stay within what it was told to pay. Along any
  run of submissions, calls and fills of dropped slots in the order they take the lock, whatever the
  nodes answer and wherever a deadline cuts one short, the calls that went out carry strictly
  increasing nonces, each below the counter afterwards; and every transaction offered to an endpoint
  is signed by the configured signer for the configured chain and is either one of the calls, its fee
  within the configured limit and its gas between the floor and a node's estimate plus the allowed
  addition, or moves nothing from the signer to itself in a slot it was told to fill.
\<close>

theorem nonces_never_shared:
  assumes "\<forall>ev \<in> set (ce_events env). \<forall>k. ne_transaction_count ev (cl_signer c) = Inr k \<longrightarrow> uint k \<le> n"
    and "ce_nonce env \<noteq> NONCE_UNINITIALIZED \<longrightarrow> uint (ce_nonce env) \<le> n" and "0 \<le> n"
    and "n + int (length subs) < 2 ^ 64 - 1"
    and "run_state (run_submissions c subs) env = (sent, env')"
  shows "sorted_wrt (<) (map (\<lambda>st. uint (st_nonce st)) sent) \<and>
    (\<forall>st \<in> set sent. uint (st_nonce st) < counter env') \<and>
    (\<exists>txs. ce_offered env' = ce_offered env @ txs \<and> (\<forall>tx \<in> set txs.
       tr_from tx = cl_signer c \<and> tr_chain_id tx = Some (cl_chain_id c) \<and> tr_value tx = 0 \<and>
       ((\<exists>dest call. Call dest call \<in> set subs \<and> call_tx c (set (ce_events env)) dest call tx) \<or>
        (\<exists>nonce. Fill nonce \<in> set subs \<and> fill_tx c nonce tx))))"
proof -
  have "counts_below c n env" "counter env \<le> n" using assms(1-3) by (auto simp: counts_below_def counter_def)
  from run_submissions_counted [OF this order_refl assms(4,5)] show ?thesis
    unfolding offers_def submission_tx_def by (force simp: call_tx_def fill_tx_def)
qed

definition sample_event :: node_event where
  "sample_event = \<lparr>ne_took = 1000, ne_others = [], ne_estimate_gas = (\<lambda>_. Inr 0),
     ne_latest_block = Inr (Some \<lparr>bh_number = 9, bh_timestamp = 5, bh_base_fee = Some 0\<rparr>), ne_priority_fee = Inr 1,
     ne_transaction_count = (\<lambda>_. Inr 4), ne_send_raw = (\<lambda>_. Inr 0), ne_receipt = (\<lambda>_. Inr None), ne_block_number = Inr 9,
     ne_heads = [], ne_call = (\<lambda>_ _ _. Inr None)\<rparr>"

definition sample_client :: chain_client_inner where
  "sample_client = \<lparr>cl_pool = \<lparr>rp_providers = [sample_url ''a''], rp_max_retries = 1, rp_worst_case_walk = 10\<rparr>,
     cl_gas = \<lparr>ge_buffer_multiplier = Fin 2, ge_floor = 100000, ge_max_addition = 200000\<rparr>,
     cl_signer = 3, cl_sign = (\<lambda>_. Inr 77), cl_collector = 1, cl_manager = 2, cl_chain_id = 42161,
     cl_gas_price_multiplier = Fin 2, cl_max_gas_price_gwei = 1, cl_submit_deadline = from_secs 60\<rparr>"

definition sample_chain_env :: chain_env where
  "sample_chain_env = \<lparr>env_now = 0, env_index = 0, ce_events = [sample_event, sample_event, sample_event, sample_event, sample_event,
     sample_event, sample_event, sample_event, sample_event], ce_nonce = NONCE_UNINITIALIZED,
     ce_seen = seen_block_new 0, ce_heads = [None], ce_refusals = refusals_new, ce_offered = []\<rparr>"

theorem nonces_never_shared_witness:
  "let subs = [Call 2 (ReconcileProvider 1 9), Fill 4, Call 2 (ReconcileProvider 1 8)];
       run = run_state (run_submissions sample_client subs) sample_chain_env
   in (\<forall>ev \<in> set (ce_events sample_chain_env). ne_transaction_count ev 3 = Inr 4) \<and>
      sorted_wrt (<) (map (\<lambda>st. uint (st_nonce st)) (fst run)) \<and>
      (\<exists>txs. ce_offered (snd run) = txs \<and> (\<forall>tx \<in> set txs. tr_chain_id tx = Some 42161))"
proof -
  let ?subs = "[Call 2 (ReconcileProvider 1 9), Fill 4, Call 2 (ReconcileProvider 1 8)]"
  have fields: "cl_signer sample_client = 3" "cl_chain_id sample_client = 42161" "ce_offered sample_chain_env = []"
      "ce_nonce sample_chain_env = NONCE_UNINITIALIZED" "\<forall>ev \<in> set (ce_events sample_chain_env). ne_transaction_count ev 3 = Inr 4"
    by (simp_all add: sample_client_def sample_chain_env_def sample_event_def)
  have "\<forall>ev \<in> set (ce_events sample_chain_env). \<forall>k. ne_transaction_count ev (cl_signer sample_client) = Inr k \<longrightarrow> uint k \<le> 4"
    using fields(1,5) by simp
  from nonces_never_shared [OF this _ _ _ prod.collapse [symmetric], of ?subs] fields show ?thesis
    unfolding Let_def by auto
qed

section \<open>The loops end\<close>

lemma walk_returns: "\<exists>r. walk_ring pool operation max_retries f start tried reasons named env = Some r"
proof (induction "length (rp_providers pool) - tried" arbitrary: tried reasons named env rule: less_induct)
  case less
  show ?case
  proof (cases "tried + 1 \<ge> length (rp_providers pool)")
    case True
    then show ?thesis by (subst walk_ring.simps) (auto simp: Let_def split: prod.split sum.split)
  next
    case False
    then have "length (rp_providers pool) - (tried + 1) < length (rp_providers pool) - tried" by simp
    from less [OF this] show ?thesis by (subst walk_ring.simps) (auto simp: Let_def split: prod.split sum.split)
  qed
qed

text \<open>So a call never takes the branch for a walk that does not end.\<close>

lemma execute_walks: "execute_with_endpoint (cl_pool c) operation f env = Some (run_state (execute c operation f) env)"
  using walk_returns by (fastforce simp: execute_def execute_with_endpoint_def execute_with_retries_def split: option.split)

interpretation time_calls: kept "\<lambda>env env'. env_now env \<le> env_now env'"
  by unfold_locales (auto simp: sleep_def rotate_pool_def)

lemma receipt_poll_returns: "\<exists>r. poll_receipt c tx_hash deadline checked env = Some r"
proof (induction "Suc deadline - env_now env" arbitrary: checked env rule: less_induct)
  case less
  obtain receipt env1 where e: "run_state (execute c ''get_transaction_receipt'' (\<lambda>_. request (\<lambda>ev. ne_receipt ev tx_hash))) env = (receipt, env1)"
    by fastforce
  have "env_now env \<le> env_now (snd (run_state (execute c ''get_transaction_receipt'' (\<lambda>_. request (\<lambda>ev. ne_receipt ev tx_hash))) env))"
    by (rule time_calls.kept_execute) (auto simp: request_def split: list.split)
  with e have later: "env_now env \<le> env_now env1" by simp
  show ?case
  proof (cases "env_now env1 \<ge> deadline")
    case True
    then show ?thesis by (subst poll_receipt.simps) (auto simp: e Let_def split: sum.split option.split)
  next
    case False
    then have "Suc deadline - env_now (sleep RECEIPT_POLL_INTERVAL env1) < Suc deadline - env_now env"
      using later by (simp add: RECEIPT_POLL_INTERVAL_def from_millis_def)
    from less [OF this] show ?thesis by (subst poll_receipt.simps) (auto simp: e Let_def split: sum.split option.split)
  qed
qed

end
