(* ===== verification/Service_Config.thy ===== *)
theory Service_Config
  imports Rpc_Pool Float64 "HOL-Library.Char_ord" "HOL-Library.Monad_Syntax"
begin

text \<open>
  \<open>config.rs\<close> and the checks \<open>main.rs\<close> makes before it starts anything: how a JSON file becomes the
  configuration, which defaults fill its gaps, and what is refused. Reading the file, the JSON grammar
  and the texts of URLs, addresses, keys and 256-bit numbers belong to other crates and are parameters.
  A section is a JSON object; the derived readers also take an array of the fields in order, which is
  left out. What is said in an error message is left out, which check failed is kept.
\<close>

section \<open>JSON\<close>

type_synonym 'a decoder = "json \<Rightarrow> 'a option"

fun dec_bool :: "bool decoder" where
  "dec_bool (JBool b) = Some b"
| "dec_bool _ = None"

fun dec_str :: "string decoder" where
  "dec_str (JString s) = Some s"
| "dec_str _ = None"

fun dec_uint :: "'a::len word decoder" where
  "dec_uint (JInt n) = (if 0 \<le> n \<and> n < 2 ^ LENGTH('a) then Some (word_of_int n) else None)"
| "dec_uint _ = None"

fun dec_sint :: "nat \<Rightarrow> int decoder" where
  "dec_sint bits (JInt n) = (if - (2 ^ (bits - 1)) \<le> n \<and> n < 2 ^ (bits - 1) then Some n else None)"
| "dec_sint bits _ = None"

text \<open>A number too large for a double is an error of the JSON reader.\<close>

definition finite_double :: "rat \<Rightarrow> f64 option" where
  "finite_double q = (case f64_round q of Fin r \<Rightarrow> Some (Fin r) | _ \<Rightarrow> None)"

fun dec_f64 :: "f64 decoder" where
  "dec_f64 (JInt n) = finite_double (of_int n)"
| "dec_f64 (JFraction q) = finite_double q"
| "dec_f64 _ = None"

text \<open>\<open>serde_with::DurationSeconds\<close>: whole seconds.\<close>

definition dec_secs :: "duration decoder" where
  "dec_secs j = map_option (\<lambda>n :: u64. from_secs (unat n)) (dec_uint j)"

fun dec_option :: "'a decoder \<Rightarrow> 'a option decoder" where
  "dec_option dec JNull = Some None"
| "dec_option dec j = map_option Some (dec j)"

definition dec_text :: "(string \<Rightarrow> 'a option) \<Rightarrow> 'a decoder" where
  "dec_text parse j = Option.bind (dec_str j) parse"

fun all_some :: "'a option list \<Rightarrow> 'a list option" where
  "all_some [] = Some []"
| "all_some (x # xs) = do { y \<leftarrow> x; ys \<leftarrow> all_some xs; Some (y # ys) }"

fun dec_list :: "'a decoder \<Rightarrow> 'a list decoder" where
  "dec_list dec (JArray js) = all_some (map dec js)"
| "dec_list dec _ = None"

text \<open>A \<open>BTreeMap\<close> is the list of its entries in the order of the keys; the last of two equal keys counts.\<close>

fun btree_insert :: "'k::linorder \<Rightarrow> 'v \<Rightarrow> ('k \<times> 'v) list \<Rightarrow> ('k \<times> 'v) list" where
  "btree_insert k v [] = [(k, v)]"
| "btree_insert k v ((k', v') # kvs) =
     (if k < k' then (k, v) # (k', v') # kvs
      else if k = k' then (k, v) # kvs
      else (k', v') # btree_insert k v kvs)"

definition btree_of :: "('k::linorder \<times> 'v) list \<Rightarrow> ('k \<times> 'v) list" where
  "btree_of kvs = fold (\<lambda>(k, v). btree_insert k v) kvs []"

fun dec_map :: "(string \<Rightarrow> 'k::linorder option) \<Rightarrow> 'v decoder \<Rightarrow> ('k \<times> 'v) list decoder" where
  "dec_map key dec (JObject kvs) =
     map_option btree_of (all_some (map (\<lambda>(k, j). do { k' \<leftarrow> key k; v \<leftarrow> dec j; Some (k', v) }) kvs))"
| "dec_map key dec _ = None"

text \<open>The readers derived for a section: no field twice, none unknown, a missing one by its default.\<close>

fun in_section :: "string list \<Rightarrow> ((string \<times> json) list \<Rightarrow> 'a option) \<Rightarrow> 'a decoder" where
  "in_section keys read_fields (JObject kvs) =
     (if distinct (map fst kvs) \<and> set (map fst kvs) \<subseteq> set keys then read_fields kvs else None)"
| "in_section keys read_fields _ = None"

definition required :: "(string \<times> json) list \<Rightarrow> string \<Rightarrow> 'a decoder \<Rightarrow> 'a option" where
  "required kvs k dec = Option.bind (map_of kvs k) dec"

definition field_or :: "(string \<times> json) list \<Rightarrow> string \<Rightarrow> 'a \<Rightarrow> 'a decoder \<Rightarrow> 'a option" where
  "field_or kvs k d dec = (case map_of kvs k of None \<Rightarrow> Some d | Some j \<Rightarrow> dec j)"

section \<open>What other crates read\<close>

datatype ip_addr = V4 "32 word" | V6 "128 word"

record socket_addr =
  sa_ip :: ip_addr
  sa_port :: u16

record 'key parsers =
  p_url :: "string \<Rightarrow> url option"
  p_address :: "string \<Rightarrow> address option"
  p_socket_addr :: "string \<Rightarrow> socket_addr option"
  p_secret_key :: "string \<Rightarrow> 'key option"
  p_u256 :: "string \<Rightarrow> u256 option"
  p_chain_id :: "string \<Rightarrow> chain_id option"

section \<open>Alerts and health\<close>

definition DEFAULT_MAX_CANDIDATES :: u64 where "DEFAULT_MAX_CANDIDATES = 3"
definition MAX_NUM_CANDIDATES :: u64 where "MAX_NUM_CANDIDATES = 100"

record alerts_config =
  al_slack_webhook_url :: "url option"
  al_events :: "string list"
  al_throttle :: duration

definition default_alerts :: alerts_config where
  "default_alerts = \<lparr>al_slack_webhook_url = None,
     al_events = [''agreement_cancel_stuck'', ''rpc_blocks_refused'', ''nonce_gap_fill_failed'',
       ''chain_listener_changes_skipped'', ''chain_listener_fetch_failing'', ''stale_agreement_uncancellable'',
       ''liveness_abandonment_paused'', ''iisa_request_rejected'', ''dips_info_missing'',
       ''dips_info_checks_paused'', ''dips_info_missing_denylisted''],
     al_throttle = from_secs (15 * 60)\<rparr>"

definition default_events_left_out :: "alerts_config \<Rightarrow> string list" where
  "default_events_left_out c = filter (\<lambda>e. e \<notin> set (al_events c)) (al_events default_alerts)"

definition dec_alerts :: "'key parsers \<Rightarrow> alerts_config decoder" where
  "dec_alerts ps = in_section [''slack_webhook_url'', ''events'', ''throttle''] (\<lambda>kvs. do {
     slack_webhook_url \<leftarrow> field_or kvs ''slack_webhook_url'' (al_slack_webhook_url default_alerts) (dec_option (dec_text (p_url ps)));
     events \<leftarrow> field_or kvs ''events'' (al_events default_alerts) (dec_list dec_str);
     throttle \<leftarrow> field_or kvs ''throttle'' (al_throttle default_alerts) dec_secs;
     Some \<lparr>al_slack_webhook_url = slack_webhook_url, al_events = events, al_throttle = throttle\<rparr> })"

record health_config =
  he_enabled :: bool
  he_listen_addr :: socket_addr
  he_threshold :: duration

definition DEFAULT_HEALTH_THRESHOLD :: duration where "DEFAULT_HEALTH_THRESHOLD = 2 * from_secs 420"

definition default_health_listen_addr :: socket_addr where
  "default_health_listen_addr = \<lparr>sa_ip = V4 0, sa_port = 8546\<rparr>"

definition default_health :: health_config where
  "default_health = \<lparr>he_enabled = True, he_listen_addr = default_health_listen_addr, he_threshold = DEFAULT_HEALTH_THRESHOLD\<rparr>"

definition dec_health :: "'key parsers \<Rightarrow> health_config decoder" where
  "dec_health ps = in_section [''enabled'', ''listen_addr'', ''threshold''] (\<lambda>kvs. do {
     enabled \<leftarrow> field_or kvs ''enabled'' (he_enabled default_health) dec_bool;
     listen_addr \<leftarrow> field_or kvs ''listen_addr'' (he_listen_addr default_health) (dec_text (p_socket_addr ps));
     threshold \<leftarrow> field_or kvs ''threshold'' (he_threshold default_health) dec_secs;
     Some \<lparr>he_enabled = enabled, he_listen_addr = listen_addr, he_threshold = threshold\<rparr> })"

datatype config_fault =
    HealthPortZero
  | HealthPortShared u16
  | TripFraction f64
  | WatcherInterval duration
  | WatcherTimeout
  | AlertAfterZero
  | DenylistNotAfterAlert u32 u32
  | NoConcurrentRequests
  | NoManager
  | AgreementCap f64
  | EntityCeiling f64
  | ChainCap string f64
  | FallbackCap f64
  | ResetNotBelowTrip f64 f64
  | IndexerCapAboveTotal u32 u32
  | CollectionWindow u64 u64
  | DurationBeforeDeadline u64 u64
  | DurationTooShort u64 u64 u64
  | NoKafka

definition validate_health :: "health_config \<Rightarrow> socket_addr \<Rightarrow> config_fault + unit" where
  "validate_health c admin_rpc_listen_addr =
     (if \<not> he_enabled c then Inr ()
      else if sa_port (he_listen_addr c) = 0 then Inl HealthPortZero
      else if sa_port (he_listen_addr c) = sa_port admin_rpc_listen_addr then Inl (HealthPortShared (sa_port (he_listen_addr c)))
      else Inr ())"

section \<open>Clients\<close>

record iisa_config =
  ii_endpoint :: url
  ii_request_timeout :: duration
  ii_connect_timeout :: duration
  ii_max_retries :: u32
  ii_push_token :: "string option"

definition default_request_timeout :: duration where "default_request_timeout = from_secs 30"
definition default_connect_timeout :: duration where "default_connect_timeout = from_secs 10"
definition default_max_retries :: u32 where "default_max_retries = 3"

definition dec_iisa :: "'key parsers \<Rightarrow> iisa_config decoder" where
  "dec_iisa ps = in_section [''endpoint'', ''request_timeout'', ''connect_timeout'', ''max_retries'', ''push_token''] (\<lambda>kvs. do {
     endpoint \<leftarrow> required kvs ''endpoint'' (dec_text (p_url ps));
     request_timeout \<leftarrow> field_or kvs ''request_timeout'' default_request_timeout dec_secs;
     connect_timeout \<leftarrow> field_or kvs ''connect_timeout'' default_connect_timeout dec_secs;
     max_retries \<leftarrow> field_or kvs ''max_retries'' default_max_retries dec_uint;
     push_token \<leftarrow> field_or kvs ''push_token'' None (dec_option dec_str);
     Some \<lparr>ii_endpoint = endpoint, ii_request_timeout = request_timeout, ii_connect_timeout = connect_timeout,
       ii_max_retries = max_retries, ii_push_token = push_token\<rparr> })"

record indexer_client_config =
  ic_request_timeout :: duration
  ic_connect_timeout :: duration
  ic_max_retries :: u32

definition default_indexer_request_timeout :: duration where "default_indexer_request_timeout = from_secs 240"
definition default_indexer_connect_timeout :: duration where "default_indexer_connect_timeout = from_secs 10"
definition default_indexer_max_retries :: u32 where "default_indexer_max_retries = 3"

definition default_indexer_client :: indexer_client_config where
  "default_indexer_client = \<lparr>ic_request_timeout = default_indexer_request_timeout,
     ic_connect_timeout = default_indexer_connect_timeout, ic_max_retries = default_indexer_max_retries\<rparr>"

definition dec_indexer_client :: "indexer_client_config decoder" where
  "dec_indexer_client = in_section [''request_timeout'', ''connect_timeout'', ''max_retries''] (\<lambda>kvs. do {
     request_timeout \<leftarrow> field_or kvs ''request_timeout'' default_indexer_request_timeout dec_secs;
     connect_timeout \<leftarrow> field_or kvs ''connect_timeout'' default_indexer_connect_timeout dec_secs;
     max_retries \<leftarrow> field_or kvs ''max_retries'' default_indexer_max_retries dec_uint;
     Some \<lparr>ic_request_timeout = request_timeout, ic_connect_timeout = connect_timeout, ic_max_retries = max_retries\<rparr> })"

record chain_client_config =
  cn_enabled :: bool
  cn_providers :: "url list"
  cn_request_timeout :: duration
  cn_max_retries :: u32
  cn_domain_refresh_interval :: duration
  cn_gas_price_multiplier :: f64
  cn_max_gas_price_gwei :: u64
  cn_gas_buffer_multiplier :: f64
  cn_gas_floor :: u64
  cn_gas_max_addition :: u64

definition default_gas_price_multiplier :: f64 where "default_gas_price_multiplier = f64_round (12 / 10)"
definition default_max_gas_price_gwei :: u64 where "default_max_gas_price_gwei = 100"
definition default_chain_client_enabled :: bool where "default_chain_client_enabled = False"
definition default_chain_client_request_timeout :: duration where "default_chain_client_request_timeout = from_secs 10"
definition default_domain_refresh_interval :: duration where "default_domain_refresh_interval = from_secs 3600"
definition default_chain_client_max_retries :: u32 where "default_chain_client_max_retries = 3"
definition default_gas_buffer_multiplier :: f64 where "default_gas_buffer_multiplier = Fin 2"
definition default_gas_floor :: u64 where "default_gas_floor = 100000"
definition default_gas_max_addition :: u64 where "default_gas_max_addition = 200000"

definition dec_chain_client :: "'key parsers \<Rightarrow> chain_client_config decoder" where
  "dec_chain_client ps = in_section [''enabled'', ''providers'', ''request_timeout'', ''max_retries'', ''domain_refresh_interval'',
       ''gas_price_multiplier'', ''max_gas_price_gwei'', ''gas_buffer_multiplier'', ''gas_floor'', ''gas_max_addition''] (\<lambda>kvs. do {
     enabled \<leftarrow> field_or kvs ''enabled'' default_chain_client_enabled dec_bool;
     providers \<leftarrow> required kvs ''providers'' (dec_list (dec_text (p_url ps)));
     request_timeout \<leftarrow> field_or kvs ''request_timeout'' default_chain_client_request_timeout dec_secs;
     max_retries \<leftarrow> field_or kvs ''max_retries'' default_chain_client_max_retries dec_uint;
     domain_refresh_interval \<leftarrow> field_or kvs ''domain_refresh_interval'' default_domain_refresh_interval dec_secs;
     gas_price_multiplier \<leftarrow> field_or kvs ''gas_price_multiplier'' default_gas_price_multiplier dec_f64;
     max_gas_price_gwei \<leftarrow> field_or kvs ''max_gas_price_gwei'' default_max_gas_price_gwei dec_uint;
     gas_buffer_multiplier \<leftarrow> field_or kvs ''gas_buffer_multiplier'' default_gas_buffer_multiplier dec_f64;
     gas_floor \<leftarrow> field_or kvs ''gas_floor'' default_gas_floor dec_uint;
     gas_max_addition \<leftarrow> field_or kvs ''gas_max_addition'' default_gas_max_addition dec_uint;
     Some \<lparr>cn_enabled = enabled, cn_providers = providers, cn_request_timeout = request_timeout, cn_max_retries = max_retries,
       cn_domain_refresh_interval = domain_refresh_interval, cn_gas_price_multiplier = gas_price_multiplier,
       cn_max_gas_price_gwei = max_gas_price_gwei, cn_gas_buffer_multiplier = gas_buffer_multiplier,
       cn_gas_floor = gas_floor, cn_gas_max_addition = gas_max_addition\<rparr> })"

section \<open>Services\<close>

record reassignment_config =
  ra_enabled :: bool
  ra_interval :: duration
  ra_run_at_utc_hour :: u8
  ra_batch_size :: int
  ra_min_request_age :: duration
  ra_top_up_interval :: duration

definition default_reassignment_enabled :: bool where "default_reassignment_enabled = True"
definition default_reassignment_interval :: duration where "default_reassignment_interval = from_secs 86400"
definition default_reassignment_run_at_utc_hour :: u8 where "default_reassignment_run_at_utc_hour = 10"
definition default_reassignment_batch_size :: int where "default_reassignment_batch_size = 100"
definition default_reassignment_min_age :: duration where "default_reassignment_min_age = from_secs 86400"
definition default_reassignment_top_up_interval :: duration where "default_reassignment_top_up_interval = from_secs 3600"

definition deserialize_utc_hour :: "u8 decoder" where
  "deserialize_utc_hour j = do { hour \<leftarrow> dec_uint j; if hour > 23 then None else Some hour }"

definition dec_reassignment :: "reassignment_config decoder" where
  "dec_reassignment = in_section [''enabled'', ''interval'', ''run_at_utc_hour'', ''batch_size'', ''min_request_age'',
       ''top_up_interval''] (\<lambda>kvs. do {
     enabled \<leftarrow> field_or kvs ''enabled'' default_reassignment_enabled dec_bool;
     interval \<leftarrow> field_or kvs ''interval'' default_reassignment_interval dec_secs;
     run_at_utc_hour \<leftarrow> field_or kvs ''run_at_utc_hour'' default_reassignment_run_at_utc_hour deserialize_utc_hour;
     batch_size \<leftarrow> field_or kvs ''batch_size'' default_reassignment_batch_size (dec_sint 64);
     min_request_age \<leftarrow> field_or kvs ''min_request_age'' default_reassignment_min_age dec_secs;
     top_up_interval \<leftarrow> field_or kvs ''top_up_interval'' default_reassignment_top_up_interval dec_secs;
     Some \<lparr>ra_enabled = enabled, ra_interval = interval, ra_run_at_utc_hour = run_at_utc_hour, ra_batch_size = batch_size,
       ra_min_request_age = min_request_age, ra_top_up_interval = top_up_interval\<rparr> })"

record expiration_section =
  xp_enabled :: bool
  xp_interval :: duration
  xp_batch_size :: int
  xp_grace :: duration

definition default_expiration_enabled :: bool where "default_expiration_enabled = True"
definition default_expiration_interval :: duration where "default_expiration_interval = from_secs 90"
definition default_expiration_batch_size :: int where "default_expiration_batch_size = 100"
definition default_expiration_grace :: duration where "default_expiration_grace = from_secs 300"

definition dec_expiration :: "expiration_section decoder" where
  "dec_expiration = in_section [''enabled'', ''interval'', ''batch_size'', ''grace''] (\<lambda>kvs. do {
     enabled \<leftarrow> field_or kvs ''enabled'' default_expiration_enabled dec_bool;
     interval \<leftarrow> field_or kvs ''interval'' default_expiration_interval dec_secs;
     batch_size \<leftarrow> field_or kvs ''batch_size'' default_expiration_batch_size (dec_sint 64);
     grace \<leftarrow> field_or kvs ''grace'' default_expiration_grace dec_secs;
     Some \<lparr>xp_enabled = enabled, xp_interval = interval, xp_batch_size = batch_size, xp_grace = grace\<rparr> })"

record escrow_reconciler_config =
  es_enabled :: bool
  es_interval :: duration
  es_batch_size :: int
  es_rebalance_interval :: duration
  es_agreements_per_sweep :: u64

definition default_escrow_reconciler_enabled :: bool where "default_escrow_reconciler_enabled = True"
definition default_escrow_reconciler_interval :: duration where "default_escrow_reconciler_interval = from_secs 600"
definition default_escrow_reconciler_batch_size :: int where "default_escrow_reconciler_batch_size = 500"
definition default_escrow_reconciler_rebalance_interval :: duration where
  "default_escrow_reconciler_rebalance_interval = from_secs 86400"
definition default_escrow_reconciler_agreements_per_sweep :: u64 where "default_escrow_reconciler_agreements_per_sweep = 500"

definition dec_escrow_reconciler :: "escrow_reconciler_config decoder" where
  "dec_escrow_reconciler = in_section [''enabled'', ''interval'', ''batch_size'', ''rebalance_interval'',
       ''agreements_per_sweep''] (\<lambda>kvs. do {
     enabled \<leftarrow> field_or kvs ''enabled'' default_escrow_reconciler_enabled dec_bool;
     interval \<leftarrow> field_or kvs ''interval'' default_escrow_reconciler_interval dec_secs;
     batch_size \<leftarrow> field_or kvs ''batch_size'' default_escrow_reconciler_batch_size (dec_sint 64);
     rebalance_interval \<leftarrow> field_or kvs ''rebalance_interval'' default_escrow_reconciler_rebalance_interval dec_secs;
     agreements_per_sweep \<leftarrow> field_or kvs ''agreements_per_sweep'' default_escrow_reconciler_agreements_per_sweep dec_uint;
     Some \<lparr>es_enabled = enabled, es_interval = interval, es_batch_size = batch_size,
       es_rebalance_interval = rebalance_interval, es_agreements_per_sweep = agreements_per_sweep\<rparr> })"

record liveness_section =
  ls_enabled :: bool
  ls_interval :: duration
  ls_max_tolerance_days :: u32
  ls_request_timeout :: duration
  ls_batch_size :: int
  ls_unreachable_trip_fraction :: f64
  ls_unreachable_trip_min_indexers :: u64

definition default_liveness_checker_enabled :: bool where "default_liveness_checker_enabled = False"
definition default_liveness_checker_interval :: duration where "default_liveness_checker_interval = from_secs 300"
definition default_liveness_checker_max_tolerance_days :: u32 where "default_liveness_checker_max_tolerance_days = 4"
definition default_liveness_checker_request_timeout :: duration where "default_liveness_checker_request_timeout = from_secs 10"
definition default_liveness_checker_batch_size :: int where "default_liveness_checker_batch_size = 500"
definition default_liveness_checker_unreachable_trip_fraction :: f64 where
  "default_liveness_checker_unreachable_trip_fraction = Fin (1 / 2)"
definition default_liveness_checker_unreachable_trip_min_indexers :: u64 where
  "default_liveness_checker_unreachable_trip_min_indexers = 3"

definition dec_liveness :: "liveness_section decoder" where
  "dec_liveness = in_section [''enabled'', ''interval'', ''max_tolerance_days'', ''request_timeout'', ''batch_size'',
       ''unreachable_trip_fraction'', ''unreachable_trip_min_indexers''] (\<lambda>kvs. do {
     enabled \<leftarrow> field_or kvs ''enabled'' default_liveness_checker_enabled dec_bool;
     interval \<leftarrow> field_or kvs ''interval'' default_liveness_checker_interval dec_secs;
     max_tolerance_days \<leftarrow> field_or kvs ''max_tolerance_days'' default_liveness_checker_max_tolerance_days dec_uint;
     request_timeout \<leftarrow> field_or kvs ''request_timeout'' default_liveness_checker_request_timeout dec_secs;
     batch_size \<leftarrow> field_or kvs ''batch_size'' default_liveness_checker_batch_size (dec_sint 64);
     trip_fraction \<leftarrow> field_or kvs ''unreachable_trip_fraction'' default_liveness_checker_unreachable_trip_fraction dec_f64;
     trip_min_indexers \<leftarrow> field_or kvs ''unreachable_trip_min_indexers'' default_liveness_checker_unreachable_trip_min_indexers dec_uint;
     Some \<lparr>ls_enabled = enabled, ls_interval = interval, ls_max_tolerance_days = max_tolerance_days,
       ls_request_timeout = request_timeout, ls_batch_size = batch_size, ls_unreachable_trip_fraction = trip_fraction,
       ls_unreachable_trip_min_indexers = trip_min_indexers\<rparr> })"

text \<open>Comparisons of doubles: none holds of a NaN.\<close>

definition f64_less :: "f64 \<Rightarrow> f64 \<Rightarrow> bool" where
  "f64_less x y \<longleftrightarrow> f64_le x y \<and> \<not> f64_le y x"

definition bad_fraction :: "f64 \<Rightarrow> bool" where
  "bad_fraction fraction \<longleftrightarrow> fraction = NaN \<or> f64_le fraction (Fin 0) \<or> f64_less (Fin 1) fraction"

definition validate_liveness :: "liveness_section \<Rightarrow> config_fault + unit" where
  "validate_liveness c =
     (if \<not> ls_enabled c then Inr ()
      else if bad_fraction (ls_unreachable_trip_fraction c) then Inl (TripFraction (ls_unreachable_trip_fraction c))
      else Inr ())"

record dips_info_watcher_config =
  dw_enabled :: bool
  dw_interval :: duration
  dw_alert_after_hours :: u32
  dw_denylist_after_hours :: u32
  dw_request_timeout :: duration
  dw_max_concurrent_requests :: u64
  dw_unreachable_trip_fraction :: f64
  dw_unreachable_trip_min_indexers :: u64

definition default_dips_info_watcher_interval :: duration where "default_dips_info_watcher_interval = from_secs 300"
definition default_dips_info_watcher_alert_after_hours :: u32 where "default_dips_info_watcher_alert_after_hours = 24"
definition default_dips_info_watcher_denylist_after_hours :: u32 where "default_dips_info_watcher_denylist_after_hours = 48"
definition default_dips_info_watcher_request_timeout :: duration where "default_dips_info_watcher_request_timeout = from_secs 10"
definition default_dips_info_watcher_max_concurrent_requests :: u64 where
  "default_dips_info_watcher_max_concurrent_requests = 16"

definition dec_dips_info_watcher :: "dips_info_watcher_config decoder" where
  "dec_dips_info_watcher = in_section [''enabled'', ''interval'', ''alert_after_hours'', ''denylist_after_hours'', ''request_timeout'',
       ''max_concurrent_requests'', ''unreachable_trip_fraction'', ''unreachable_trip_min_indexers''] (\<lambda>kvs. do {
     enabled \<leftarrow> field_or kvs ''enabled'' False dec_bool;
     interval \<leftarrow> field_or kvs ''interval'' default_dips_info_watcher_interval dec_secs;
     alert_after_hours \<leftarrow> field_or kvs ''alert_after_hours'' default_dips_info_watcher_alert_after_hours dec_uint;
     denylist_after_hours \<leftarrow> field_or kvs ''denylist_after_hours'' default_dips_info_watcher_denylist_after_hours dec_uint;
     request_timeout \<leftarrow> field_or kvs ''request_timeout'' default_dips_info_watcher_request_timeout dec_secs;
     max_concurrent_requests \<leftarrow> field_or kvs ''max_concurrent_requests'' default_dips_info_watcher_max_concurrent_requests dec_uint;
     trip_fraction \<leftarrow> field_or kvs ''unreachable_trip_fraction'' default_liveness_checker_unreachable_trip_fraction dec_f64;
     trip_min_indexers \<leftarrow> field_or kvs ''unreachable_trip_min_indexers'' default_liveness_checker_unreachable_trip_min_indexers dec_uint;
     Some \<lparr>dw_enabled = enabled, dw_interval = interval, dw_alert_after_hours = alert_after_hours,
       dw_denylist_after_hours = denylist_after_hours, dw_request_timeout = request_timeout,
       dw_max_concurrent_requests = max_concurrent_requests, dw_unreachable_trip_fraction = trip_fraction,
       dw_unreachable_trip_min_indexers = trip_min_indexers\<rparr> })"

definition validate_dips_info_watcher :: "dips_info_watcher_config \<Rightarrow> config_fault + unit" where
  "validate_dips_info_watcher c =
     (if \<not> dw_enabled c then Inr ()
      else if dw_interval c = 0 \<or> dw_interval c > from_secs (24 * 3600) then Inl (WatcherInterval (dw_interval c))
      else if dw_request_timeout c = 0 then Inl WatcherTimeout
      else if dw_alert_after_hours c = 0 then Inl AlertAfterZero
      else if dw_denylist_after_hours c \<le> dw_alert_after_hours c
        then Inl (DenylistNotAfterAlert (dw_denylist_after_hours c) (dw_alert_after_hours c))
      else if dw_max_concurrent_requests c = 0 then Inl NoConcurrentRequests
      else if bad_fraction (dw_unreachable_trip_fraction c) then Inl (TripFraction (dw_unreachable_trip_fraction c))
      else Inr ())"

definition alert_after :: "dips_info_watcher_config \<Rightarrow> duration" where
  "alert_after c = from_secs (unat (ucast (dw_alert_after_hours c) * 3600 :: u64))"

definition denylist_after :: "dips_info_watcher_config \<Rightarrow> duration" where
  "denylist_after c = from_secs (unat (ucast (dw_denylist_after_hours c) * 3600 :: u64))"

record chain_listener_config =
  li_enabled :: bool
  li_subgraph_endpoint :: url
  li_subgraph_api_key :: "string option"
  li_listened_chain :: u64
  li_poll_interval :: duration
  li_request_timeout :: duration
  li_max_retries :: u32
  li_reorg_buffer_blocks :: u32
  li_wall_clock_skew_tolerance_secs :: u64
  li_chain_ts_drift_tolerance_secs :: u64
  li_bypass_chain_clock_defenses :: bool

definition default_chain_listener_enabled :: bool where "default_chain_listener_enabled = False"
definition default_chain_id :: u64 where "default_chain_id = 42161"
definition default_chain_listener_poll_interval :: duration where "default_chain_listener_poll_interval = from_secs 30"
definition default_chain_listener_request_timeout :: duration where "default_chain_listener_request_timeout = from_secs 30"
definition default_chain_listener_max_retries :: u32 where "default_chain_listener_max_retries = 3"
definition default_chain_listener_reorg_buffer_blocks :: u32 where "default_chain_listener_reorg_buffer_blocks = 20"
definition default_chain_listener_wall_clock_skew_tolerance_secs :: u64 where
  "default_chain_listener_wall_clock_skew_tolerance_secs = 60"
definition default_chain_listener_chain_ts_drift_tolerance_secs :: u64 where
  "default_chain_listener_chain_ts_drift_tolerance_secs = 10"

definition dec_chain_listener :: "'key parsers \<Rightarrow> chain_listener_config decoder" where
  "dec_chain_listener ps = in_section [''enabled'', ''subgraph_endpoint'', ''subgraph_api_key'', ''chain_id'', ''poll_interval'',
       ''request_timeout'', ''max_retries'', ''reorg_buffer_blocks'', ''wall_clock_skew_tolerance_secs'',
       ''chain_ts_drift_tolerance_secs'', ''bypass_chain_clock_defenses''] (\<lambda>kvs. do {
     enabled \<leftarrow> field_or kvs ''enabled'' default_chain_listener_enabled dec_bool;
     subgraph_endpoint \<leftarrow> required kvs ''subgraph_endpoint'' (dec_text (p_url ps));
     subgraph_api_key \<leftarrow> field_or kvs ''subgraph_api_key'' None (dec_option dec_str);
     listened_chain \<leftarrow> field_or kvs ''chain_id'' default_chain_id dec_uint;
     poll_interval \<leftarrow> field_or kvs ''poll_interval'' default_chain_listener_poll_interval dec_secs;
     request_timeout \<leftarrow> field_or kvs ''request_timeout'' default_chain_listener_request_timeout dec_secs;
     max_retries \<leftarrow> field_or kvs ''max_retries'' default_chain_listener_max_retries dec_uint;
     reorg_buffer_blocks \<leftarrow> field_or kvs ''reorg_buffer_blocks'' default_chain_listener_reorg_buffer_blocks dec_uint;
     wall_clock_skew \<leftarrow> field_or kvs ''wall_clock_skew_tolerance_secs'' default_chain_listener_wall_clock_skew_tolerance_secs dec_uint;
     chain_ts_drift \<leftarrow> field_or kvs ''chain_ts_drift_tolerance_secs'' default_chain_listener_chain_ts_drift_tolerance_secs dec_uint;
     bypass \<leftarrow> field_or kvs ''bypass_chain_clock_defenses'' False dec_bool;
     Some \<lparr>li_enabled = enabled, li_subgraph_endpoint = subgraph_endpoint, li_subgraph_api_key = subgraph_api_key,
       li_listened_chain = listened_chain, li_poll_interval = poll_interval, li_request_timeout = request_timeout,
       li_max_retries = max_retries, li_reorg_buffer_blocks = reorg_buffer_blocks,
       li_wall_clock_skew_tolerance_secs = wall_clock_skew, li_chain_ts_drift_tolerance_secs = chain_ts_drift,
       li_bypass_chain_clock_defenses = bypass\<rparr> })"

section \<open>Agreements\<close>

record chain_prices =
  cp_tokens_per_second :: u256
  cp_tokens_per_entity_per_second :: u256

record dips_agreement_config =
  da_data_service :: address
  da_recurring_collector :: address
  da_recurring_agreement_manager :: address
  da_max_agreement_grt_per_30_days :: f64
  da_max_seconds_per_collection :: u32
  da_min_seconds_per_collection :: u32
  da_duration_seconds :: "u64 option"
  da_deadline_seconds :: u64
  da_pricing_table :: "(chain_id \<times> chain_prices) list"
  da_max_grt_per_30_days :: "(string \<times> f64) list"
  da_fallback_max_grt_per_30_days :: f64
  da_max_grt_per_billion_entities_per_30_days :: f64
  da_declined_indexer_lookback_days :: int
  da_price_rejection_lookback_days :: int
  da_transient_rejection_lookback_minutes :: int
  da_uncertain_rejection_lookback_days :: int
  da_unresponsive_indexer_lookback_days :: int
  da_mass_unresponsive_trip_fraction :: f64
  da_mass_unresponsive_reset_fraction :: f64
  da_dips_accepting_snapshot_max_age_hours :: int
  da_dips_accepting_cache_ttl_seconds :: u64
  da_max_in_flight_offers_per_indexer :: "u32 option"
  da_max_in_flight_offers_total :: "u32 option"

definition default_deadline_seconds :: u64 where "default_deadline_seconds = 600"

definition INDEXER_RS_MIN_GRT_PER_30_DAYS :: "(string \<times> f64) list" where
  "INDEXER_RS_MIN_GRT_PER_30_DAYS = [(''arbitrum-one'', Fin 450), (''matic'', Fin 300), (''avalanche'', Fin 225),
     (''bsc'', Fin 200), (''base'', Fin 80), (''mainnet'', Fin 45), (''optimism'', Fin 30), (''base-sepolia'', Fin 15),
     (''sepolia'', Fin 5)]"

definition PAYMENT_CEILING_MULTIPLIER :: f64 where "PAYMENT_CEILING_MULTIPLIER = Fin 10"

definition default_max_grt_per_30_days :: "(string \<times> f64) list" where
  "default_max_grt_per_30_days =
     btree_of (map (\<lambda>(name, least). (name, f64_mul least PAYMENT_CEILING_MULTIPLIER)) INDEXER_RS_MIN_GRT_PER_30_DAYS)"

text \<open>\<open>f64::max\<close>: a NaN gives way to the other.\<close>

definition f64_max :: "f64 \<Rightarrow> f64 \<Rightarrow> f64" where
  "f64_max x y = (if x = NaN then y else if y = NaN then x else if f64_le x y then y else x)"

definition default_fallback_max_grt_per_30_days :: f64 where
  "default_fallback_max_grt_per_30_days =
     foldl f64_max (Fin 0) (map (\<lambda>(_, least). f64_mul least PAYMENT_CEILING_MULTIPLIER) INDEXER_RS_MIN_GRT_PER_30_DAYS)"

definition default_max_grt_per_billion_entities_per_30_days :: f64 where
  "default_max_grt_per_billion_entities_per_30_days = Fin 2000"
definition default_max_agreement_grt_per_30_days :: f64 where "default_max_agreement_grt_per_30_days = Fin 20000"
definition default_declined_indexer_lookback_days :: int where "default_declined_indexer_lookback_days = 30"
definition default_price_rejection_lookback_days :: int where "default_price_rejection_lookback_days = 1"
definition default_transient_rejection_lookback_minutes :: int where "default_transient_rejection_lookback_minutes = 5"
definition default_uncertain_rejection_lookback_days :: int where "default_uncertain_rejection_lookback_days = 1"
definition default_unresponsive_indexer_lookback_days :: int where "default_unresponsive_indexer_lookback_days = 1"
definition default_mass_unresponsive_trip_fraction :: f64 where "default_mass_unresponsive_trip_fraction = Fin (1 / 2)"
definition default_mass_unresponsive_reset_fraction :: f64 where "default_mass_unresponsive_reset_fraction = Fin (1 / 4)"
definition default_dips_accepting_snapshot_max_age_hours :: int where "default_dips_accepting_snapshot_max_age_hours = 48"
definition default_dips_accepting_cache_ttl_seconds :: u64 where "default_dips_accepting_cache_ttl_seconds = 300"
definition default_max_in_flight_offers_per_indexer :: "u32 option" where "default_max_in_flight_offers_per_indexer = Some 5"
definition default_max_in_flight_offers_total :: "u32 option" where "default_max_in_flight_offers_total = Some 100"

definition dec_chain_prices :: "'key parsers \<Rightarrow> chain_prices decoder" where
  "dec_chain_prices ps = in_section [''tokens_per_second'', ''tokens_per_entity_per_second''] (\<lambda>kvs. do {
     tokens_per_second \<leftarrow> required kvs ''tokens_per_second'' (dec_text (p_u256 ps));
     tokens_per_entity_per_second \<leftarrow> required kvs ''tokens_per_entity_per_second'' (dec_text (p_u256 ps));
     Some \<lparr>cp_tokens_per_second = tokens_per_second, cp_tokens_per_entity_per_second = tokens_per_entity_per_second\<rparr> })"

text \<open>
  \<open>transient_rejection_lookback_minutes\<close> has an older name, \<open>signer_rejection_lookback_minutes\<close>; the two
  together are the field twice.
\<close>

definition under_alias :: "string \<Rightarrow> string \<Rightarrow> json \<Rightarrow> json" where
  "under_alias old name j = (case j of
       JObject kvs \<Rightarrow> JObject (map (\<lambda>(k, v). (if k = old then name else k, v)) kvs)
     | _ \<Rightarrow> j)"

definition dips_keys :: "string list" where
  "dips_keys = [''data_service'', ''recurring_collector'', ''recurring_agreement_manager'', ''max_agreement_grt_per_30_days'',
     ''max_seconds_per_collection'', ''min_seconds_per_collection'', ''duration_seconds'', ''deadline_seconds'', ''pricing_table'',
     ''max_grt_per_30_days'', ''fallback_max_grt_per_30_days'', ''max_grt_per_billion_entities_per_30_days'',
     ''declined_indexer_lookback_days'', ''price_rejection_lookback_days'', ''transient_rejection_lookback_minutes'',
     ''uncertain_rejection_lookback_days'', ''unresponsive_indexer_lookback_days'', ''mass_unresponsive_trip_fraction'',
     ''mass_unresponsive_reset_fraction'', ''dips_accepting_snapshot_max_age_hours'', ''dips_accepting_cache_ttl_seconds'',
     ''max_in_flight_offers_per_indexer'', ''max_in_flight_offers_total'']"

definition dips_fields :: "'key parsers \<Rightarrow> (string \<times> json) list \<Rightarrow> dips_agreement_config option" where
  "dips_fields ps kvs = do {
     data_service \<leftarrow> required kvs ''data_service'' (dec_text (p_address ps));
     recurring_collector \<leftarrow> required kvs ''recurring_collector'' (dec_text (p_address ps));
     recurring_agreement_manager \<leftarrow> required kvs ''recurring_agreement_manager'' (dec_text (p_address ps));
     max_agreement \<leftarrow> field_or kvs ''max_agreement_grt_per_30_days'' default_max_agreement_grt_per_30_days dec_f64;
     max_seconds \<leftarrow> required kvs ''max_seconds_per_collection'' dec_uint;
     min_seconds \<leftarrow> required kvs ''min_seconds_per_collection'' dec_uint;
     duration_seconds \<leftarrow> field_or kvs ''duration_seconds'' None (dec_option dec_uint);
     deadline_seconds \<leftarrow> field_or kvs ''deadline_seconds'' default_deadline_seconds dec_uint;
     pricing_table \<leftarrow> field_or kvs ''pricing_table'' [] (dec_map (p_chain_id ps) (dec_chain_prices ps));
     max_grt \<leftarrow> field_or kvs ''max_grt_per_30_days'' default_max_grt_per_30_days (dec_map Some dec_f64);
     fallback_max_grt \<leftarrow> field_or kvs ''fallback_max_grt_per_30_days'' default_fallback_max_grt_per_30_days dec_f64;
     max_entities \<leftarrow> field_or kvs ''max_grt_per_billion_entities_per_30_days'' default_max_grt_per_billion_entities_per_30_days dec_f64;
     declined \<leftarrow> field_or kvs ''declined_indexer_lookback_days'' default_declined_indexer_lookback_days (dec_sint 32);
     price \<leftarrow> field_or kvs ''price_rejection_lookback_days'' default_price_rejection_lookback_days (dec_sint 32);
     transient \<leftarrow> field_or kvs ''transient_rejection_lookback_minutes'' default_transient_rejection_lookback_minutes (dec_sint 32);
     uncertain \<leftarrow> field_or kvs ''uncertain_rejection_lookback_days'' default_uncertain_rejection_lookback_days (dec_sint 32);
     unresponsive \<leftarrow> field_or kvs ''unresponsive_indexer_lookback_days'' default_unresponsive_indexer_lookback_days (dec_sint 32);
     trip \<leftarrow> field_or kvs ''mass_unresponsive_trip_fraction'' default_mass_unresponsive_trip_fraction dec_f64;
     reset \<leftarrow> field_or kvs ''mass_unresponsive_reset_fraction'' default_mass_unresponsive_reset_fraction dec_f64;
     max_age \<leftarrow> field_or kvs ''dips_accepting_snapshot_max_age_hours'' default_dips_accepting_snapshot_max_age_hours (dec_sint 64);
     ttl \<leftarrow> field_or kvs ''dips_accepting_cache_ttl_seconds'' default_dips_accepting_cache_ttl_seconds dec_uint;
     per_indexer \<leftarrow> field_or kvs ''max_in_flight_offers_per_indexer'' default_max_in_flight_offers_per_indexer (dec_option dec_uint);
     total \<leftarrow> field_or kvs ''max_in_flight_offers_total'' default_max_in_flight_offers_total (dec_option dec_uint);
     Some \<lparr>da_data_service = data_service, da_recurring_collector = recurring_collector,
       da_recurring_agreement_manager = recurring_agreement_manager, da_max_agreement_grt_per_30_days = max_agreement,
       da_max_seconds_per_collection = max_seconds, da_min_seconds_per_collection = min_seconds,
       da_duration_seconds = duration_seconds, da_deadline_seconds = deadline_seconds, da_pricing_table = pricing_table,
       da_max_grt_per_30_days = max_grt, da_fallback_max_grt_per_30_days = fallback_max_grt,
       da_max_grt_per_billion_entities_per_30_days = max_entities, da_declined_indexer_lookback_days = declined,
       da_price_rejection_lookback_days = price, da_transient_rejection_lookback_minutes = transient,
       da_uncertain_rejection_lookback_days = uncertain, da_unresponsive_indexer_lookback_days = unresponsive,
       da_mass_unresponsive_trip_fraction = trip, da_mass_unresponsive_reset_fraction = reset,
       da_dips_accepting_snapshot_max_age_hours = max_age, da_dips_accepting_cache_ttl_seconds = ttl,
       da_max_in_flight_offers_per_indexer = per_indexer, da_max_in_flight_offers_total = total\<rparr> }"

definition dec_dips :: "'key parsers \<Rightarrow> dips_agreement_config decoder" where
  "dec_dips ps j = in_section dips_keys (dips_fields ps)
     (under_alias ''signer_rejection_lookback_minutes'' ''transient_rejection_lookback_minutes'' j)"

definition MIN_SECONDS_COLLECTION_WINDOW :: u64 where "MIN_SECONDS_COLLECTION_WINDOW = 600"

definition positive :: "f64 \<Rightarrow> bool" where
  "positive x \<longleftrightarrow> x \<notin> {PosInf, NegInf, NaN} \<and> f64_less (Fin 0) x"

text \<open>The bound of a collection that has to fit after the deadline; the sum of a \<open>u32\<close> and 600 cannot wrap.\<close>

definition validate_duration :: "u64 \<Rightarrow> u64 \<Rightarrow> u64 option \<Rightarrow> config_fault + unit" where
  "validate_duration least deadline_seconds duration_seconds = (case duration_seconds of
       None \<Rightarrow> Inr ()
     | Some duration \<Rightarrow>
         if duration \<le> deadline_seconds then Inl (DurationBeforeDeadline duration deadline_seconds)
         else if duration - deadline_seconds < least + MIN_SECONDS_COLLECTION_WINDOW
           then Inl (DurationTooShort duration deadline_seconds least)
         else Inr ())"

definition validate_collection :: "dips_agreement_config \<Rightarrow> config_fault + unit" where
  "validate_collection c =
     (let least = ucast (da_min_seconds_per_collection c) :: u64; most = ucast (da_max_seconds_per_collection c) :: u64 in
      if most \<le> least \<or> most - least < MIN_SECONDS_COLLECTION_WINDOW then Inl (CollectionWindow most least)
      else validate_duration least (da_deadline_seconds c) (da_duration_seconds c))"

definition validate_dips :: "dips_agreement_config \<Rightarrow> config_fault + unit" where
  "validate_dips c =
     (if da_recurring_agreement_manager c = 0 then Inl NoManager
      else if \<not> positive (da_max_agreement_grt_per_30_days c) then Inl (AgreementCap (da_max_agreement_grt_per_30_days c))
      else if \<not> positive (da_max_grt_per_billion_entities_per_30_days c)
        then Inl (EntityCeiling (da_max_grt_per_billion_entities_per_30_days c))
      else case find (\<lambda>(_, cap). \<not> positive cap) (da_max_grt_per_30_days c) of
          Some (chain, cap) \<Rightarrow> Inl (ChainCap chain cap)
        | None \<Rightarrow>
            if \<not> positive (da_fallback_max_grt_per_30_days c) then Inl (FallbackCap (da_fallback_max_grt_per_30_days c))
            else if f64_le (da_mass_unresponsive_trip_fraction c) (da_mass_unresponsive_reset_fraction c)
              then Inl (ResetNotBelowTrip (da_mass_unresponsive_reset_fraction c) (da_mass_unresponsive_trip_fraction c))
            else case (da_max_in_flight_offers_per_indexer c, da_max_in_flight_offers_total c) of
                (Some per_indexer, Some overall) \<Rightarrow>
                  if overall > 0 \<and> per_indexer > overall then Inl (IndexerCapAboveTotal per_indexer overall)
                  else validate_collection c
              | _ \<Rightarrow> validate_collection c)"

section \<open>The configuration\<close>

record admin_rpc_config =
  ad_listen_addr :: socket_addr
  ad_gateway_operator_allowlist :: "address set"

definition dec_admin_rpc :: "'key parsers \<Rightarrow> admin_rpc_config decoder" where
  "dec_admin_rpc ps = in_section [''listen_addr'', ''gateway_operator_allowlist''] (\<lambda>kvs. do {
     listen_addr \<leftarrow> required kvs ''listen_addr'' (dec_text (p_socket_addr ps));
     allowlist \<leftarrow> required kvs ''gateway_operator_allowlist'' (dec_list (dec_text (p_address ps)));
     Some \<lparr>ad_listen_addr = listen_addr, ad_gateway_operator_allowlist = set allowlist\<rparr> })"

record db_config =
  db_url :: url
  db_username :: string
  db_password :: string
  db_max_connections :: "u32 option"

definition dec_db :: "'key parsers \<Rightarrow> db_config decoder" where
  "dec_db ps = in_section [''url'', ''username'', ''password'', ''max_connections''] (\<lambda>kvs. do {
     dburl \<leftarrow> required kvs ''url'' (dec_text (p_url ps));
     username \<leftarrow> required kvs ''username'' dec_str;
     password \<leftarrow> required kvs ''password'' dec_str;
     max_connections \<leftarrow> field_or kvs ''max_connections'' None (dec_option dec_uint);
     Some \<lparr>db_url = dburl, db_username = username, db_password = password, db_max_connections = max_connections\<rparr> })"

record indexer_urls_config =
  iu_subgraph_endpoint :: url
  iu_api_key :: "string option"
  iu_update_interval :: duration
  iu_allow_empty_at_startup :: bool

definition dec_indexer_urls :: "'key parsers \<Rightarrow> indexer_urls_config decoder" where
  "dec_indexer_urls ps = in_section [''subgraph_endpoint'', ''api_key'', ''update_interval'', ''allow_empty_at_startup''] (\<lambda>kvs. do {
     subgraph_endpoint \<leftarrow> required kvs ''subgraph_endpoint'' (dec_text (p_url ps));
     api_key \<leftarrow> field_or kvs ''api_key'' None (dec_option dec_str);
     update_interval \<leftarrow> required kvs ''update_interval'' dec_secs;
     allow_empty \<leftarrow> field_or kvs ''allow_empty_at_startup'' False dec_bool;
     Some \<lparr>iu_subgraph_endpoint = subgraph_endpoint, iu_api_key = api_key, iu_update_interval = update_interval,
       iu_allow_empty_at_startup = allow_empty\<rparr> })"

record 'key signer_config =
  sg_secret_key :: 'key
  sg_chain_id :: chain_id

definition dec_signer :: "'key parsers \<Rightarrow> 'key signer_config decoder" where
  "dec_signer ps = in_section [''secret_key'', ''chain_id''] (\<lambda>kvs. do {
     secret_key \<leftarrow> required kvs ''secret_key'' (dec_text (p_secret_key ps));
     signer_chain \<leftarrow> required kvs ''chain_id'' dec_uint;
     Some \<lparr>sg_secret_key = secret_key, sg_chain_id = signer_chain\<rparr> })"

record kafka_config =
  ka_brokers :: "string list"
  ka_topic :: string
  ka_partitions :: u32
  ka_sasl_mechanism :: "string option"
  ka_sasl_username :: "string option"
  ka_sasl_password :: "string option"
  ka_tls_enabled :: bool
  ka_tls_ca_cert_path :: "string option"

definition default_kafka_topic :: string where "default_kafka_topic = ''dipper.subgraph.indexing.agreement.events''"
definition default_kafka_partitions :: u32 where "default_kafka_partitions = 16"

definition dec_kafka :: "kafka_config decoder" where
  "dec_kafka = in_section [''brokers'', ''topic'', ''partitions'', ''sasl_mechanism'', ''sasl_username'', ''sasl_password'',
       ''tls_enabled'', ''tls_ca_cert_path''] (\<lambda>kvs. do {
     brokers \<leftarrow> required kvs ''brokers'' (dec_list dec_str);
     topic \<leftarrow> field_or kvs ''topic'' default_kafka_topic dec_str;
     partitions \<leftarrow> field_or kvs ''partitions'' default_kafka_partitions dec_uint;
     sasl_mechanism \<leftarrow> field_or kvs ''sasl_mechanism'' None (dec_option dec_str);
     sasl_username \<leftarrow> field_or kvs ''sasl_username'' None (dec_option dec_str);
     sasl_password \<leftarrow> field_or kvs ''sasl_password'' None (dec_option dec_str);
     tls_enabled \<leftarrow> field_or kvs ''tls_enabled'' False dec_bool;
     tls_ca_cert_path \<leftarrow> field_or kvs ''tls_ca_cert_path'' None (dec_option dec_str);
     Some \<lparr>ka_brokers = brokers, ka_topic = topic, ka_partitions = partitions, ka_sasl_mechanism = sasl_mechanism,
       ka_sasl_username = sasl_username, ka_sasl_password = sasl_password, ka_tls_enabled = tls_enabled,
       ka_tls_ca_cert_path = tls_ca_cert_path\<rparr> })"

record event_streaming_config =
  ev_enabled :: bool
  ev_event_queue_capacity :: u64
  ev_kafka :: "kafka_config option"

definition default_event_queue_capacity :: u64 where "default_event_queue_capacity = 1024"

text \<open>\<open>NonZeroUsize\<close>.\<close>

definition dec_nonzero :: "u64 decoder" where
  "dec_nonzero j = do { n \<leftarrow> dec_uint j; if n = 0 then None else Some n }"

definition dec_event_streaming :: "event_streaming_config decoder" where
  "dec_event_streaming = in_section [''enabled'', ''event_queue_capacity'', ''kafka''] (\<lambda>kvs. do {
     enabled \<leftarrow> field_or kvs ''enabled'' False dec_bool;
     capacity \<leftarrow> field_or kvs ''event_queue_capacity'' default_event_queue_capacity dec_nonzero;
     kafka \<leftarrow> field_or kvs ''kafka'' None (dec_option dec_kafka);
     Some \<lparr>ev_enabled = enabled, ev_event_queue_capacity = capacity, ev_kafka = kafka\<rparr> })"

definition validate_event_streaming :: "event_streaming_config \<Rightarrow> config_fault + unit" where
  "validate_event_streaming c = (if ev_enabled c \<and> ev_kafka c = None then Inl NoKafka else Inr ())"

record 'key config =
  cf_dips :: dips_agreement_config
  cf_admin_rpc :: admin_rpc_config
  cf_db :: db_config
  cf_indexer_urls :: indexer_urls_config
  cf_signer :: "'key signer_config"
  cf_iisa :: iisa_config
  cf_indexer_client :: indexer_client_config
  cf_reassignment :: "reassignment_config option"
  cf_expiration :: "expiration_section option"
  cf_chain_listener :: "chain_listener_config option"
  cf_liveness_checker :: "liveness_section option"
  cf_dips_info_watcher :: "dips_info_watcher_config option"
  cf_escrow_reconciler :: "escrow_reconciler_config option"
  cf_additional_networks :: "(chain_id \<times> string) list"
  cf_chain_client :: "chain_client_config option"
  cf_event_streaming_config :: "event_streaming_config option"
  cf_worker_concurrency :: u64
  cf_health :: health_config
  cf_alerts :: alerts_config

definition default_worker_concurrency :: u64 where "default_worker_concurrency = 8"

definition config_keys :: "string list" where
  "config_keys = [''dips'', ''admin_rpc'', ''db'', ''indexer_urls'', ''signer'', ''iisa'', ''indexer_client'', ''reassignment'',
     ''expiration'', ''chain_listener'', ''liveness_checker'', ''dips_info_watcher'', ''escrow_reconciler'', ''additional_networks'',
     ''chain_client'', ''event_streaming_config'', ''worker_concurrency'', ''health'', ''alerts'']"

definition config_fields :: "'key parsers \<Rightarrow> (string \<times> json) list \<Rightarrow> 'key config option" where
  "config_fields ps kvs = do {
     dips \<leftarrow> required kvs ''dips'' (dec_dips ps);
     admin_rpc \<leftarrow> required kvs ''admin_rpc'' (dec_admin_rpc ps);
     db \<leftarrow> required kvs ''db'' (dec_db ps);
     indexer_urls \<leftarrow> required kvs ''indexer_urls'' (dec_indexer_urls ps);
     signer \<leftarrow> required kvs ''signer'' (dec_signer ps);
     iisa \<leftarrow> required kvs ''iisa'' (dec_iisa ps);
     indexer_client \<leftarrow> field_or kvs ''indexer_client'' default_indexer_client dec_indexer_client;
     reassignment \<leftarrow> field_or kvs ''reassignment'' None (dec_option dec_reassignment);
     expiration \<leftarrow> field_or kvs ''expiration'' None (dec_option dec_expiration);
     chain_listener \<leftarrow> field_or kvs ''chain_listener'' None (dec_option (dec_chain_listener ps));
     liveness_checker \<leftarrow> field_or kvs ''liveness_checker'' None (dec_option dec_liveness);
     dips_info_watcher \<leftarrow> field_or kvs ''dips_info_watcher'' None (dec_option dec_dips_info_watcher);
     escrow_reconciler \<leftarrow> field_or kvs ''escrow_reconciler'' None (dec_option dec_escrow_reconciler);
     additional_networks \<leftarrow> field_or kvs ''additional_networks'' [] (dec_map (p_chain_id ps) dec_str);
     chain_client \<leftarrow> field_or kvs ''chain_client'' None (dec_option (dec_chain_client ps));
     event_streaming \<leftarrow> field_or kvs ''event_streaming_config'' None (dec_option dec_event_streaming);
     worker_concurrency \<leftarrow> field_or kvs ''worker_concurrency'' default_worker_concurrency dec_uint;
     health \<leftarrow> field_or kvs ''health'' default_health (dec_health ps);
     alerts \<leftarrow> field_or kvs ''alerts'' default_alerts (dec_alerts ps);
     Some \<lparr>cf_dips = dips, cf_admin_rpc = admin_rpc, cf_db = db, cf_indexer_urls = indexer_urls, cf_signer = signer,
       cf_iisa = iisa, cf_indexer_client = indexer_client, cf_reassignment = reassignment, cf_expiration = expiration,
       cf_chain_listener = chain_listener, cf_liveness_checker = liveness_checker, cf_dips_info_watcher = dips_info_watcher,
       cf_escrow_reconciler = escrow_reconciler, cf_additional_networks = additional_networks, cf_chain_client = chain_client,
       cf_event_streaming_config = event_streaming, cf_worker_concurrency = worker_concurrency, cf_health = health,
       cf_alerts = alerts\<rparr> }"

definition dec_config :: "'key parsers \<Rightarrow> 'key config decoder" where
  "dec_config ps = in_section config_keys (config_fields ps)"

datatype load_error = LoadIo | LoadDeserialize

definition load_from_file :: "'key parsers \<Rightarrow> (string \<Rightarrow> json option) \<Rightarrow> string option \<Rightarrow> load_error + 'key config" where
  "load_from_file ps parse_json content = (case content of
       None \<Rightarrow> Inl LoadIo
     | Some s \<Rightarrow> (case Option.bind (parse_json s) (dec_config ps) of None \<Rightarrow> Inl LoadDeserialize | Some c \<Rightarrow> Inr c))"

section \<open>Starting up\<close>

record indexing_agreement_config =
  ag_data_service :: address
  ag_collector :: address
  ag_manager :: address
  ag_max_agreement_grt_per_30_days :: f64
  ag_max_seconds_per_collection :: u32
  ag_min_seconds_per_collection :: u32
  ag_duration_seconds :: u64
  ag_deadline_seconds :: u64
  ag_max_grt_per_30_days :: "(string \<times> f64) list"
  ag_fallback_max_grt_per_30_days :: f64
  ag_max_grt_per_billion_entities_per_30_days :: f64
  ag_declined_indexer_lookback_days :: int
  ag_price_rejection_lookback_days :: int
  ag_transient_rejection_lookback_minutes :: int
  ag_uncertain_rejection_lookback_days :: int
  ag_unresponsive_indexer_lookback_days :: int
  ag_mass_unresponsive_trip_fraction :: f64
  ag_mass_unresponsive_reset_fraction :: f64
  ag_dips_accepting_snapshot_max_age_hours :: int
  ag_dips_accepting_cache_ttl_seconds :: u64
  ag_max_in_flight_offers_per_indexer :: "u32 option"
  ag_max_in_flight_offers_total :: "u32 option"

definition max_grt_per_30_days_for :: "indexing_agreement_config \<Rightarrow> string \<Rightarrow> f64" where
  "max_grt_per_30_days_for c chain = (case map_of (ag_max_grt_per_30_days c) chain of
       None \<Rightarrow> ag_fallback_max_grt_per_30_days c
     | Some cap \<Rightarrow> cap)"

definition agreement_conf_of :: "dips_agreement_config \<Rightarrow> indexing_agreement_config \<times> (chain_id \<times> chain_prices) list" where
  "agreement_conf_of d =
     (\<lparr>ag_data_service = da_data_service d, ag_collector = da_recurring_collector d, ag_manager = da_recurring_agreement_manager d,
       ag_max_agreement_grt_per_30_days = da_max_agreement_grt_per_30_days d,
       ag_max_seconds_per_collection = da_max_seconds_per_collection d,
       ag_min_seconds_per_collection = da_min_seconds_per_collection d,
       ag_duration_seconds = (case da_duration_seconds d of None \<Rightarrow> - 1 | Some n \<Rightarrow> n),
       ag_deadline_seconds = da_deadline_seconds d, ag_max_grt_per_30_days = da_max_grt_per_30_days d,
       ag_fallback_max_grt_per_30_days = da_fallback_max_grt_per_30_days d,
       ag_max_grt_per_billion_entities_per_30_days = da_max_grt_per_billion_entities_per_30_days d,
       ag_declined_indexer_lookback_days = da_declined_indexer_lookback_days d,
       ag_price_rejection_lookback_days = da_price_rejection_lookback_days d,
       ag_transient_rejection_lookback_minutes = da_transient_rejection_lookback_minutes d,
       ag_uncertain_rejection_lookback_days = da_uncertain_rejection_lookback_days d,
       ag_unresponsive_indexer_lookback_days = da_unresponsive_indexer_lookback_days d,
       ag_mass_unresponsive_trip_fraction = da_mass_unresponsive_trip_fraction d,
       ag_mass_unresponsive_reset_fraction = da_mass_unresponsive_reset_fraction d,
       ag_dips_accepting_snapshot_max_age_hours = da_dips_accepting_snapshot_max_age_hours d,
       ag_dips_accepting_cache_ttl_seconds = da_dips_accepting_cache_ttl_seconds d,
       ag_max_in_flight_offers_per_indexer = da_max_in_flight_offers_per_indexer d,
       ag_max_in_flight_offers_total = da_max_in_flight_offers_total d\<rparr>,
      da_pricing_table d)"

datatype startup_error =
    InvalidDips config_fault
  | InvalidEventStreaming config_fault
  | InvalidHealth config_fault
  | InvalidLiveness config_fault
  | InvalidWatcher config_fault
  | ChainClientDisabled
  | NoWorkers
  | TooFewConnections u64 u64

definition DEFAULT_MAX_CONNECTIONS :: u32 where "DEFAULT_MAX_CONNECTIONS = 32"
definition CONNECTIONS_PER_LOOP :: u64 where "CONNECTIONS_PER_LOOP = 3"
definition SHARED_SERVICES_HEADROOM :: u64 where "SHARED_SERVICES_HEADROOM = 2"

definition fails_with :: "('e \<Rightarrow> 'f) \<Rightarrow> 'e + unit \<Rightarrow> 'f + 'a \<Rightarrow> 'f + 'a" where
  "fails_with wrap checked rest = (case checked of Inl e \<Rightarrow> Inl (wrap e) | Inr _ \<Rightarrow> rest)"

definition if_present :: "('c \<Rightarrow> 'e + unit) \<Rightarrow> 'c option \<Rightarrow> 'e + unit" where
  "if_present validate c = (case c of None \<Rightarrow> Inr () | Some x \<Rightarrow> validate x)"

text \<open>The connections the worker loops and the services need.\<close>

definition check_workers :: "u64 \<Rightarrow> u32 option \<Rightarrow> startup_error + unit" where
  "check_workers worker_concurrency configured =
     (if worker_concurrency = 0 then Inl NoWorkers
      else let max_conns = ucast (case configured of None \<Rightarrow> DEFAULT_MAX_CONNECTIONS | Some n \<Rightarrow> n) :: u64;
               required_conns = saturating_add (saturating_mul worker_concurrency CONNECTIONS_PER_LOOP) SHARED_SERVICES_HEADROOM
           in if required_conns > max_conns then Inl (TooFewConnections required_conns max_conns) else Inr ())"

definition start_up :: "'key config \<Rightarrow>
    startup_error + indexing_agreement_config \<times> (chain_id \<times> chain_prices) list \<times> chain_client_config" where
  "start_up conf =
     fails_with InvalidDips (validate_dips (cf_dips conf))
    (fails_with InvalidEventStreaming (if_present validate_event_streaming (cf_event_streaming_config conf))
    (fails_with InvalidHealth (validate_health (cf_health conf) (ad_listen_addr (cf_admin_rpc conf)))
    (fails_with InvalidLiveness (if_present validate_liveness (cf_liveness_checker conf))
    (fails_with InvalidWatcher (if_present validate_dips_info_watcher (cf_dips_info_watcher conf))
    (let (agreement_conf, pricing_table) = agreement_conf_of (cf_dips conf) in
     case cf_chain_client conf of
       None \<Rightarrow> Inl ChainClientDisabled
     | Some cfg \<Rightarrow>
         if \<not> cn_enabled cfg then Inl ChainClientDisabled
         else fails_with id (check_workers (cf_worker_concurrency conf) (db_max_connections (cf_db conf)))
           (Inr (agreement_conf, pricing_table, cfg)))))))"

end
