(* ===== verification/Startup.thy ===== *)
theory Startup
  imports Service_Config
begin

text \<open>
  What the reader of \<open>config.rs\<close> and the checks at the start of \<open>main.rs\<close> are for: whatever the file
  holds, the configuration the services run with is well-typed in the sense the rest of the program
  relies on.
\<close>

section \<open>Reading fields\<close>

definition double :: "f64 \<Rightarrow> bool" where
  "double x \<longleftrightarrow> x \<notin> {PosInf, NegInf, NaN}"

lemma doubleE: "double x \<Longrightarrow> (\<And>q. x = Fin q \<Longrightarrow> P) \<Longrightarrow> P"
  by (cases x) (simp_all add: double_def)

lemma double_Fin [simp]: "double (Fin q)"
  by (simp add: double_def)

lemma dec_f64_double: "dec_f64 j = Some x \<Longrightarrow> double x"
  by (cases j) (auto simp: finite_double_def double_def split: f64.splits)

lemma field_orE:
  "\<lbrakk>field_or kvs k d dec = Some x; P d; \<And>j y. dec j = Some y \<Longrightarrow> P y\<rbrakk> \<Longrightarrow> P x"
  by (auto simp: field_or_def split: option.splits)

lemma field_or_double: "\<lbrakk>field_or kvs k d dec_f64 = Some x; double d\<rbrakk> \<Longrightarrow> double x"
  by (erule field_orE) (auto dest: dec_f64_double)

lemma in_section_SomeD: "in_section keys read_fields j = Some c \<Longrightarrow> \<exists>kvs. read_fields kvs = Some c"
  by (cases j) (auto split: if_splits)

lemma required_SomeD: "required kvs k dec = Some x \<Longrightarrow> \<exists>j. dec j = Some x"
  by (auto simp: required_def bind_eq_Some_conv)

lemma dec_option_Some: "dec_option dec j = Some (Some x) \<Longrightarrow> dec j = Some x"
  by (cases j) auto

lemma field_or_optionD: "field_or kvs k None (dec_option dec) = Some (Some x) \<Longrightarrow> \<exists>j. dec j = Some x"
  by (auto simp: field_or_def split: option.splits dest: dec_option_Some)

lemma bind_SomeE: "\<lbrakk>Option.bind m f = Some c; \<And>x. m = Some x \<Longrightarrow> f x = Some c \<Longrightarrow> P\<rbrakk> \<Longrightarrow> P"
  by (cases m) auto

lemma f64_round_double:
  assumes "\<bar>q\<bar> \<le> pow2 1023"
  shows "double (f64_round q)"
proof (cases "q = 0")
  case False
  have "f64_le (f64_round \<bar>q\<bar>) (f64_round (pow2 1023))" by (rule f64_round_mono [OF abs_ge_zero assms])
  then have "f64_le (f64_round \<bar>q\<bar>) (Fin (pow2 1023))" by (simp add: f64_round_pow2)
  with False show ?thesis by (auto simp: f64_round_def Let_def double_def split: if_splits)
qed (use f64_of_nat_exact [of 0] in \<open>simp add: f64_of_nat_def\<close>)

section \<open>Sections\<close>

lemma default_multiplier_double: "double default_gas_price_multiplier"
  unfolding default_gas_price_multiplier_def
  by (rule f64_round_double) (use pow2_mono [of 1 1023] in \<open>simp add: pow2_def\<close>)

lemma dec_dips_doubles:
  assumes "dec_dips ps j = Some c"
  shows "double (da_mass_unresponsive_trip_fraction c)" "double (da_mass_unresponsive_reset_fraction c)"
proof -
  obtain kvs where kvs: "dips_fields ps kvs = Some c" using in_section_SomeD [OF assms [unfolded dec_dips_def]] ..
  then have "field_or kvs ''mass_unresponsive_trip_fraction'' default_mass_unresponsive_trip_fraction dec_f64 =
      Some (da_mass_unresponsive_trip_fraction c)"
    unfolding dips_fields_def
    by (elim bind_SomeE) (simp only: option.inject, hypsubst, simp only: dips_agreement_config.select_convs)
  then show "double (da_mass_unresponsive_trip_fraction c)"
    by (rule field_or_double) (simp add: default_mass_unresponsive_trip_fraction_def)
  from kvs have "field_or kvs ''mass_unresponsive_reset_fraction'' default_mass_unresponsive_reset_fraction dec_f64 =
      Some (da_mass_unresponsive_reset_fraction c)"
    unfolding dips_fields_def
    by (elim bind_SomeE) (simp only: option.inject, hypsubst, simp only: dips_agreement_config.select_convs)
  then show "double (da_mass_unresponsive_reset_fraction c)"
    by (rule field_or_double) (simp add: default_mass_unresponsive_reset_fraction_def)
qed

lemma default_buffer_double: "double default_gas_buffer_multiplier"
  by (simp add: default_gas_buffer_multiplier_def)

lemma dec_chain_client_doubles:
  assumes "dec_chain_client ps j = Some c"
  shows "double (cn_gas_price_multiplier c)" "double (cn_gas_buffer_multiplier c)"
proof -
  obtain kvs where "field_or kvs ''gas_price_multiplier'' default_gas_price_multiplier dec_f64 = Some (cn_gas_price_multiplier c)"
    "field_or kvs ''gas_buffer_multiplier'' default_gas_buffer_multiplier dec_f64 = Some (cn_gas_buffer_multiplier c)"
    using in_section_SomeD [OF assms [unfolded dec_chain_client_def]]
    by (elim exE bind_SomeE) (simp only: option.inject, hypsubst, simp only: chain_client_config.select_convs)
  then show "double (cn_gas_price_multiplier c)" "double (cn_gas_buffer_multiplier c)"
    by (blast intro: field_or_double default_multiplier_double default_buffer_double)+
qed

lemma deserialize_utc_hour_bound: "deserialize_utc_hour j = Some h \<Longrightarrow> h \<le> 23"
  by (auto simp: deserialize_utc_hour_def bind_eq_Some_conv not_less split: if_splits)

lemma dec_reassignment_hour:
  assumes "dec_reassignment j = Some c"
  shows "ra_run_at_utc_hour c \<le> 23"
proof -
  obtain kvs where "field_or kvs ''run_at_utc_hour'' default_reassignment_run_at_utc_hour deserialize_utc_hour = Some (ra_run_at_utc_hour c)"
    using in_section_SomeD [OF assms [unfolded dec_reassignment_def]]
    by (elim exE bind_SomeE) (simp only: option.inject, hypsubst, simp only: reassignment_config.select_convs)
  then show ?thesis
    by (rule field_orE) (simp_all add: default_reassignment_run_at_utc_hour_def deserialize_utc_hour_bound)
qed

lemma dec_event_streaming_capacity:
  assumes "dec_event_streaming j = Some c"
  shows "ev_event_queue_capacity c \<noteq> 0"
proof -
  obtain kvs where "field_or kvs ''event_queue_capacity'' default_event_queue_capacity dec_nonzero = Some (ev_event_queue_capacity c)"
    using in_section_SomeD [OF assms [unfolded dec_event_streaming_def]]
    by (elim exE bind_SomeE) (simp only: option.inject, hypsubst, simp only: event_streaming_config.select_convs)
  then show ?thesis
    by (rule field_orE) (auto simp: default_event_queue_capacity_def dec_nonzero_def bind_eq_Some_conv split: if_splits)
qed

lemma config_sections:
  assumes "dec_config ps j = Some c"
  shows "\<exists>j. dec_dips ps j = Some (cf_dips c)"
    and "cf_reassignment c = Some r \<Longrightarrow> \<exists>j. dec_reassignment j = Some r"
    and "cf_chain_client c = Some n \<Longrightarrow> \<exists>j. dec_chain_client ps j = Some n"
    and "cf_event_streaming_config c = Some e \<Longrightarrow> \<exists>j. dec_event_streaming j = Some e"
proof -
  obtain kvs where kvs: "config_fields ps kvs = Some c" using in_section_SomeD [OF assms [unfolded dec_config_def]] ..
  then have "required kvs ''dips'' (dec_dips ps) = Some (cf_dips c)"
    "field_or kvs ''reassignment'' None (dec_option dec_reassignment) = Some (cf_reassignment c)"
    "field_or kvs ''chain_client'' None (dec_option (dec_chain_client ps)) = Some (cf_chain_client c)"
    "field_or kvs ''event_streaming_config'' None (dec_option dec_event_streaming) = Some (cf_event_streaming_config c)"
    unfolding config_fields_def
    by (elim bind_SomeE, simp only: option.inject, hypsubst, simp only: config.select_convs)+
  then show "\<exists>j. dec_dips ps j = Some (cf_dips c)"
    "cf_reassignment c = Some r \<Longrightarrow> \<exists>j. dec_reassignment j = Some r"
    "cf_chain_client c = Some n \<Longrightarrow> \<exists>j. dec_chain_client ps j = Some n"
    "cf_event_streaming_config c = Some e \<Longrightarrow> \<exists>j. dec_event_streaming j = Some e"
    by (auto dest: required_SomeD field_or_optionD)
qed

section \<open>Checks\<close>

lemma fails_with_Inr [simp]: "fails_with wrap checked rest = Inr x \<longleftrightarrow> checked = Inr () \<and> rest = Inr x"
  by (cases checked) (auto simp: fails_with_def)

lemma if_present_Inr [simp]: "if_present validate c = Inr () \<longleftrightarrow> (\<forall>x. c = Some x \<longrightarrow> validate x = Inr ())"
  by (cases c) (simp_all add: if_present_def)

lemma positiveE: "positive x \<Longrightarrow> (\<And>q. x = Fin q \<Longrightarrow> 0 < q \<Longrightarrow> P) \<Longrightarrow> P"
  by (cases x) (auto simp: positive_def f64_less_def)

lemma good_fraction: "\<not> bad_fraction x \<longleftrightarrow> (\<exists>q. x = Fin q \<and> 0 < q \<and> q \<le> 1)"
  by (cases x) (auto simp: bad_fraction_def f64_less_def)

lemma max_grt_positive:
  assumes "find (\<lambda>(_, cap). \<not> positive cap) (ag_max_grt_per_30_days c) = None" "positive (ag_fallback_max_grt_per_30_days c)"
  shows "positive (max_grt_per_30_days_for c chain)"
proof (cases "map_of (ag_max_grt_per_30_days c) chain")
  case (Some cap)
  from map_of_SomeD [OF this] assms(1) have "positive cap" unfolding find_None_iff by blast
  with Some show ?thesis by (simp add: max_grt_per_30_days_for_def)
qed (use assms(2) in \<open>simp add: max_grt_per_30_days_for_def\<close>)

lemma word_gap:
  fixes x y z :: u64
  assumes "x < y" "z \<le> y - x"
  shows "uint x + uint z \<le> uint y"
proof -
  have "uint (y - x) = uint y - uint x" using uint_sub_lem [of x y] assms(1) by (simp add: word_less_def)
  with assms(2) show ?thesis by (simp add: word_le_def)
qed

lemma validate_collection_window:
  assumes "validate_collection c = Inr ()"
  shows "uint (da_min_seconds_per_collection c) + 600 \<le> uint (da_max_seconds_per_collection c)"
    and "da_duration_seconds c = Some d \<Longrightarrow>
      uint (da_deadline_seconds c) + uint (da_min_seconds_per_collection c) + 600 \<le> uint d"
proof -
  define least :: u64 where "least = ucast (da_min_seconds_per_collection c)"
  define most :: u64 where "most = ucast (da_max_seconds_per_collection c)"
  have u: "uint least = uint (da_min_seconds_per_collection c)" "uint most = uint (da_max_seconds_per_collection c)"
    by (simp_all add: least_def most_def uint_up_ucast is_up)
  have small: "uint least < 2 ^ 32" using uint_bounded [of "da_min_seconds_per_collection c"] unfolding u by simp
  have m: "uint MIN_SECONDS_COLLECTION_WINDOW = 600" by (simp add: MIN_SECONDS_COLLECTION_WINDOW_def)
  have w: "least < most \<and> MIN_SECONDS_COLLECTION_WINDOW \<le> most - least"
    and d: "validate_duration least (da_deadline_seconds c) (da_duration_seconds c) = Inr ()"
    using assms unfolding validate_collection_def Let_def least_def [symmetric] most_def [symmetric]
    by (simp_all only: not_le not_less de_Morgan_disj split: if_splits) auto
  from w word_gap [of least most MIN_SECONDS_COLLECTION_WINDOW]
  show "uint (da_min_seconds_per_collection c) + 600 \<le> uint (da_max_seconds_per_collection c)" unfolding u m by blast
  assume "da_duration_seconds c = Some d"
  with d have "da_deadline_seconds c < d" "least + MIN_SECONDS_COLLECTION_WINDOW \<le> d - da_deadline_seconds c"
    unfolding validate_duration_def by (simp_all split: if_splits)
  from word_gap [OF this] have "uint (da_deadline_seconds c) + uint (least + MIN_SECONDS_COLLECTION_WINDOW) \<le> uint d" .
  moreover have "uint (least + MIN_SECONDS_COLLECTION_WINDOW) = uint least + 600"
    using uint_add_lem [of least MIN_SECONDS_COLLECTION_WINDOW] small unfolding m by simp
  ultimately show "uint (da_deadline_seconds c) + uint (da_min_seconds_per_collection c) + 600 \<le> uint d"
    unfolding u by linarith
qed

lemma validate_dips_Inr:
  assumes "validate_dips c = Inr ()"
  shows "da_recurring_agreement_manager c \<noteq> 0" "positive (da_max_agreement_grt_per_30_days c)"
    "positive (da_max_grt_per_billion_entities_per_30_days c)" "find (\<lambda>(_, cap). \<not> positive cap) (da_max_grt_per_30_days c) = None"
    "positive (da_fallback_max_grt_per_30_days c)"
    "\<not> f64_le (da_mass_unresponsive_trip_fraction c) (da_mass_unresponsive_reset_fraction c)" "validate_collection c = Inr ()"
  using assms unfolding validate_dips_def by (simp_all split: if_splits option.splits prod.splits)

lemma hours_no_wrap: "unat (ucast (h :: u32) * 3600 :: u64) = unat h * 3600"
proof -
  have "unat h < 2 ^ 32" using unsigned_less [of h, where 'a = nat] by simp
  moreover from this have "unat (ucast h :: u64) = unat h" by (simp add: unsigned_ucast_eq take_bit_nat_eq_self)
  ultimately show ?thesis by (subst unat_word_ariths) simp
qed

lemma watcher_durations:
  assumes "validate_dips_info_watcher w = Inr ()" "dw_enabled w"
  shows "0 < alert_after w" "alert_after w < denylist_after w"
  using assms
  by (auto simp: validate_dips_info_watcher_def alert_after_def denylist_after_def hours_no_wrap from_secs_def
      unat_gt_0 word_less_nat_alt not_le split: if_splits)

lemma uint_saturating_mul:
  fixes x :: "'a::len word"
  shows "uint (saturating_mul x y) = min (2 ^ LENGTH('a) - 1) (uint x * uint y)"
  by (auto simp: saturating_mul_def uint_word_ariths zmod_minus1)

lemma check_workers_room:
  assumes "check_workers w configured = Inr ()"
  shows "0 < uint w" "3 * uint w + 2 \<le> uint (case configured of None \<Rightarrow> DEFAULT_MAX_CONNECTIONS | Some n \<Rightarrow> n)"
proof -
  let ?m = "case configured of None \<Rightarrow> DEFAULT_MAX_CONNECTIONS | Some n \<Rightarrow> n"
  have "w \<noteq> 0" and "saturating_add (saturating_mul w CONNECTIONS_PER_LOOP) SHARED_SERVICES_HEADROOM \<le> (ucast ?m :: u64)"
    using assms by (auto simp: check_workers_def Let_def not_less split: if_splits)
  then have "min (2 ^ 64 - 1) (min (2 ^ 64 - 1) (uint w * 3) + 2) \<le> uint ?m"
    by (simp add: word_le_def uint_saturating_add uint_saturating_mul CONNECTIONS_PER_LOOP_def SHARED_SERVICES_HEADROOM_def
        uint_up_ucast is_up)
  moreover have "uint ?m < 2 ^ 32" using uint_bounded [of ?m] by simp
  ultimately show "3 * uint w + 2 \<le> uint ?m" by (auto simp: min_def split: if_splits)
  from \<open>w \<noteq> 0\<close> show "0 < uint w" using uint_ge_0 [of w] by (metis less_le uint_0_iff)
qed

text \<open>
  C37: the configuration dipper runs with is well-typed, whatever the file says. If it loads and the
  checks at start-up let it through, then there is a manager to call; every payment ceiling, that of
  any chain included, is a positive finite number; the breaker resets below where it trips; a
  collection fits between the shortest and the longest time between two, and one fits after the
  deadline unless the agreement has no end; the gas multipliers are finite; the hour of the
  reassignment is one of the day; events have a queue and, if they are sent, a broker; a breaker that
  is on trips at a share above 0 and at most 1; an alert comes before the block; and the worker loops
  leave two of the database connections to the others.
\<close>

theorem started_config_is_well_typed:
  assumes loaded: "load_from_file ps parse_json content = Inr conf" and started: "start_up conf = Inr (ac, prices, cfg)"
  shows "ag_manager ac \<noteq> 0 \<and>
    (\<exists>q. ag_max_agreement_grt_per_30_days ac = Fin q \<and> 0 < q) \<and>
    (\<exists>q. ag_max_grt_per_billion_entities_per_30_days ac = Fin q \<and> 0 < q) \<and>
    (\<forall>chain. \<exists>q. max_grt_per_30_days_for ac chain = Fin q \<and> 0 < q) \<and>
    (\<exists>r t. ag_mass_unresponsive_reset_fraction ac = Fin r \<and> ag_mass_unresponsive_trip_fraction ac = Fin t \<and> r < t) \<and>
    uint (ag_min_seconds_per_collection ac) + 600 \<le> uint (ag_max_seconds_per_collection ac) \<and>
    (ag_duration_seconds ac = - 1 \<or>
     uint (ag_deadline_seconds ac) + uint (ag_min_seconds_per_collection ac) + 600 \<le> uint (ag_duration_seconds ac)) \<and>
    (\<exists>p b. cn_gas_price_multiplier cfg = Fin p \<and> cn_gas_buffer_multiplier cfg = Fin b) \<and>
    (\<forall>r. cf_reassignment conf = Some r \<longrightarrow> ra_run_at_utc_hour r \<le> 23) \<and>
    (\<forall>e. cf_event_streaming_config conf = Some e \<longrightarrow> ev_event_queue_capacity e \<noteq> 0 \<and> (ev_enabled e \<longrightarrow> ev_kafka e \<noteq> None)) \<and>
    (\<forall>l. cf_liveness_checker conf = Some l \<and> ls_enabled l \<longrightarrow> (\<exists>q. ls_unreachable_trip_fraction l = Fin q \<and> 0 < q \<and> q \<le> 1)) \<and>
    (\<forall>w. cf_dips_info_watcher conf = Some w \<and> dw_enabled w \<longrightarrow> 0 < alert_after w \<and> alert_after w < denylist_after w) \<and>
    0 < uint (cf_worker_concurrency conf) \<and>
    3 * uint (cf_worker_concurrency conf) + 2 \<le>
      uint (case db_max_connections (cf_db conf) of None \<Rightarrow> DEFAULT_MAX_CONNECTIONS | Some n \<Rightarrow> n)"
proof -
  let ?d = "cf_dips conf"
  obtain j where j: "dec_config ps j = Some conf"
    using loaded by (auto simp: load_from_file_def bind_eq_Some_conv split: option.splits)
  from started have v: "validate_dips ?d = Inr ()" and ac: "ac = fst (agreement_conf_of ?d)"
    and e: "\<And>x. cf_event_streaming_config conf = Some x \<Longrightarrow> validate_event_streaming x = Inr ()"
    and l: "\<And>x. cf_liveness_checker conf = Some x \<Longrightarrow> validate_liveness x = Inr ()"
    and w: "\<And>x. cf_dips_info_watcher conf = Some x \<Longrightarrow> validate_dips_info_watcher x = Inr ()"
    and cfg: "cf_chain_client conf = Some cfg"
    and workers: "check_workers (cf_worker_concurrency conf) (db_max_connections (cf_db conf)) = Inr ()"
    by (auto simp: start_up_def Let_def split: prod.splits option.splits if_splits)
  note d = validate_dips_Inr [OF v]
  have fields: "ag_manager ac = da_recurring_agreement_manager ?d"
    "ag_max_agreement_grt_per_30_days ac = da_max_agreement_grt_per_30_days ?d"
    "ag_max_grt_per_billion_entities_per_30_days ac = da_max_grt_per_billion_entities_per_30_days ?d"
    "ag_max_grt_per_30_days ac = da_max_grt_per_30_days ?d" "ag_fallback_max_grt_per_30_days ac = da_fallback_max_grt_per_30_days ?d"
    "ag_mass_unresponsive_reset_fraction ac = da_mass_unresponsive_reset_fraction ?d"
    "ag_mass_unresponsive_trip_fraction ac = da_mass_unresponsive_trip_fraction ?d"
    "ag_min_seconds_per_collection ac = da_min_seconds_per_collection ?d"
    "ag_max_seconds_per_collection ac = da_max_seconds_per_collection ?d" "ag_deadline_seconds ac = da_deadline_seconds ?d"
    "ag_duration_seconds ac = (case da_duration_seconds ?d of None \<Rightarrow> - 1 | Some n \<Rightarrow> n)"
    by (simp_all add: ac agreement_conf_of_def)
  have "\<forall>chain. \<exists>q. max_grt_per_30_days_for ac chain = Fin q \<and> 0 < q"
    using max_grt_positive [of ac] d(4,5) unfolding fields by (metis positiveE)
  moreover have "\<exists>r t. ag_mass_unresponsive_reset_fraction ac = Fin r \<and> ag_mass_unresponsive_trip_fraction ac = Fin t \<and> r < t"
  proof -
    from config_sections(1) [OF j] obtain jd where "dec_dips ps jd = Some ?d" ..
    from dec_dips_doubles [OF this] obtain r t where
      "da_mass_unresponsive_reset_fraction ?d = Fin r" "da_mass_unresponsive_trip_fraction ?d = Fin t" by (metis doubleE)
    with d(6) show ?thesis unfolding fields by simp
  qed
  moreover have "ag_duration_seconds ac = - 1 \<or>
      uint (ag_deadline_seconds ac) + uint (ag_min_seconds_per_collection ac) + 600 \<le> uint (ag_duration_seconds ac)"
    using validate_collection_window(2) [OF d(7)] unfolding fields by (cases "da_duration_seconds ?d") simp_all
  moreover have "\<exists>p b. cn_gas_price_multiplier cfg = Fin p \<and> cn_gas_buffer_multiplier cfg = Fin b"
    using config_sections(3) [OF j cfg] by (blast dest: dec_chain_client_doubles elim: doubleE)
  moreover have "\<forall>r. cf_reassignment conf = Some r \<longrightarrow> ra_run_at_utc_hour r \<le> 23"
    using config_sections(2) [OF j] dec_reassignment_hour by blast
  moreover have "\<forall>e. cf_event_streaming_config conf = Some e \<longrightarrow> ev_event_queue_capacity e \<noteq> 0 \<and> (ev_enabled e \<longrightarrow> ev_kafka e \<noteq> None)"
    using config_sections(4) [OF j] dec_event_streaming_capacity e by (fastforce simp: validate_event_streaming_def split: if_splits)
  moreover have "\<forall>l. cf_liveness_checker conf = Some l \<and> ls_enabled l \<longrightarrow> (\<exists>q. ls_unreachable_trip_fraction l = Fin q \<and> 0 < q \<and> q \<le> 1)"
    using l by (fastforce simp: validate_liveness_def good_fraction [symmetric] split: if_splits)
  ultimately show ?thesis
    using d(1-3) validate_collection_window(1) [OF d(7)] check_workers_room [OF workers] watcher_durations [OF w]
    unfolding fields by (blast elim: positiveE)
qed

section \<open>A configuration that loads\<close>

definition some_url :: url where
  "some_url = \<lparr>url_text = ''http://a'', url_host = Some ''a'', url_port = None\<rparr>"

definition sample_parsers :: "unit parsers" where
  "sample_parsers = \<lparr>p_url = (\<lambda>_. Some some_url), p_address = (\<lambda>_. Some 7),
     p_socket_addr = (\<lambda>_. Some \<lparr>sa_ip = V4 0, sa_port = 8545\<rparr>), p_secret_key = (\<lambda>_. Some ()), p_u256 = (\<lambda>_. Some 1),
     p_chain_id = (\<lambda>_. Some 42161)\<rparr>"

definition sample_dips_section :: json where
  "sample_dips_section = JObject [(''data_service'', JString ''0x7''), (''recurring_collector'', JString ''0x7''),
        (''recurring_agreement_manager'', JString ''0x7''), (''max_seconds_per_collection'', JInt 3600),
        (''min_seconds_per_collection'', JInt 60), (''duration_seconds'', JInt 86400),
        (''max_grt_per_30_days'', JObject []), (''fallback_max_grt_per_30_days'', JInt 4500)]"

definition sample_file :: json where
  "sample_file = JObject
     [(''dips'', sample_dips_section),
      (''admin_rpc'', JObject [(''listen_addr'', JString ''0.0.0.0:8545''), (''gateway_operator_allowlist'', JArray [])]),
      (''db'', JObject [(''url'', JString ''postgres://db''), (''username'', JString ''u''), (''password'', JString ''p'')]),
      (''indexer_urls'', JObject [(''subgraph_endpoint'', JString ''http://a''), (''update_interval'', JInt 60)]),
      (''signer'', JObject [(''secret_key'', JString ''0x1''), (''chain_id'', JInt 42161)]),
      (''iisa'', JObject [(''endpoint'', JString ''http://a'')]),
      (''chain_client'', JObject [(''enabled'', JBool True), (''providers'', JArray [JString ''http://a''])])]"

lemma sample_ceiling: "finite_double 4500 = Some (Fin 4500)"
  using f64_of_nat_exact [of 4500] by (simp add: finite_double_def f64_of_nat_def)

definition sample_dips :: dips_agreement_config where
  "sample_dips = \<lparr>da_data_service = 7, da_recurring_collector = 7, da_recurring_agreement_manager = 7,
     da_max_agreement_grt_per_30_days = default_max_agreement_grt_per_30_days, da_max_seconds_per_collection = 3600,
     da_min_seconds_per_collection = 60, da_duration_seconds = Some 86400, da_deadline_seconds = default_deadline_seconds,
     da_pricing_table = [], da_max_grt_per_30_days = [], da_fallback_max_grt_per_30_days = Fin 4500,
     da_max_grt_per_billion_entities_per_30_days = default_max_grt_per_billion_entities_per_30_days,
     da_declined_indexer_lookback_days = default_declined_indexer_lookback_days,
     da_price_rejection_lookback_days = default_price_rejection_lookback_days,
     da_transient_rejection_lookback_minutes = default_transient_rejection_lookback_minutes,
     da_uncertain_rejection_lookback_days = default_uncertain_rejection_lookback_days,
     da_unresponsive_indexer_lookback_days = default_unresponsive_indexer_lookback_days,
     da_mass_unresponsive_trip_fraction = default_mass_unresponsive_trip_fraction,
     da_mass_unresponsive_reset_fraction = default_mass_unresponsive_reset_fraction,
     da_dips_accepting_snapshot_max_age_hours = default_dips_accepting_snapshot_max_age_hours,
     da_dips_accepting_cache_ttl_seconds = default_dips_accepting_cache_ttl_seconds,
     da_max_in_flight_offers_per_indexer = default_max_in_flight_offers_per_indexer,
     da_max_in_flight_offers_total = default_max_in_flight_offers_total\<rparr>"

lemma sample_dips_read: "dec_dips sample_parsers sample_dips_section = Some sample_dips"
  unfolding sample_dips_def
  by (simp add: sample_dips_section_def dec_dips_def under_alias_def dips_keys_def dips_fields_def required_def field_or_def dec_text_def
      sample_parsers_def sample_ceiling btree_of_def)

lemma sample_dips_valid: "validate_dips sample_dips = Inr ()"
  by (simp add: sample_dips_def validate_dips_def positive_def f64_less_def default_max_agreement_grt_per_30_days_def
      default_max_grt_per_billion_entities_per_30_days_def default_mass_unresponsive_trip_fraction_def
      default_mass_unresponsive_reset_fraction_def default_max_in_flight_offers_per_indexer_def
      default_max_in_flight_offers_total_def validate_collection_def validate_duration_def default_deadline_seconds_def
      MIN_SECONDS_COLLECTION_WINDOW_def)

lemmas sample_reads = in_section.simps required_def field_or_def dec_text_def sample_parsers_def

lemma sample_config_reads:
  "\<exists>conf. dec_config sample_parsers sample_file = Some conf \<and> cf_dips conf = sample_dips \<and>
     cf_event_streaming_config conf = None \<and> cf_health conf = default_health \<and> sa_port (ad_listen_addr (cf_admin_rpc conf)) = 8545 \<and>
     cf_liveness_checker conf = None \<and> cf_dips_info_watcher conf = None \<and> cf_worker_concurrency conf = default_worker_concurrency \<and>
     db_max_connections (cf_db conf) = None \<and> (\<exists>cfg. cf_chain_client conf = Some cfg \<and> cn_enabled cfg)"
  unfolding sample_file_def dec_config_def config_keys_def config_fields_def
  by (simp add: sample_reads sample_dips_read [unfolded sample_parsers_def] dec_admin_rpc_def dec_db_def dec_indexer_urls_def dec_signer_def dec_iisa_def
      dec_chain_client_def dec_secs_def)

lemma sample_workers: "check_workers default_worker_concurrency None = Inr ()"
  by (simp add: check_workers_def default_worker_concurrency_def DEFAULT_MAX_CONNECTIONS_def CONNECTIONS_PER_LOOP_def
      SHARED_SERVICES_HEADROOM_def saturating_add_def saturating_mul_def)

theorem started_config_is_well_typed_witness:
  "\<exists>conf ac prices cfg.
     load_from_file sample_parsers (\<lambda>_. Some sample_file) (Some ''dipper.json'') = Inr conf \<and>
     start_up conf = Inr (ac, prices, cfg) \<and> ag_manager ac = 7 \<and>
     uint (ag_deadline_seconds ac) + uint (ag_min_seconds_per_collection ac) + 600 \<le> uint (ag_duration_seconds ac) \<and>
     (\<exists>q. max_grt_per_30_days_for ac ''mainnet'' = Fin q \<and> 0 < q)"
proof -
  obtain conf cfg where conf: "dec_config sample_parsers sample_file = Some conf" "cf_dips conf = sample_dips"
    "cf_event_streaming_config conf = None" "cf_health conf = default_health" "sa_port (ad_listen_addr (cf_admin_rpc conf)) = 8545"
    "cf_liveness_checker conf = None" "cf_dips_info_watcher conf = None" "cf_worker_concurrency conf = default_worker_concurrency"
    "db_max_connections (cf_db conf) = None" "cf_chain_client conf = Some cfg" "cn_enabled cfg"
    using sample_config_reads by blast
  let ?ac = "fst (agreement_conf_of sample_dips)"
  have loaded: "load_from_file sample_parsers (\<lambda>_. Some sample_file) (Some ''dipper.json'') = Inr conf"
    by (simp add: load_from_file_def conf(1))
  have health: "validate_health default_health (ad_listen_addr (cf_admin_rpc conf)) = Inr ()"
    by (simp add: validate_health_def default_health_def default_health_listen_addr_def conf(5))
  have started: "start_up conf = Inr (?ac, [], cfg)"
    using conf health sample_dips_valid sample_workers
    by (simp add: start_up_def agreement_conf_of_def sample_dips_def if_present_def fails_with_def split: prod.split)
  have "ag_duration_seconds ?ac \<noteq> - 1" "ag_manager ?ac = 7" by (simp_all add: agreement_conf_of_def sample_dips_def)
  with started_config_is_well_typed [OF loaded started] loaded started show ?thesis by blast
qed

end
