(* ===== verification/Worker.thy ===== *)
theory Worker
  imports Service_World Rpc_Pool
begin

text \<open>
  \<open>worker/result.rs\<close> and \<open>worker/service.rs\<close>: the loops that take jobs off the queue. An iteration waits
  for a reason to look, keeps the subscription to notifications in repair, pops a job, has it
  processed and settles it. What wakes the loop, when, whether a call to the database goes through,
  what the others do to the queue while the job runs and what processing it comes to are the fields of
  an event, one for each iteration. Instants are numbers of nanoseconds.
\<close>

section \<open>Results and delays\<close>

datatype job_error = Retryable duration | Deferred duration | Fatal

type_synonym job_result = "job_error + unit"

text \<open>\<open>Duration::saturating_mul\<close> and \<open>saturating_add\<close>.\<close>

definition saturate :: "nat \<Rightarrow> duration" where
  "saturate d = min DURATION_MAX d"

definition calculate_backoff_delay :: "duration \<Rightarrow> u32 \<Rightarrow> duration" where
  "calculate_backoff_delay base_delay attempt =
     (if attempt < 5 then saturate (base_delay * 2 ^ unat attempt) else from_secs 300)"

definition MAX_RETRIES_PER_WINDOW :: u32 where "MAX_RETRIES_PER_WINDOW = 64"

fun retries_from :: "duration \<Rightarrow> duration \<Rightarrow> duration \<Rightarrow> nat list \<Rightarrow> u32" where
  "retries_from window base_delay elapsed [] = MAX_RETRIES_PER_WINDOW"
| "retries_from window base_delay elapsed (retries # rest) =
     (let next_at = saturate (elapsed + calculate_backoff_delay base_delay (of_nat retries)) in
      if next_at > window then of_nat retries else retries_from window base_delay next_at rest)"

definition retries_within_window :: "duration \<Rightarrow> duration \<Rightarrow> u32" where
  "retries_within_window window base_delay = retries_from window base_delay 0 [0..<unat MAX_RETRIES_PER_WINDOW]"

definition JOB_TIMEOUT_RETRY_BASE_DELAY :: duration where "JOB_TIMEOUT_RETRY_BASE_DELAY = from_secs 30"

text \<open>What a job came to, unless it ran out of its time.\<close>

definition run_job_with_timeout :: "job_result option \<Rightarrow> job_result" where
  "run_job_with_timeout processed = (case processed of
       Some res \<Rightarrow> res
     | None \<Rightarrow> Inl (Retryable JOB_TIMEOUT_RETRY_BASE_DELAY))"

section \<open>The subscription\<close>

definition RESUBSCRIBE_BASE_DELAY :: duration where "RESUBSCRIBE_BASE_DELAY = from_secs 1"
definition RESUBSCRIBE_MAX_DELAY :: duration where "RESUBSCRIBE_MAX_DELAY = from_secs 30"
definition RESUBSCRIBE_STABLE_PERIOD :: duration where "RESUBSCRIBE_STABLE_PERIOD = RESUBSCRIBE_MAX_DELAY"
definition RESUBSCRIBE_MAX_DOUBLINGS :: u32 where "RESUBSCRIBE_MAX_DOUBLINGS = 5"

record resubscribe_backoff =
  rb_failures :: u32
  rb_next_attempt :: "nat option"
  rb_subscribed_at :: "nat option"

definition is_due :: "nat \<Rightarrow> resubscribe_backoff \<Rightarrow> bool" where
  "is_due now b = (case rb_next_attempt b of None \<Rightarrow> True | Some due_at \<Rightarrow> now \<ge> due_at)"

definition resubscribe_delay :: "u32 \<Rightarrow> duration" where
  "resubscribe_delay failed =
     (let doublings = min (saturating_sub failed 1) RESUBSCRIBE_MAX_DOUBLINGS in
      min (RESUBSCRIBE_BASE_DELAY * unat (push_bit (unat doublings) (1 :: u32))) RESUBSCRIBE_MAX_DELAY)"

definition backoff_failure :: "nat \<Rightarrow> resubscribe_backoff \<Rightarrow> resubscribe_backoff" where
  "backoff_failure now b =
     (let was_stable = (case rb_subscribed_at b of None \<Rightarrow> False | Some since \<Rightarrow> now - since \<ge> RESUBSCRIBE_STABLE_PERIOD);
          failed = saturating_add (if was_stable then 0 else rb_failures b) 1
      in \<lparr>rb_failures = failed, rb_next_attempt = Some (now + resubscribe_delay failed), rb_subscribed_at = None\<rparr>)"

definition backoff_success :: "nat \<Rightarrow> resubscribe_backoff \<Rightarrow> resubscribe_backoff" where
  "backoff_success now b = b\<lparr>rb_next_attempt := None, rb_subscribed_at := Some now\<rparr>"

definition should_resubscribe :: "bool \<Rightarrow> bool \<Rightarrow> resubscribe_backoff \<Rightarrow> nat \<Rightarrow> bool" where
  "should_resubscribe listener_present listener_failed_this_tick b now \<longleftrightarrow>
     \<not> listener_present \<and> \<not> listener_failed_this_tick \<and> is_due now b"

definition WARN_COOLDOWN :: duration where "WARN_COOLDOWN = from_secs 60"

record warn_pacer =
  wp_last_warned :: "nat option"
  wp_announced :: bool
  wp_failures_since_warning :: u32
  wp_failures_since_success :: u32

definition pacer_failure :: "nat \<Rightarrow> warn_pacer \<Rightarrow> u32 option \<times> warn_pacer" where
  "pacer_failure now p =
     (let p1 = p\<lparr>wp_failures_since_warning := saturating_add (wp_failures_since_warning p) 1,
            wp_failures_since_success := saturating_add (wp_failures_since_success p) 1\<rparr>;
          due = (case wp_last_warned p1 of None \<Rightarrow> True | Some last_at \<Rightarrow> now - last_at \<ge> WARN_COOLDOWN)
      in if \<not> due then (None, p1)
         else (Some (wp_failures_since_warning p1),
           p1\<lparr>wp_last_warned := Some now, wp_announced := True, wp_failures_since_warning := 0\<rparr>))"

definition take_announced :: "warn_pacer \<Rightarrow> u32 option \<times> warn_pacer" where
  "take_announced p = (if wp_announced p then Some (wp_failures_since_success p) else None,
     p\<lparr>wp_failures_since_success := 0, wp_announced := False\<rparr>)"

record subscription =
  su_listener :: bool
  su_warn_pacer :: warn_pacer
  su_backoff :: resubscribe_backoff

definition subscription_start :: "bool \<Rightarrow> nat \<Rightarrow> nat \<Rightarrow> subscription" where
  "subscription_start subscribed t1 t2 =
     (let pacer = \<lparr>wp_last_warned = None, wp_announced = False, wp_failures_since_warning = 0, wp_failures_since_success = 0\<rparr>;
          backoff = \<lparr>rb_failures = 0, rb_next_attempt = None, rb_subscribed_at = None\<rparr>
      in if subscribed then \<lparr>su_listener = True, su_warn_pacer = pacer, su_backoff = backoff_success t1 backoff\<rparr>
         else \<lparr>su_listener = False, su_warn_pacer = snd (pacer_failure t2 pacer), su_backoff = backoff_failure t1 backoff\<rparr>)"

text \<open>
  What ends a wait: the stop channel changed, with whether the loop is to stop, the listener answered
  or failed, or the poll period is over. Without a listener only the first and the last can happen.
\<close>

datatype wake = StopChanged bool | Woken | ListenerFailed | PollPeriodOver

datatype tick = Stop | Poll bool

record 'd loop_event =
  le_wake :: wake
  le_woke_at :: nat
  le_backoff_at :: nat
  le_checked_at :: nat
  le_subscribes :: bool
  le_subscribed_at :: nat
  le_warned_at :: nat
  le_pop_ok :: bool
  le_popped_at :: timestamp
  le_others :: "'d job_queue \<Rightarrow> 'd job_queue"
  le_processed :: "'d \<Rightarrow> job_result option"
  le_utc :: timestamp
  le_settles :: bool
  le_settled_at :: timestamp

definition await_next_tick :: "'d loop_event \<Rightarrow> subscription \<Rightarrow> tick \<times> subscription" where
  "await_next_tick ev s = (case le_wake ev of
       StopChanged stop \<Rightarrow> (if stop then Stop else Poll False, s)
     | PollPeriodOver \<Rightarrow> (Poll False, s)
     | Woken \<Rightarrow> (Poll False, s)
     | ListenerFailed \<Rightarrow>
         if su_listener s
         then (Poll True, s\<lparr>su_listener := False, su_warn_pacer := snd (pacer_failure (le_woke_at ev) (su_warn_pacer s))\<rparr>)
         else (Poll False, s))"

definition resubscribe :: "'d loop_event \<Rightarrow> subscription \<Rightarrow> subscription" where
  "resubscribe ev s =
     (if le_subscribes ev
      then s\<lparr>su_backoff := backoff_success (le_subscribed_at ev) (su_backoff s),
        su_warn_pacer := snd (take_announced (su_warn_pacer s)), su_listener := True\<rparr>
      else s\<lparr>su_backoff := backoff_failure (le_subscribed_at ev) (su_backoff s),
        su_warn_pacer := snd (pacer_failure (le_warned_at ev) (su_warn_pacer s))\<rparr>)"

text \<open>None once the loop should stop.\<close>

definition next_tick :: "'d loop_event \<Rightarrow> subscription \<Rightarrow> subscription option" where
  "next_tick ev s = (case await_next_tick ev s of
       (Stop, _) \<Rightarrow> None
     | (Poll listener_failed, s1) \<Rightarrow>
         let s2 = (if listener_failed then s1\<lparr>su_backoff := backoff_failure (le_backoff_at ev) (su_backoff s1)\<rparr> else s1)
         in Some (if should_resubscribe (su_listener s2) listener_failed (su_backoff s2) (le_checked_at ev)
                  then resubscribe ev s2 else s2))"

section \<open>The loop\<close>

text \<open>A time later by a duration; timestamps count microseconds.\<close>

definition after :: "timestamp \<Rightarrow> duration \<Rightarrow> timestamp" where
  "after t d = t + int (d div 1000)"

text \<open>
  Settling a job. A call that does not go through, or whose transaction is lost, leaves the guard to be
  dropped.
\<close>

definition settle_job :: "'d loop_event \<Rightarrow> 'd job_inner \<Rightarrow> 'd job_queue \<Rightarrow> 'd job_queue" where
  "settle_job ev job q =
     (if \<not> le_settles ev then guard_drop (ji_id job) q
      else case run_job_with_timeout (le_processed ev (ji_desc job)) of
          Inr _ \<Rightarrow> guard_remove (ji_id job) q
        | Inl (Retryable base_delay) \<Rightarrow>
            guard_mark_as_failed_and_reschedule (le_settled_at ev) (ji_id job)
              (after (le_utc ev) (calculate_backoff_delay base_delay (ji_failed_attempts job))) q
        | Inl (Deferred delay) \<Rightarrow> guard_reschedule (le_settled_at ev) (ji_id job) (after (le_utc ev) delay) q
        | Inl Fatal \<Rightarrow> guard_remove (ji_id job) q)"

definition loop_iteration :: "'d loop_event \<Rightarrow> subscription \<Rightarrow> 'd job_queue \<Rightarrow> (subscription \<times> 'd job_queue) option" where
  "loop_iteration ev s q = (case next_tick ev s of
       None \<Rightarrow> None
     | Some s' \<Rightarrow>
         if \<not> le_pop_ok ev then Some (s', q)
         else case queue_pop (le_popped_at ev) q of
             None \<Rightarrow> Some (s', q)
           | Some (job, q1) \<Rightarrow> Some (s', settle_job ev job (le_others ev q1)))"

fun run_loop :: "'d loop_event list \<Rightarrow> subscription \<Rightarrow> 'd job_queue \<Rightarrow> subscription \<times> 'd job_queue" where
  "run_loop [] s q = (s, q)"
| "run_loop (ev # evs) s q = (case loop_iteration ev s q of
       None \<Rightarrow> (s, q)
     | Some (s', q') \<Rightarrow> run_loop evs s' q')"

section \<open>Retries fill the window\<close>

lemma saturate_le [simp]: "saturate d \<le> d" "saturate d \<le> DURATION_MAX"
  by (simp_all add: saturate_def)

text \<open>The time until retry number \<open>n\<close> is over, counting the delays alone.\<close>

fun waited :: "duration \<Rightarrow> nat \<Rightarrow> duration" where
  "waited base_delay 0 = 0"
| "waited base_delay (Suc n) = saturate (waited base_delay n + calculate_backoff_delay base_delay (of_nat n))"

lemma retries_from_waited:
  assumes "n \<le> 64" "waited base_delay n \<le> window"
  shows "let k = unat (retries_from window base_delay (waited base_delay n) [n..<64]) in
    k \<le> 64 \<and> waited base_delay k \<le> window \<and> (k < 64 \<longrightarrow> window < waited base_delay (Suc k))"
  using assms
proof (induction "64 - n" arbitrary: n)
  case 0
  then show ?case by (simp add: MAX_RETRIES_PER_WINDOW_def)
next
  case (Suc d)
  then have n: "n < 64" by simp
  then have u: "[n..<64] = n # [Suc n..<64]" by (rule upt_conv_Cons)
  have k: "unat (of_nat n :: u32) = n" using n by (simp add: unat_of_nat take_bit_nat_eq_self)
  show ?case
  proof (cases "window < waited base_delay (Suc n)")
    case True
    with Suc.prems n show ?thesis by (simp add: u k Let_def)
  next
    case False
    with Suc.hyps(1) [of "Suc n"] Suc.hyps(2) n show ?thesis by (simp add: u Let_def)
  qed
qed

lemma retries_fill_window:
  fixes window base_delay :: duration
  defines "k \<equiv> unat (retries_within_window window base_delay)"
  shows "k \<le> 64" "waited base_delay k \<le> window" "k < 64 \<Longrightarrow> window < waited base_delay (Suc k)"
  using retries_from_waited [of 0 base_delay window]
  by (simp_all add: k_def retries_within_window_def MAX_RETRIES_PER_WINDOW_def Let_def)

lemma backoff_delay_bounds:
  "calculate_backoff_delay base_delay attempt \<le> max (16 * base_delay) (from_secs 300)"
proof (cases "attempt < 5")
  case True
  then have "unat attempt \<le> 4" by (simp add: word_less_nat_alt)
  then have "(2 :: nat) ^ unat attempt \<le> 2 ^ 4" by (rule power_increasing) simp
  then have "base_delay * 2 ^ unat attempt \<le> 16 * base_delay" by (simp add: mult.commute)
  moreover have "saturate (base_delay * 2 ^ unat attempt) \<le> base_delay * 2 ^ unat attempt" by simp
  ultimately have "saturate (base_delay * 2 ^ unat attempt) \<le> 16 * base_delay" by linarith
  with True show ?thesis by (simp add: calculate_backoff_delay_def)
qed (simp add: calculate_backoff_delay_def)

section \<open>A popped job is settled\<close>

text \<open>What the other workers may do while job \<open>i\<close> is held: any step of the queue that leaves its lock.\<close>

definition others_step :: "int \<Rightarrow> job_id \<Rightarrow> 'd job_queue \<Rightarrow> 'd job_queue \<Rightarrow> bool" where
  "others_step m i q q' \<longleftrightarrow> queue_step m q q' \<and> i \<in> set (locked q')"

lemma others_step_keeps:
  assumes inv: "queue_inv q" and i: "i \<in> set (locked q)" and r: "r \<in> set (jobs q)" "j_id r = i"
    and step: "others_step m i q q'"
  shows "r \<in> set (jobs q')"
proof -
  from step have "queue_step m q q'" "i \<in> set (locked q')" by (simp_all add: others_step_def)
  then show ?thesis
  proof cases
    case (push b now i')
    then show ?thesis
      using r by (auto simp: queue_push_def Let_def job_push_def push_scheduled_def send_job_available_notification_def
          split: option.splits sum.splits if_splits)
  next
    case (pop now g)
    then show ?thesis using r by (auto simp: queue_pop_def split: option.splits)
  next
    case (clear)
    then show ?thesis using i by (simp add: queue_clear_def split: if_splits)
  qed (use r in \<open>auto simp: settle_defs requeue_locked [OF inv] unlock_def guard_remove_def job_remove_def guard_drop_def set_sql_update\<close>)
qed

lemma others_steps_keep:
  assumes "1 \<le> m" "m \<le> i32_max" and "(others_step m i)\<^sup>*\<^sup>* q q'"
    and "queue_inv q" "i \<in> set (locked q)" "r \<in> set (jobs q)" "j_id r = i"
  shows "queue_inv q' \<and> i \<in> set (locked q') \<and> r \<in> set (jobs q')"
  using assms(3)
proof (induction rule: rtranclp_induct)
  case (step y z)
  then have "queue_inv z" "i \<in> set (locked z)"
    using queue_step_inv [OF assms(1,2), of y z] by (simp_all add: others_step_def)
  with others_step_keeps [of y i r m z] step assms(7) show ?case by blast
qed (simp_all add: assms)

lemma after_mono: "d \<le> d' \<Longrightarrow> after t d \<le> after t d'"
  by (simp add: after_def div_le_mono)

lemma after_later: "t \<le> after t d"
  by (simp add: after_def)

lemma iteration_of_job:
  assumes "loop_iteration ev s q = Some (s', q')" and "le_pop_ok ev" and "queue_pop (le_popped_at ev) q = Some (job, q1)"
  shows "q' = settle_job ev job (le_others ev q1)"
  using assms by (auto simp: loop_iteration_def split: option.splits)

lemma pop_row:
  assumes "queue_inv q" and "queue_pop now q = Some (job, q1)"
  obtains r where "r \<in> set (jobs q)" "j_id r = ji_id job" "j_descriptor r = ji_desc job" "eligible now q r"
    "jobs q1 = jobs q" "locked q1 = ji_id job # locked q" "queue_inv q1"
proof -
  from assms(2) obtain r where r: "next_job now q = Some r" "job = \<lparr>ji_id = j_id r, ji_created_at = j_created_at r,
      ji_updated_at = now, ji_desc = j_descriptor r, ji_max_attempts = word_of_int (j_max_attempts r),
      ji_failed_attempts = word_of_int (j_attempt_count r)\<rparr>" "q1 = q\<lparr>locked := j_id r # locked q\<rparr>"
    by (auto simp: queue_pop_def split: option.splits)
  with next_job_Some(1,2) [OF r(1)] pop_inv [OF assms] show thesis by (intro that [of r]) simp_all
qed

text \<open>What settling does to the rows: the others' stay, and this job's is rewritten or gone.\<close>

fun settled_row :: "'d loop_event \<Rightarrow> u32 \<Rightarrow> job_result \<Rightarrow> 'd job_row \<Rightarrow> 'd job_row list" where
  "settled_row ev k (Inr _) r = []"
| "settled_row ev k (Inl Fatal) r = []"
| "settled_row ev k (Inl (Deferred d)) r = [requeued_row (le_settled_at ev) (after (le_utc ev) d) False r]"
| "settled_row ev k (Inl (Retryable b)) r =
     [requeued_row (le_settled_at ev) (after (le_utc ev) (calculate_backoff_delay b k)) True r]"

lemma only_row:
  assumes "distinct (map j_id rows)" "r \<in> set rows"
  shows "filter (\<lambda>x. j_id x = j_id r) rows = [r]"
  using assms
proof (induction rows)
  case (Cons x rows)
  show ?case
  proof (cases "x = r")
    case True
    with Cons.prems have "\<forall>y \<in> set rows. j_id y \<noteq> j_id r" by (auto simp: image_iff)
    with True show ?thesis by (simp add: filter_empty_conv)
  next
    case False
    with Cons have "r \<in> set rows" "j_id x \<noteq> j_id r" by (auto simp: image_iff)
    with Cons show ?thesis by simp
  qed
qed simp

lemma requeue_rows:
  "filter (\<lambda>x. j_id x \<noteq> i) (sql_update (\<lambda>r. j_id r = i) (requeued_row now t c) rows) = filter (\<lambda>x. j_id x \<noteq> i) rows"
  "filter (\<lambda>x. j_id x = i) (sql_update (\<lambda>r. j_id r = i) (requeued_row now t c) rows) =
    map (requeued_row now t c) (filter (\<lambda>x. j_id x = i) rows)"
  by (induction rows) (auto simp: sql_update_def)

lemma settle_rows:
  assumes inv: "queue_inv q" "i \<in> set (locked q)" and r: "r \<in> set (jobs q)" "j_id r = i" and job: "ji_id job = i"
  shows "filter (\<lambda>x. j_id x \<noteq> i) (jobs (settle_job ev job q)) = filter (\<lambda>x. j_id x \<noteq> i) (jobs q)"
    and "filter (\<lambda>x. j_id x = i) (jobs (settle_job ev job q)) =
      (if le_settles ev then settled_row ev (ji_failed_attempts job) (run_job_with_timeout (le_processed ev (ji_desc job))) r else [r])"
    and "queue_inv (settle_job ev job q)" and "i \<notin> set (locked (settle_job ev job q))"
proof -
  have "distinct (map j_id (jobs q))" using inv(1) by (simp add: queue_inv_def)
  from only_row [OF this r(1)] r(2) have one: "filter (\<lambda>x. j_id x = i) (jobs q) = [r]" by simp
  note defs = settle_job_def settle_defs requeue_locked [OF inv] unlock_def guard_remove_def job_remove_def guard_drop_def job
  show "filter (\<lambda>x. j_id x \<noteq> i) (jobs (settle_job ev job q)) = filter (\<lambda>x. j_id x \<noteq> i) (jobs q)"
    by (auto simp: defs requeue_rows split: sum.split job_error.split)
  show "filter (\<lambda>x. j_id x = i) (jobs (settle_job ev job q)) =
      (if le_settles ev then settled_row ev (ji_failed_attempts job) (run_job_with_timeout (le_processed ev (ji_desc job))) r else [r])"
    by (auto simp: defs requeue_rows one split: sum.split job_error.split)
  show "i \<notin> set (locked (settle_job ev job q))"
    by (auto simp: defs split: sum.split job_error.split)
  show "queue_inv (settle_job ev job q)"
    using remove_inv [OF inv(1)] requeue_inv [OF inv] unlock_inv [OF inv(1)]
    by (auto simp: settle_job_def settle_defs requeue_locked [OF inv] guard_drop_def job split: sum.split job_error.split)
qed

text \<open>What becomes of a job that is kept, by what its processing came to.\<close>

fun kept_as :: "timestamp \<Rightarrow> job_result \<Rightarrow> 'd job_row \<Rightarrow> 'd job_row \<Rightarrow> bool" where
  "kept_as now (Inl (Retryable base)) r r' \<longleftrightarrow> j_attempt_count r' = j_attempt_count r + 1 \<and>
     (j_status r' = Failed \<longleftrightarrow> j_attempt_count r + 1 = j_max_attempts r) \<and>
     (j_status r' = Queued \<longrightarrow> now \<le> j_scheduled_for r' \<and>
        j_scheduled_for r' \<le> after now (max (16 * base) (from_secs 300)))"
| "kept_as now (Inl (Deferred delay)) r r' \<longleftrightarrow> j_attempt_count r' = j_attempt_count r \<and> j_status r' = Queued \<and>
     j_scheduled_for r' = after now delay"
| "kept_as now _ r r' \<longleftrightarrow> False"

lemma settled_row_kept:
  assumes "j_status r = Queued" "j_attempt_count r < j_max_attempts r"
  shows "if res = Inr () \<or> res = Inl Fatal then settled_row ev k res r = []
    else \<exists>r'. settled_row ev k res r = [r'] \<and> job_kept r r' \<and> kept_as (le_utc ev) res r r'"
proof (cases "(ev, k, res, r)" rule: settled_row.cases)
  case (4 _ _ b _)
  let ?delay = "calculate_backoff_delay b k"
  have "after (le_utc ev) ?delay \<le> after (le_utc ev) (max (16 * b) (from_secs 300))"
    by (rule after_mono [OF backoff_delay_bounds])
  with assms 4 after_later show ?thesis by (auto simp: job_kept_def requeued_row_def Let_def)
qed (use assms in \<open>auto simp: job_kept_def requeued_row_def Let_def\<close>)

text \<open>
  C38: a job a worker takes is always settled, and never lost. Whatever the other workers do meanwhile
  short of breaking its lock, an iteration that pops a job leaves it unlocked, the queue well-formed and
  every other job as the others left it. The job goes only if its processing ended, well or for good;
  otherwise it stays, once, with its descriptor, priority and limit. A failure to settle leaves it as it
  was; a deferral leaves its attempts; a retry, as after a timeout, counts one, makes it failed exactly
  when that reaches its limit, and else has it wait until some time from now, at most 16 times the base
  delay or five minutes ahead.
\<close>

theorem popped_job_is_settled:
  assumes "queue_inv q" and "1 \<le> m" "m \<le> i32_max" and "le_pop_ok ev" and "queue_pop (le_popped_at ev) q = Some (job, q1)"
    and "(others_step m (ji_id job))\<^sup>*\<^sup>* q1 (le_others ev q1)" and "loop_iteration ev s q = Some (s', q')"
  shows "queue_inv q' \<and> ji_id job \<notin> set (locked q') \<and>
    filter (\<lambda>x. j_id x \<noteq> ji_id job) (jobs q') = filter (\<lambda>x. j_id x \<noteq> ji_id job) (jobs (le_others ev q1)) \<and>
    (\<exists>r \<in> set (jobs q). j_id r = ji_id job \<and>
      (let res = run_job_with_timeout (le_processed ev (j_descriptor r)) in
       if \<not> le_settles ev then filter (\<lambda>x. j_id x = ji_id job) (jobs q') = [r]
       else if res = Inr () \<or> res = Inl Fatal then ji_id job \<notin> j_id ` set (jobs q')
       else \<exists>r'. filter (\<lambda>x. j_id x = ji_id job) (jobs q') = [r'] \<and> job_kept r r' \<and> kept_as (le_utc ev) res r r'))"
proof -
  let ?i = "ji_id job" and ?q2 = "le_others ev q1"
  obtain r where r: "r \<in> set (jobs q)" "j_id r = ?i" "j_descriptor r = ji_desc job" "eligible (le_popped_at ev) q r"
    "jobs q1 = jobs q" "locked q1 = ?i # locked q" "queue_inv q1" using pop_row [OF assms(1,5)] by blast
  from others_steps_keep [OF assms(2,3,6) r(7), of r] r
  have q2: "queue_inv ?q2" "?i \<in> set (locked ?q2)" "r \<in> set (jobs ?q2)" by simp_all
  note rows = settle_rows [OF q2 r(2) refl, of ev, folded iteration_of_job [OF assms(7,4,5)]]
  have queued: "j_status r = Queued" "j_attempt_count r < j_max_attempts r"
    using r(1,4) assms(1) by (auto simp: eligible_def queue_inv_def list_all_iff job_inv_def)
  define res where "res = run_job_with_timeout (le_processed ev (j_descriptor r))"
  have row: "filter (\<lambda>x. j_id x = ?i) (jobs q') = (if le_settles ev then settled_row ev (ji_failed_attempts job) res r else [r])"
    by (simp add: rows(2) r(3) res_def)
  have "?i \<notin> j_id ` set (jobs q')" if "filter (\<lambda>x. j_id x = ?i) (jobs q') = []"
    using that by (auto simp: filter_empty_conv image_iff)
  with row settled_row_kept [OF queued, of res ev "ji_failed_attempts job"]
  have "if \<not> le_settles ev then filter (\<lambda>x. j_id x = ?i) (jobs q') = [r]
       else if res = Inr () \<or> res = Inl Fatal then ?i \<notin> j_id ` set (jobs q')
       else \<exists>r'. filter (\<lambda>x. j_id x = ?i) (jobs q') = [r'] \<and> job_kept r r' \<and> kept_as (le_utc ev) res r r'"
    by (simp split: if_splits)
  with rows r(1,2) show ?thesis unfolding res_def Let_def by blast
qed

definition sample_loop_event :: "nat loop_event" where
  "sample_loop_event = \<lparr>le_wake = PollPeriodOver, le_woke_at = 0, le_backoff_at = 0, le_checked_at = 0, le_subscribes = True,
     le_subscribed_at = 0, le_warned_at = 0, le_pop_ok = True, le_popped_at = 9, le_others = id,
     le_processed = (\<lambda>_. Some (Inl (Retryable (from_secs 5)))), le_utc = 20, le_settles = True, le_settled_at = 21\<rparr>"

theorem popped_job_is_settled_witness:
  "\<exists>s' q' r'. loop_iteration sample_loop_event (subscription_start True 0 0) one_job = Some (s', q') \<and>
     queue_inv q' \<and> 1 \<notin> set (locked q') \<and> filter (\<lambda>x. j_id x = 1) (jobs q') = [r'] \<and> j_attempt_count r' = 1 \<and> j_descriptor r' = 7"
proof -
  have inv: "queue_inv one_job" by (simp add: one_job_def queue_inv_def job_inv_def i32_max_def)
  let ?job = "\<lparr>ji_id = 1, ji_created_at = 5, ji_updated_at = 9, ji_desc = 7, ji_max_attempts = 3, ji_failed_attempts = 0\<rparr>"
  have pop: "queue_pop 9 one_job = Some (?job, one_job\<lparr>locked := [1]\<rparr>)"
    by (simp add: queue_pop_def next_job_def one_job_def eligible_def)
  have ev: "le_wake sample_loop_event = PollPeriodOver" "le_pop_ok sample_loop_event" "le_popped_at sample_loop_event = 9"
    "le_others sample_loop_event = id" "le_processed sample_loop_event = (\<lambda>_. Some (Inl (Retryable (from_secs 5))))"
    "le_settles sample_loop_event"
    by (simp_all add: sample_loop_event_def)
  obtain s' q' where run: "loop_iteration sample_loop_event (subscription_start True 0 0) one_job = Some (s', q')"
    by (simp add: loop_iteration_def next_tick_def await_next_tick_def ev pop)
  have one: "\<forall>r \<in> set (jobs one_job). j_attempt_count r = 0 \<and> j_descriptor r = 7" by (simp add: one_job_def)
  have others: "(others_step 3 (ji_id ?job))\<^sup>*\<^sup>* (one_job\<lparr>locked := [1]\<rparr>) (le_others sample_loop_event (one_job\<lparr>locked := [1]\<rparr>))"
    by (simp add: ev)
  have "queue_pop (le_popped_at sample_loop_event) one_job = Some (?job, one_job\<lparr>locked := [1]\<rparr>)" using pop by (simp add: ev)
  from popped_job_is_settled [OF inv _ _ ev(2) this others run] one run show ?thesis
    by (auto simp: ev run_job_with_timeout_def i32_max_def job_kept_def Let_def)
qed

end
