(* ===== verification/Spec2Isabelle.thy ===== *)
theory Spec2Isabelle
  imports Expiration Cancel_Retry Chain_Client Startup Worker
begin

text \<open>
  A verification development of \<^bold>\<open>dipper\<close>, the service that opens, tracks and ends indexing
  agreements between a payer and the indexers of The Graph. File names below are relative to
  \<open>src/\<close>, and \<open>service/\<close> stands for \<open>bin/dipper-service/src/\<close>.

  \<^bold>\<open>The program.\<close> A registry in Postgres (\<open>dipper-pgregistry\<close>) holds the requests for indexing and
  the agreements made for them; a queue in Postgres (\<open>dipper-pgmq\<close>) holds the jobs. Services run side
  by side over both: one marks offers nobody accepted in time, one gives up on indexers that stopped
  indexing, one finishes the cancels that were started. They reach the chain through a client with
  its own nonces and a pool of RPC endpoints. Whatever they do to an agreement goes through one
  statement or transaction of the registry at a time, with anything of the others in between.

  \<^bold>\<open>The shared base.\<close>
  \<^item> \<open>Dipper_Prelude\<close>: the machine types, casts and time of the sources, facts about lists and the
    locales \<open>invariant_system\<close> and \<open>monotone_system\<close> (a step relation with an invariant and an order
    that its steps climb).
  \<^item> \<open>Sql\<close>: the fragment of SQL the statements use, on tables as lists of rows. The locale
    \<open>row_write\<close> is what an \<open>UPDATE\<close> of one row promises.
  \<^item> \<open>Float64\<close>: \<open>f64\<close> with rounding to nearest even, infinities and NaN; nothing tells the two zeros apart.

  \<^bold>\<open>The registry.\<close>
  \<^item> \<open>Ids\<close> (\<open>dipper-core/src/ids.rs\<close>): agreement ids and their text form, which parses back; the parser
    is total.
  \<^item> \<open>Agreement\<close> (\<open>dipper-pgregistry/src/indexing_agreement.rs\<close>, \<open>indexing_request.rs\<close>): rows, statuses
    and their codes, which read back.
  \<^item> \<open>Registry\<close> (\<open>dipper-pgregistry/src/postgres.rs\<close>): every statement that writes, as a transaction
    from registry to an error or a result and a registry. The constraints of the migrations are error
    branches. \<open>Registry_Queries\<close>: every statement that reads.
  \<^item> \<open>Registry_Lifecycle\<close>: the lifecycle as \<open>edges_from\<close>, the invariant \<open>reg_inv\<close> and the order
    \<open>evolves\<close>, with the locales \<open>guarded_write\<close>, \<open>column_write\<close> and \<open>status_change\<close> for the shapes a
    write has. \<open>Registry_Safety\<close> interprets them for each statement, defines the step relation
    \<open>registry_step\<close> of any interleaving of committed writes, and shows the invariant, that an ended
    agreement never comes back to life, and what a row keeps for good.
  \<^item> \<open>Registry_Reconcile\<close>: a batch of chain events does to every row what its own item asks, and agrees
    with the item-by-item loop of the trait (\<open>service/registry.rs\<close>).
  \<^item> \<open>Registry_Facts\<close>: what clients rely on, namely the target upsert against a map, the end that stays
    on record, the windows declined agreements are held against an indexer, batches and counts.

  \<^bold>\<open>The job queue.\<close> \<open>Job_Queue\<close> (\<open>dipper-pgmq/src\<close>): the committed table with the row locks of running
  workers, the statements, and the listener's reconnects. No two workers hold a job, none is lost, a
  pop serves the next one, a job fails at its last attempt. \<open>Worker\<close> (\<open>service/worker/service.rs\<close>,
  \<open>result.rs\<close>): an iteration of the loop that serves it, its delays, and the repair of its subscription.

  \<^bold>\<open>The services.\<close>
  \<^item> \<open>Outside\<close>: the traits to the chain, the indexers and the selection service. Their answers are data.
  \<^item> \<open>Service_World\<close>: programs in the state monad over a world that holds the registry, the pushed jobs
    and calls, and a script of moves: what the others commit between two calls, when a call fails, what
    the outside answers, how time passes. A theorem over all scripts covers all interleavings.
  \<^item> \<open>Rely_Guarantee\<close>: the rely is \<open>registry_step\<close>, the guarantee of a service says what it may write,
    push and send. The locale \<open>service\<close> turns a proof about its program into one about any run.
  \<^item> \<open>Expiration\<close>, \<open>Liveness_Policy\<close> and \<open>Liveness\<close>, \<open>Cancel_Retry\<close>
    (\<open>service/network/service/expiration.rs\<close>, \<open>liveness_checker.rs\<close>, \<open>cancel_retry.rs\<close>) and
    \<open>Cancel_Dispatch\<close> (\<open>service/cancel_dispatch.rs\<close>): a tick, cycle, sweep or cancel each, in full. Each
    writes only what it is entitled to, whatever happens meanwhile.

  \<^bold>\<open>The chain client.\<close>
  \<^item> \<open>Rpc_Pool\<close> (\<open>service/chain_client/rpc_provider.rs\<close>): endpoints in ring order with retries and
    backoff. The attempt is a parameter, an argument of the call.
  \<^item> \<open>Seen_Block\<close> and \<open>Chain_Client\<close> (\<open>service/chain_client/client.rs\<close>, \<open>gas.rs\<close>): the newest block seen
    and how endpoints agree on it, nonces, submission, receipts, reads. A run works through a list of
    events, one per request, each saying what the node would answer to anything and how long it takes.
    The locale \<open>kept\<close> carries a relation through every call made with the pool.

  \<^bold>\<open>The configuration.\<close> \<open>Service_Config\<close> (\<open>service/config.rs\<close>, the checks of \<open>service/main.rs\<close>): every
  section with its defaults, read from JSON, and what is refused. \<open>Startup\<close> shows what that ensures.

  \<^bold>\<open>Bounds.\<close> The walk over the endpoints and the wait for a receipt are partial functions with proofs
  that they return (\<open>walk_returns\<close>, \<open>receipt_poll_returns\<close>); every other loop is a recursion over
  data. Scripts and event lists are finite and of any length: past the end of a script the others
  rest and nobody outside answers, past the end of the events a request is refused. Word widths are those of the source.

  \<^bold>\<open>Not modelled.\<close>
  \<^item> Logging, alerts, the health endpoint, task supervision and the wiring of \<open>main.rs\<close>
    (\<open>service/alerts.rs\<close>, \<open>health.rs\<close>, \<open>supervisor.rs\<close>): I/O around the parts above.
  \<^item> The event listener and its parser (\<open>chain_listener.rs\<close>, \<open>chain_events.rs\<close>), the escrow reconciler,
    the reassignment service and the job handlers (\<open>service/worker\<close>): they build on the registry, the
    queue and the client, whose contracts are here.
  \<^item> Signing, ABI coding, HTTP and gRPC transports, Kafka and the generated protocol buffers: library
    code whose results are parameters or constructors of the model.
\<close>

end
